(* ===== verification/Prelude.thy ===== *)
theory Prelude
  imports Main "HOL-Library.Word" "HOL-Library.Char_ord" "HOL-Library.List_Lexorder"
begin

text \<open>
  Shared vocabulary of the development: the machine integer types of the C++ sources, the
  faults an operation can end in, the result type of operations that can fault, and the
  generic facts on 64-bit indices and on lists that the components use.
\<close>

type_synonym u8 = "8 word"
type_synonym u16 = "16 word"
type_synonym u32 = "32 word"
type_synonym u64 = "64 word"

text \<open>
  The ways the program stops instead of returning: a call of the \<^verbatim>\<open>PANIC\<close> macro, the
  dereference of an empty \<^verbatim>\<open>EntryPtr\<close>, an exception thrown by a constructor,
  \<^verbatim>\<open>vector::at\<close> out of range, an exception of a library that nobody catches, a division by 0, \<^verbatim>\<open>::exit\<close>, and a
  loop that never ends.
\<close>

datatype fault = Panic | NullDeref | ConstructException | OutOfRange | Uncaught | DivByZero | Exit bool | Diverge

type_synonym 'a res = "fault + 'a"

definition res_bind :: "'a res \<Rightarrow> ('a \<Rightarrow> 'b res) \<Rightarrow> 'b res" where
  "res_bind m f = (case m of Inl e \<Rightarrow> Inl e | Inr x \<Rightarrow> f x)"

definition of_option :: "fault \<Rightarrow> 'a option \<Rightarrow> 'a res" where
  "of_option e m = (case m of None \<Rightarrow> Inl e | Some x \<Rightarrow> Inr x)"

named_theorems res_simps \<open>evaluation of the result type\<close>

named_theorems idx_simps \<open>64-bit indices read as natural numbers\<close>

lemma res_bind_simps [simp, res_simps]:
  "res_bind (Inl e) f = Inl e"
  "res_bind (Inr x) f = f x"
  by (simp_all add: res_bind_def)

lemma of_option_simps [simp, res_simps]:
  "of_option e None = Inl e"
  "of_option e (Some x) = Inr x"
  by (simp_all add: of_option_def)

lemma res_bind_Inr_iff: "res_bind m f = Inr y \<longleftrightarrow> (\<exists>x. m = Inr x \<and> f x = Inr y)"
  by (cases m) auto

lemma of_option_Inr_iff [simp]: "of_option e m = Inr y \<longleftrightarrow> m = Some y"
  by (cases m) auto

subsection \<open>Indices\<close>

lemma unat_inc [idx_simps]: "x \<noteq> - 1 \<Longrightarrow> unat (x + 1 :: u64) = Suc (unat x)"
  by (metis add.commute add_eq_0_iff unatSuc)

lemma unat_dec [idx_simps]: "x \<noteq> 0 \<Longrightarrow> unat (x - 1 :: u64) = unat x - 1"
  by (rule unat_minus_one)

lemma unat_max_u64: "unat (- 1 :: u64) = 2 ^ 64 - 1"
  by (simp add: unsigned_minus_1_eq_mask mask_eq_exp_minus_1)

lemma unat_lt_u64: "unat (x :: u64) < 2 ^ 64"
  using unsigned_less [of x, where 'a = nat] by simp

lemma less_max_u64 [idx_simps]: "x \<noteq> (- 1 :: u64) \<longleftrightarrow> unat x < 2 ^ 64 - 1"
proof -
  have "unat x < 2 ^ 64" by (rule unat_lt_u64)
  moreover have "x = - 1 \<longleftrightarrow> unat x = 2 ^ 64 - 1"
    by (metis unat_max_u64 word_unat_eq_iff)
  ultimately show ?thesis by auto
qed

lemma unat_of_nat_u64: "n < 2 ^ 64 \<Longrightarrow> unat (of_nat n :: u64) = n"
  by (simp add: unat_of_nat take_bit_nat_eq_self)

lemma unat_add_of_nat [idx_simps]:
  "unat x + n < 2 ^ 64 \<Longrightarrow> unat (x + of_nat n :: u64) = unat x + n"
  by (simp add: unat_word_ariths unat_of_nat take_bit_nat_def)

lemma of_nat_unat_u64 [simp]: "(of_nat (unat x) :: u64) = x"
  by simp

lemmas idx_order = word_le_nat_alt word_less_nat_alt

subsection \<open>Lists\<close>

text \<open>\<^verbatim>\<open>std::string::find(p) != npos\<close>: the pattern occurs at some position.\<close>

fun str_contains :: "'a list \<Rightarrow> 'a list \<Rightarrow> bool" where
  "str_contains p [] = (p = [])"
| "str_contains p (c # s) = (take (length p) (c # s) = p \<or> str_contains p s)"

lemma str_contains_iff: "str_contains p s \<longleftrightarrow> (\<exists>a b. s = a @ p @ b)"
proof (induction s)
  case Nil
  then show ?case by auto
next
  case (Cons c s)
  have "take (length p) (c # s) = p \<longleftrightarrow> (\<exists>b. c # s = p @ b)"
    by (metis append_eq_conv_conj append_take_drop_id)
  then show ?case
    using Cons by (simp add: Cons_eq_append_conv) blast
qed

lemma map_upt_shift: "map (\<lambda>n. f (n - a)) [a ..< a + k] = map f [0 ..< k]"
  by (induction k) auto

end
