(* ===== verification/Proto.thy ===== *)
theory Proto
  imports Prelude
begin

text \<open>
  The protobuf messages of \<^verbatim>\<open>src/source/Protocol/source\<close>, one record per message. A
  required field is a field of the record, an optional field an \<open>option\<close>, a repeated field a
  list. Reading an optional field that is not set gives the default of its type, as the
  generated accessors do.
\<close>

subsection \<open>Raft.proto\<close>

datatype entry_type = kNormal | kConfigure | kNoop

record entry =
  e_type :: entry_type
  e_term :: u64
  e_data :: "string option"
  e_context :: "string option"

definition entry_data :: "entry \<Rightarrow> string" where
  "entry_data e = (case e_data e of None \<Rightarrow> [] | Some d \<Rightarrow> d)"

record vote_request =
  vq_term :: u64
  vq_candidate_id :: u64
  vq_last_log_index :: u64
  vq_last_log_term :: u64
  vq_epoch :: u64

record vote_response =
  vr_term :: u64
  vr_vote_granted :: bool
  vr_peer_id :: u64
  vr_log_ok :: bool
  vr_epoch :: u64

record append_request =
  aq_term :: u64
  aq_leader_id :: u64
  aq_prev_log_index :: u64
  aq_prev_log_term :: u64
  aq_entries :: "entry list"
  aq_leader_commit :: u64
  aq_epoch :: u64

record append_response =
  ar_term :: u64
  ar_success :: bool
  ar_peer_id :: u64
  ar_last_log_index :: u64
  ar_epoch :: u64

record install_request =
  iq_term :: u64
  iq_leader_id :: u64
  iq_last_included_index :: u64
  iq_last_included_term :: u64
  iq_data :: string
  iq_epoch :: u64

record install_response =
  ir_term :: u64
  ir_peer_id :: u64
  ir_bytes_stored :: "u64 option"
  ir_epoch :: u64

text \<open>The opcodes of the Raft service select which of the three messages a payload holds.\<close>

datatype raft_request =
    RequestVote vote_request
  | AppendEntries append_request
  | InstallSnapshot install_request

datatype raft_response =
    RequestVoteRsp vote_response
  | AppendEntriesRsp append_response
  | InstallSnapshotRsp install_response

subsection \<open>RaftLogMetadata.proto\<close>

record log_meta =
  m_current_term :: "u64 option"
  m_voted_for :: "u64 option"
  m_commit_index :: "u64 option"
  m_apply_index :: "u64 option"

definition meta_empty :: log_meta where
  "meta_empty = \<lparr>m_current_term = None, m_voted_for = None, m_commit_index = None, m_apply_index = None\<rparr>"

definition opt_u64 :: "u64 option \<Rightarrow> u64" where
  "opt_u64 v = (case v of None \<Rightarrow> 0 | Some x \<Rightarrow> x)"

lemma opt_u64_simps [simp]: "opt_u64 None = 0" "opt_u64 (Some x) = x"
  by (simp_all add: opt_u64_def)

subsection \<open>Snapshot.proto\<close>

record snapshot =
  s_last_included_index :: u64
  s_last_included_term :: u64
  s_data :: "(string \<times> string) list"

subsection \<open>Client.proto\<close>

record select_request =
  sq_read :: "string option"
  sq_range :: "(string \<times> string \<times> u64) option"
  sq_search :: "(string \<times> u64) option"

record select_response =
  sr_code :: int
  sr_msg :: string
  sr_read :: "string option"
  sr_range :: "string list option"
  sr_search :: "string list option"

definition select_response_init :: select_response where
  "select_response_init =
     \<lparr>sr_code = 0, sr_msg = [], sr_read = None, sr_range = None, sr_search = None\<rparr>"

record update_request =
  uq_write :: "(string \<times> string) option"
  uq_remove :: "string option"

record update_response =
  ur_code :: int
  ur_msg :: string
  ur_context :: "string option"

end
