(* ===== verification/Deps.thy ===== *)
theory Deps
  imports Proto
begin

text \<open>
  The third-party code the program calls is a parameter of the model. Each library is a record
  of the functions the sources use, and a predicate states the documented behaviour the program
  relies on:
  \<^item> LevelDB (\<open>leveldb\<close>, \<open>leveldb_ok\<close>): a map from byte strings to byte strings with atomic write
    batches and an iterator in bytewise key order;
  \<^item> the byte order helpers and the protobuf codecs of log entries (\<open>codec\<close>, \<open>codec_ok\<close>).
  \<^theory_text>\<open>Reference\<close> gives a concrete instance of every record, so that the hypotheses of the
  properties can be shown to hold together.
\<close>

subsection \<open>LevelDB\<close>

datatype batch_op = Put string string | Del string

text \<open>
  \<open>db_Get\<close> is \<^verbatim>\<open>DB::Get\<close> (\<open>None\<close>: the status is not OK), \<open>db_Write\<close>, \<open>db_Put\<close> and
  \<open>db_Delete\<close> return whether the status is OK and the database after the call, \<open>db_iter\<close> is the
  sequence an iterator visits from \<^verbatim>\<open>SeekToFirst\<close>, \<open>db_Destroy\<close> is what
  \<^verbatim>\<open>DestroyDB\<close> leaves of an open database.
\<close>

record 'db leveldb =
  db_Get :: "'db \<Rightarrow> string \<Rightarrow> string option"
  db_Write :: "'db \<Rightarrow> batch_op list \<Rightarrow> bool \<times> 'db"
  db_Put :: "'db \<Rightarrow> string \<Rightarrow> string \<Rightarrow> bool \<times> 'db"
  db_Delete :: "'db \<Rightarrow> string \<Rightarrow> bool \<times> 'db"
  db_iter :: "'db \<Rightarrow> (string \<times> string) list"
  db_Destroy :: "'db \<Rightarrow> 'db"

primrec op_apply :: "batch_op \<Rightarrow> (string \<rightharpoonup> string) \<Rightarrow> (string \<rightharpoonup> string)" where
  "op_apply (Put k v) = (\<lambda>m. m(k \<mapsto> v))"
| "op_apply (Del k) = (\<lambda>m. m(k := None))"

definition batch_apply :: "batch_op list \<Rightarrow> (string \<rightharpoonup> string) \<Rightarrow> (string \<rightharpoonup> string)" where
  "batch_apply b m = fold op_apply b m"

lemma batch_apply_simps [simp]:
  "batch_apply [] m = m"
  "batch_apply (x # b) m = batch_apply b (op_apply x m)"
  by (simp_all add: batch_apply_def)

text \<open>A batch is applied as a whole when the status is OK and not at all otherwise.\<close>

definition leveldb_ok :: "'db leveldb \<Rightarrow> bool" where
  "leveldb_ok L \<longleftrightarrow>
     (\<forall>db b. db_Get L (snd (db_Write L db b)) =
        (if fst (db_Write L db b) then batch_apply b (db_Get L db) else db_Get L db)) \<and>
     (\<forall>db k v. db_Get L (snd (db_Put L db k v)) =
        (if fst (db_Put L db k v) then (db_Get L db)(k \<mapsto> v) else db_Get L db)) \<and>
     (\<forall>db k. db_Get L (snd (db_Delete L db k)) =
        (if fst (db_Delete L db k) then (db_Get L db)(k := None) else db_Get L db)) \<and>
     (\<forall>db. sorted_wrt (<) (map fst (db_iter L db)) \<and> map_of (db_iter L db) = db_Get L db)"

text \<open>No write reports an error.\<close>

definition leveldb_reliable :: "'db leveldb \<Rightarrow> bool" where
  "leveldb_reliable L \<longleftrightarrow>
     (\<forall>db b. fst (db_Write L db b)) \<and> (\<forall>db k v. fst (db_Put L db k v)) \<and>
     (\<forall>db k. fst (db_Delete L db k))"

lemma leveldb_okD:
  assumes "leveldb_ok L"
  shows "db_Get L (snd (db_Write L db b)) =
        (if fst (db_Write L db b) then batch_apply b (db_Get L db) else db_Get L db)"
    and "db_Get L (snd (db_Put L db k v)) =
        (if fst (db_Put L db k v) then (db_Get L db)(k \<mapsto> v) else db_Get L db)"
    and "db_Get L (snd (db_Delete L db k)) =
        (if fst (db_Delete L db k) then (db_Get L db)(k := None) else db_Get L db)"
    and "sorted_wrt (<) (map fst (db_iter L db))"
    and "map_of (db_iter L db) = db_Get L db"
  using assms by (simp_all add: leveldb_ok_def)

lemma leveldb_reliableD [simp]:
  assumes "leveldb_reliable L"
  shows "fst (db_Write L db b)" "fst (db_Put L db k v)" "fst (db_Delete L db k)"
  using assms by (simp_all add: leveldb_reliable_def)

lemma batch_apply_append: "batch_apply (a @ b) m = batch_apply b (batch_apply a m)"
  by (simp add: batch_apply_def)

lemma batch_apply_map_Del: "batch_apply (map Del ks) m = (\<lambda>k. if k \<in> set ks then None else m k)"
  by (induction ks arbitrary: m) (auto simp: fun_eq_iff)

lemma batch_apply_map_Put:
  "batch_apply (map (\<lambda>(k, v). Put k v) kvs) m = m ++ map_of (rev kvs)"
proof (induction kvs arbitrary: m)
  case (Cons kv kvs)
  obtain k v where kv: "kv = (k, v)" by (cases kv)
  have "batch_apply (map (\<lambda>(k, v). Put k v) kvs) (m(k \<mapsto> v)) = m(k \<mapsto> v) ++ map_of (rev kvs)"
    by (rule Cons)
  also have "\<dots> = m ++ map_of (rev (kv # kvs))"
    by (simp add: kv map_add_def fun_eq_iff map_of_append split: option.splits)
  finally show ?case by (simp add: kv)
qed simp

subsection \<open>Byte order and log entry codec\<close>

text \<open>
  \<open>uint64_to_net\<close> and \<open>uint64_from_net\<close> are \<^verbatim>\<open>roo::Endian\<close>: a 64-bit value as eight bytes
  in network byte order. \<open>entry_ser\<close> is \<^verbatim>\<open>SerializeToString\<close> and \<open>entry_parse\<close> the message
  after \<^verbatim>\<open>ParseFromString\<close>, whose status the program does not read.
\<close>

record codec =
  uint64_to_net :: "u64 \<Rightarrow> string"
  uint64_from_net :: "string \<Rightarrow> u64"
  entry_ser :: "entry \<Rightarrow> string"
  entry_parse :: "string \<Rightarrow> entry"

definition codec_ok :: "codec \<Rightarrow> bool" where
  "codec_ok E \<longleftrightarrow>
     (\<forall>x. uint64_from_net E (uint64_to_net E x) = x) \<and>
     (\<forall>x. length (uint64_to_net E x) = 8) \<and>
     (\<forall>x y. x < y \<longrightarrow> uint64_to_net E x < uint64_to_net E y) \<and>
     (\<forall>e. entry_parse E (entry_ser E e) = e)"

lemma codec_okD:
  assumes "codec_ok E"
  shows "uint64_from_net E (uint64_to_net E x) = x"
    and "length (uint64_to_net E x) = 8"
    and "x < y \<Longrightarrow> uint64_to_net E x < uint64_to_net E y"
    and "entry_parse E (entry_ser E e) = e"
  using assms by (auto simp: codec_ok_def)

lemma to_net_inj: "codec_ok E \<Longrightarrow> uint64_to_net E x = uint64_to_net E y \<longleftrightarrow> x = y"
  by (metis codec_okD(1))

lemma to_net_less_iff: "codec_ok E \<Longrightarrow> uint64_to_net E x < uint64_to_net E y \<longleftrightarrow> x < y"
  by (metis codec_okD(3) linorder_neqE order_less_asym order_less_irrefl)


subsection \<open>Protobuf messages\<close>

text \<open>
  The \<^verbatim>\<open>roo::ProtoBuf\<close> helpers, per message type: unmarshalling may fail (\<open>None\<close>), and so may
  marshalling where the program looks at its result.
\<close>

record proto =
  marshal_snapshot :: "snapshot \<Rightarrow> string option"
  unmarshal_snapshot :: "string \<Rightarrow> snapshot option"
  unmarshal_update_request :: "string \<Rightarrow> update_request option"
  marshal_update_response :: "update_response \<Rightarrow> string"
  unmarshal_select_request :: "string \<Rightarrow> select_request option"
  marshal_select_response :: "select_response \<Rightarrow> string"
  unmarshal_vote_request :: "string \<Rightarrow> vote_request option"
  marshal_vote_response :: "vote_response \<Rightarrow> string"
  unmarshal_vote_response :: "string \<Rightarrow> vote_response option"
  unmarshal_append_request :: "string \<Rightarrow> append_request option"
  marshal_append_response :: "append_response \<Rightarrow> string"
  unmarshal_append_response :: "string \<Rightarrow> append_response option"
  unmarshal_install_request :: "string \<Rightarrow> install_request option"
  marshal_install_response :: "install_response \<Rightarrow> string"
  unmarshal_install_response :: "string \<Rightarrow> install_response option"

definition snapshot_codec_ok :: "proto \<Rightarrow> bool" where
  "snapshot_codec_ok P \<longleftrightarrow>
     (\<forall>s c. marshal_snapshot P s = Some c \<longrightarrow> unmarshal_snapshot P c = Some s)"

subsection \<open>Files\<close>

text \<open>
  \<^verbatim>\<open>roo::FilesystemUtil::write_file\<close>, \<^verbatim>\<open>read_file\<close> and \<^verbatim>\<open>::rename\<close>: writing returns whether it
  succeeded, reading gives the contents of a file, renaming replaces the target.
\<close>

record 'fs files =
  fs_write :: "'fs \<Rightarrow> string \<Rightarrow> string \<Rightarrow> bool \<times> 'fs"
  fs_read :: "'fs \<Rightarrow> string \<Rightarrow> string option"
  fs_rename :: "'fs \<Rightarrow> string \<Rightarrow> string \<Rightarrow> 'fs"

definition files_ok :: "'fs files \<Rightarrow> bool" where
  "files_ok F \<longleftrightarrow>
     (\<forall>fs p c q. q \<noteq> p \<longrightarrow> fs_read F (snd (fs_write F fs p c)) q = fs_read F fs q) \<and>
     (\<forall>fs p c. fst (fs_write F fs p c) \<longrightarrow> fs_read F (snd (fs_write F fs p c)) p = Some c) \<and>
     (\<forall>fs p q. fs_read F fs p \<noteq> None \<longrightarrow> fs_read F (fs_rename F fs p q) q = fs_read F fs p)"

end
