(* ===== verification/Log_If.thy ===== *)
theory Log_If
  imports Deps
begin

text \<open>
  The abstract class \<^verbatim>\<open>LogIf\<close> (\<^verbatim>\<open>src/source/Raft/LogIf.h\<close>): the record \<open>LogIf\<close> is its table
  of virtual functions over an implementation state \<open>'l\<close>, and the locale \<open>log_if\<close> is its
  contract. The contract reads a log as the list of its entries from \<open>start_index\<close> on. The
  consensus module is written against this table, as the C++ class is written against a
  \<^verbatim>\<open>unique_ptr<LogIf>\<close>.
\<close>

record 'l LogIf =
  append :: "'l \<Rightarrow> entry list \<Rightarrow> (u64 \<times> u64) \<times> 'l"
  entry :: "'l \<Rightarrow> u64 \<Rightarrow> entry option"
  entries :: "'l \<Rightarrow> u64 \<Rightarrow> u64 \<Rightarrow> (bool \<times> entry list) res"
  last_term_and_index :: "'l \<Rightarrow> u64 \<times> u64"
  start_index :: "'l \<Rightarrow> u64"
  last_index :: "'l \<Rightarrow> u64"
  truncate_prefix :: "'l \<Rightarrow> u64 \<Rightarrow> 'l"
  truncate_suffix :: "'l \<Rightarrow> u64 \<Rightarrow> 'l"
  meta_data :: "'l \<Rightarrow> log_meta"
  set_meta_data :: "'l \<Rightarrow> log_meta \<Rightarrow> int \<times> 'l"
  meta_commit_index :: "'l \<Rightarrow> u64"
  meta_apply_index :: "'l \<Rightarrow> u64"
  set_meta_commit_index :: "'l \<Rightarrow> u64 \<Rightarrow> int \<times> 'l"
  set_meta_apply_index :: "'l \<Rightarrow> u64 \<Rightarrow> int \<times> 'l"

text \<open>
  \<open>ents\<close> is the list of entries a log holds and \<open>inv\<close> its representation invariant. A log whose
  last index is the largest 64-bit value is outside the contract (\<open>last_bound\<close>).
\<close>

locale log_if =
  fixes V :: "'l LogIf"
    and ents :: "'l \<Rightarrow> entry list"
    and inv :: "'l \<Rightarrow> bool"
  assumes start_pos: "inv l \<Longrightarrow> 1 \<le> unat (start_index V l)"
    and last_eq: "inv l \<Longrightarrow> unat (last_index V l) + 1 = unat (start_index V l) + length (ents l)"
    and last_bound: "inv l \<Longrightarrow> unat (last_index V l) < 2 ^ 64 - 1"
    and entry_ents: "inv l \<Longrightarrow> start_index V l \<le> i \<Longrightarrow> i \<le> last_index V l \<Longrightarrow>
          entry V l i = Some (ents l ! (unat i - unat (start_index V l)))"
    and entry_None: "inv l \<Longrightarrow> i < start_index V l \<or> last_index V l < i \<Longrightarrow> entry V l i = None"
    and last_term: "inv l \<Longrightarrow> last_term_and_index V l =
          (if ents l = [] then 0 else e_term (last (ents l)), last_index V l)"
    and append_spec: "inv l \<Longrightarrow> unat (last_index V l) + length es < 2 ^ 64 - 1 \<Longrightarrow>
          inv (snd (append V l es)) \<and> ents (snd (append V l es)) = ents l @ es \<and>
          start_index V (snd (append V l es)) = start_index V l \<and>
          fst (append V l es) = (start_index V l, last_index V (snd (append V l es))) \<and>
          meta_data V (snd (append V l es)) = meta_data V l"
    and suffix_spec: "inv l \<Longrightarrow> inv (truncate_suffix V l k) \<and>
          ents (truncate_suffix V l k) = take (Suc (unat k) - unat (start_index V l)) (ents l) \<and>
          start_index V (truncate_suffix V l k) = start_index V l \<and>
          meta_data V (truncate_suffix V l k) = meta_data V l"
    and prefix_spec: "inv l \<Longrightarrow> inv (truncate_prefix V l k) \<and>
          ents (truncate_prefix V l k) = drop (unat k - unat (start_index V l)) (ents l) \<and>
          start_index V (truncate_prefix V l k) = max k (start_index V l) \<and>
          meta_data V (truncate_prefix V l k) = meta_data V l"
    and set_meta_spec: "inv l \<Longrightarrow> inv (snd (set_meta_data V l m)) \<and>
          ents (snd (set_meta_data V l m)) = ents l \<and>
          start_index V (snd (set_meta_data V l m)) = start_index V l \<and>
          meta_data V (snd (set_meta_data V l m)) =
            \<lparr>m_current_term = Some (opt_u64 (m_current_term m)),
             m_voted_for = Some (opt_u64 (m_voted_for m)),
             m_commit_index = (case m_commit_index m of None \<Rightarrow> m_commit_index (meta_data V l) | c \<Rightarrow> c),
             m_apply_index = (case m_apply_index m of None \<Rightarrow> m_apply_index (meta_data V l) | c \<Rightarrow> c)\<rparr>"
    and set_commit_spec: "inv l \<Longrightarrow> inv (snd (set_meta_commit_index V l c)) \<and>
          ents (snd (set_meta_commit_index V l c)) = ents l \<and>
          start_index V (snd (set_meta_commit_index V l c)) = start_index V l \<and>
          meta_data V (snd (set_meta_commit_index V l c)) = (meta_data V l)\<lparr>m_commit_index := Some c\<rparr>"
    and set_apply_spec: "inv l \<Longrightarrow> inv (snd (set_meta_apply_index V l c)) \<and>
          ents (snd (set_meta_apply_index V l c)) = ents l \<and>
          start_index V (snd (set_meta_apply_index V l c)) = start_index V l \<and>
          meta_data V (snd (set_meta_apply_index V l c)) = (meta_data V l)\<lparr>m_apply_index := Some c\<rparr>"
    and commit_of_meta: "inv l \<Longrightarrow> meta_commit_index V l = opt_u64 (m_commit_index (meta_data V l))"
    and apply_of_meta: "inv l \<Longrightarrow> meta_apply_index V l = opt_u64 (m_apply_index (meta_data V l))"
    and entries_spec: "inv l \<Longrightarrow> entries V l s lim = Inr (True,
          (let rest = drop (unat s - unat (start_index V l)) (ents l) in
           if lim = 0 then rest else take (Suc (unat lim)) rest))"
begin

lemmas appendD = append_spec [THEN conjunct1]
  append_spec [THEN conjunct2, THEN conjunct1]
  append_spec [THEN conjunct2, THEN conjunct2, THEN conjunct1]
  append_spec [THEN conjunct2, THEN conjunct2, THEN conjunct2, THEN conjunct1]
  append_spec [THEN conjunct2, THEN conjunct2, THEN conjunct2, THEN conjunct2]

lemmas suffixD [simp] = suffix_spec [THEN conjunct1]
  suffix_spec [THEN conjunct2, THEN conjunct1]
  suffix_spec [THEN conjunct2, THEN conjunct2, THEN conjunct1]
  suffix_spec [THEN conjunct2, THEN conjunct2, THEN conjunct2]

lemmas prefixD [simp] = prefix_spec [THEN conjunct1]
  prefix_spec [THEN conjunct2, THEN conjunct1]
  prefix_spec [THEN conjunct2, THEN conjunct2, THEN conjunct1]
  prefix_spec [THEN conjunct2, THEN conjunct2, THEN conjunct2]

lemmas set_metaD [simp] = set_meta_spec [THEN conjunct1]
  set_meta_spec [THEN conjunct2, THEN conjunct1]
  set_meta_spec [THEN conjunct2, THEN conjunct2, THEN conjunct1]
  set_meta_spec [THEN conjunct2, THEN conjunct2, THEN conjunct2]

lemmas set_commitD [simp] = set_commit_spec [THEN conjunct1]
  set_commit_spec [THEN conjunct2, THEN conjunct1]
  set_commit_spec [THEN conjunct2, THEN conjunct2, THEN conjunct1]
  set_commit_spec [THEN conjunct2, THEN conjunct2, THEN conjunct2]

lemmas set_applyD [simp] = set_apply_spec [THEN conjunct1]
  set_apply_spec [THEN conjunct2, THEN conjunct1]
  set_apply_spec [THEN conjunct2, THEN conjunct2, THEN conjunct1]
  set_apply_spec [THEN conjunct2, THEN conjunct2, THEN conjunct2]

text \<open>The last index of a log is fixed by where it starts and how many entries it holds.\<close>

lemma last_index_cong:
  assumes "inv l" "inv l'" "start_index V l' = start_index V l" "length (ents l') = length (ents l)"
  shows "last_index V l' = last_index V l"
  by (metis add_right_cancel assms last_eq word_unat_eq_iff)

lemma last_index_frame [simp]:
  assumes "inv l"
  shows "last_index V (snd (set_meta_data V l m)) = last_index V l"
    and "last_index V (snd (set_meta_commit_index V l c)) = last_index V l"
    and "last_index V (snd (set_meta_apply_index V l c)) = last_index V l"
  by (rule last_index_cong; simp add: assms)+

lemma append_last:
  assumes "inv l" "unat (last_index V l) + length es < 2 ^ 64 - 1"
  shows "unat (last_index V (snd (append V l es))) = unat (last_index V l) + length es"
proof -
  have "unat (last_index V (snd (append V l es))) + 1 =
      unat (start_index V l) + (length (ents l) + length es)"
    using last_eq [OF appendD(1) [OF assms]] by (simp add: appendD [OF assms])
  with last_eq [OF assms(1)] show ?thesis by simp
qed

text \<open>An entry is present exactly at the indices the log covers.\<close>

lemma entry_Some_iff:
  assumes "inv l"
  shows "entry V l i \<noteq> None \<longleftrightarrow> start_index V l \<le> i \<and> i \<le> last_index V l"
  using assms entry_ents entry_None by (metis not_le option.distinct(1))

lemma suffix_last:
  assumes "inv l" "k < last_index V l" "unat (start_index V l) \<le> Suc (unat k)"
  shows "last_index V (truncate_suffix V l k) = k"
proof -
  have "unat k < unat (last_index V l)" using assms(2) by (simp add: idx_order)
  then have "unat (last_index V (truncate_suffix V l k)) + 1 = Suc (unat k)"
    using last_eq [of "truncate_suffix V l k"] last_eq [OF assms(1)] assms by simp
  then show ?thesis by (simp add: word_unat_eq_iff)
qed

end

end
