(* ===== verification/Level_Log.thy ===== *)
theory Level_Log
  imports Log_If
begin

text \<open>
  \<^verbatim>\<open>LevelDBLog\<close> (\<^verbatim>\<open>src/source/Raft/LevelDBLog.{h,cpp}\<close>): the persistent Raft log and its meta data in
  one LevelDB database. A log entry is stored under its index in network byte order, the meta
  data under four string keys. The state is the pair of cached bounds (members \<^verbatim>\<open>start_index_\<close>, \<^verbatim>\<open>last_index_\<close>) and the
  database (\<^verbatim>\<open>log_meta_fp_\<close>); the
  operations take the LevelDB functions \<open>L\<close> and the codec \<open>E\<close>. The interpretation at the end
  shows that the class keeps the contract of \<^verbatim>\<open>LogIf\<close>.
\<close>

record 'db leveldb_log =
  lg_start :: u64
  lg_last :: u64
  lg_db :: 'db

definition META_CURRENT_TERM :: string where "META_CURRENT_TERM = ''META_CURRENT_TERM''"
definition META_VOTED_FOR :: string where "META_VOTED_FOR = ''META_VOTED_FOR''"
definition META_COMMIT_INDEX :: string where "META_COMMIT_INDEX = ''META_COMMIT_INDEX''"
definition META_APPLY_INDEX :: string where "META_APPLY_INDEX = ''META_APPLY_INDEX''"

lemmas META_defs = META_CURRENT_TERM_def META_VOTED_FOR_def META_COMMIT_INDEX_def META_APPLY_INDEX_def

subsection \<open>Construction\<close>

definition is_meta_key :: "string \<Rightarrow> bool" where
  "is_meta_key k = str_contains ''META_'' k"

text \<open>The backward scan from \<^verbatim>\<open>SeekToLast\<close> that skips meta keys.\<close>

fun seek_last_index :: "codec \<Rightarrow> (string \<times> string) list \<Rightarrow> u64" where
  "seek_last_index E [] = 0"
| "seek_last_index E ((k, v) # its) =
     (if is_meta_key k then seek_last_index E its else uint64_from_net E k)"

definition LevelDBLog_ctor :: "'db leveldb \<Rightarrow> codec \<Rightarrow> 'db option \<Rightarrow> 'db leveldb_log res" where
  "LevelDBLog_ctor L E opened =
     (case opened of None \<Rightarrow> Inl ConstructException
      | Some db \<Rightarrow>
         (let start = (case db_iter L db of [] \<Rightarrow> 1
                       | (k, v) # _ \<Rightarrow> if is_meta_key k then 1 else uint64_from_net E k);
              lst = seek_last_index E (rev (db_iter L db))
          in if lst \<noteq> 0 \<and> lst < start then Inl ConstructException
             else Inr \<lparr>lg_start = start, lg_last = lst, lg_db = db\<rparr>))"

subsection \<open>Log operations\<close>

fun append_batch :: "codec \<Rightarrow> u64 \<Rightarrow> entry list \<Rightarrow> batch_op list \<times> u64" where
  "append_batch E lst [] = ([], lst)"
| "append_batch E lst (e # es) =
     (let (b, l) = append_batch E (lst + 1) es in (Put (uint64_to_net E (lst + 1)) (entry_ser E e) # b, l))"

definition LevelDBLog_append ::
    "'db leveldb \<Rightarrow> codec \<Rightarrow> 'db leveldb_log \<Rightarrow> entry list \<Rightarrow> (u64 \<times> u64) \<times> 'db leveldb_log" where
  "LevelDBLog_append L E lg es =
     (let (batch, lst) = append_batch E (lg_last lg) es;
          (ok, db) = db_Write L (lg_db lg) batch;
          lst' = (if ok then lst else lst - of_nat (length es))
      in ((lg_start lg, lst'), lg\<lparr>lg_last := lst', lg_db := db\<rparr>))"

definition LevelDBLog_entry :: "'db leveldb \<Rightarrow> codec \<Rightarrow> 'db leveldb_log \<Rightarrow> u64 \<Rightarrow> entry option" where
  "LevelDBLog_entry L E lg index =
     (case db_Get L (lg_db lg) (uint64_to_net E index) of None \<Rightarrow> None
      | Some val \<Rightarrow> Some (entry_parse E val))"

text \<open>
  The loop variable of \<^verbatim>\<open>entries\<close> wraps around when \<^verbatim>\<open>last_index_\<close> is the largest 64-bit value, so
  the loop need not end: not returning is \<open>None\<close>.
\<close>

partial_function (option) entries_loop ::
    "'db leveldb \<Rightarrow> codec \<Rightarrow> 'db \<Rightarrow> u64 \<Rightarrow> u64 \<Rightarrow> u64 \<Rightarrow> u64 \<Rightarrow> entry list \<Rightarrow> (bool \<times> entry list) option" where
  "entries_loop L E db lst limit start count acc =
     (if start \<le> lst then
        (case db_Get L db (uint64_to_net E start) of
           None \<Rightarrow> Some (False, acc)
         | Some val \<Rightarrow>
             (if limit \<noteq> 0 \<and> count + 1 > limit then Some (True, acc @ [entry_parse E val])
              else entries_loop L E db lst limit (start + 1)
                     (if limit \<noteq> 0 then count + 1 else count) (acc @ [entry_parse E val])))
      else Some (True, acc))"

definition LevelDBLog_entries ::
    "'db leveldb \<Rightarrow> codec \<Rightarrow> 'db leveldb_log \<Rightarrow> u64 \<Rightarrow> u64 \<Rightarrow> (bool \<times> entry list) res" where
  "LevelDBLog_entries L E lg start limit =
     (let s = (if start < lg_start lg then lg_start lg else start) in
      if s > lg_last lg then Inr (True, [])
      else of_option Diverge (entries_loop L E (lg_db lg) (lg_last lg) limit s 0 []))"

definition LevelDBLog_last_term_and_index :: "'db leveldb \<Rightarrow> codec \<Rightarrow> 'db leveldb_log \<Rightarrow> u64 \<times> u64" where
  "LevelDBLog_last_term_and_index L E lg =
     (if lg_last lg < lg_start lg then (0, lg_last lg)
      else case LevelDBLog_entry L E lg (lg_last lg) of
             Some item \<Rightarrow> (e_term item, lg_last lg)
           | None \<Rightarrow> (0, lg_last lg))"

function prefix_batch :: "codec \<Rightarrow> u64 \<Rightarrow> u64 \<Rightarrow> batch_op list \<times> u64" where
  "prefix_batch E s k =
     (if s < k then (let (b, s') = prefix_batch E (s + 1) k in (Del (uint64_to_net E s) # b, s'))
      else ([], s))"
  by pat_completeness auto
termination
proof (relation "measure (\<lambda>(E, s, k). unat k - unat s)")
  fix E :: codec and s k :: u64
  assume lt: "s < k"
  then have "s \<noteq> - 1" using word_order.extremum_strict by blast
  then have "unat (s + 1) = Suc (unat s)" by (rule unat_inc)
  with lt show "((E, s + 1, k), (E, s, k)) \<in> measure (\<lambda>(E, s, k). unat k - unat s)"
    by (simp add: idx_order)
qed simp

declare prefix_batch.simps [simp del]

definition LevelDBLog_truncate_prefix ::
    "'db leveldb \<Rightarrow> codec \<Rightarrow> 'db leveldb_log \<Rightarrow> u64 \<Rightarrow> 'db leveldb_log" where
  "LevelDBLog_truncate_prefix L E lg k =
     (if k \<le> lg_start lg then lg
      else let (batch, s) = prefix_batch E (lg_start lg) k;
               (ok, db) = db_Write L (lg_db lg) batch;
               lst = (if lg_last lg < s - 1 then s - 1 else lg_last lg)
           in lg\<lparr>lg_start := s, lg_last := lst, lg_db := db\<rparr>)"

function suffix_batch :: "codec \<Rightarrow> u64 \<Rightarrow> u64 \<Rightarrow> batch_op list \<times> u64" where
  "suffix_batch E l k =
     (if k < l then (let (b, l') = suffix_batch E (l - 1) k in (Del (uint64_to_net E l) # b, l'))
      else ([], l))"
  by pat_completeness auto
termination
proof (relation "measure (\<lambda>(E, l, k). unat l - unat k)")
  fix E :: codec and l k :: u64
  assume lt: "k < l"
  then have "l \<noteq> 0" by (metis word_not_simps(1))
  then have "unat (l - 1) = unat l - 1" by (rule unat_dec)
  with lt show "((E, l - 1, k), (E, l, k)) \<in> measure (\<lambda>(E, l, k). unat l - unat k)"
    by (simp add: idx_order)
qed simp

declare suffix_batch.simps [simp del]

definition LevelDBLog_truncate_suffix ::
    "'db leveldb \<Rightarrow> codec \<Rightarrow> 'db leveldb_log \<Rightarrow> u64 \<Rightarrow> 'db leveldb_log" where
  "LevelDBLog_truncate_suffix L E lg k =
     (if k \<ge> lg_last lg then lg
      else let (batch, l) = suffix_batch E (lg_last lg) k;
               (ok, db) = db_Write L (lg_db lg) batch;
               lst = (if l < lg_start lg - 1 then lg_start lg - 1 else l)
           in lg\<lparr>lg_last := lst, lg_db := db\<rparr>)"

subsection \<open>Meta data\<close>

definition LevelDBLog_meta_data :: "'db leveldb \<Rightarrow> codec \<Rightarrow> 'db leveldb_log \<Rightarrow> log_meta" where
  "LevelDBLog_meta_data L E lg =
     (let get = (\<lambda>k. map_option (uint64_from_net E) (db_Get L (lg_db lg) k))
      in \<lparr>m_current_term = get META_CURRENT_TERM, m_voted_for = get META_VOTED_FOR,
          m_commit_index = get META_COMMIT_INDEX, m_apply_index = get META_APPLY_INDEX\<rparr>)"

definition LevelDBLog_set_meta_data ::
    "'db leveldb \<Rightarrow> codec \<Rightarrow> 'db leveldb_log \<Rightarrow> log_meta \<Rightarrow> int \<times> 'db leveldb_log" where
  "LevelDBLog_set_meta_data L E lg meta =
     (let batch = [Put META_CURRENT_TERM (uint64_to_net E (opt_u64 (m_current_term meta))),
                   Put META_VOTED_FOR (uint64_to_net E (opt_u64 (m_voted_for meta)))] @
                  (case m_commit_index meta of None \<Rightarrow> []
                   | Some c \<Rightarrow> [Put META_COMMIT_INDEX (uint64_to_net E c)]) @
                  (case m_apply_index meta of None \<Rightarrow> []
                   | Some c \<Rightarrow> [Put META_APPLY_INDEX (uint64_to_net E c)]);
          (ok, db) = db_Write L (lg_db lg) batch
      in (if ok then 0 else -1, lg\<lparr>lg_db := db\<rparr>))"

definition LevelDBLog_meta_commit_index :: "'db leveldb \<Rightarrow> codec \<Rightarrow> 'db leveldb_log \<Rightarrow> u64" where
  "LevelDBLog_meta_commit_index L E lg =
     (case db_Get L (lg_db lg) META_COMMIT_INDEX of Some val \<Rightarrow> uint64_from_net E val | None \<Rightarrow> 0)"

definition LevelDBLog_meta_apply_index :: "'db leveldb \<Rightarrow> codec \<Rightarrow> 'db leveldb_log \<Rightarrow> u64" where
  "LevelDBLog_meta_apply_index L E lg =
     (case db_Get L (lg_db lg) META_APPLY_INDEX of Some val \<Rightarrow> uint64_from_net E val | None \<Rightarrow> 0)"

definition LevelDBLog_set_meta_commit_index ::
    "'db leveldb \<Rightarrow> codec \<Rightarrow> 'db leveldb_log \<Rightarrow> u64 \<Rightarrow> int \<times> 'db leveldb_log" where
  "LevelDBLog_set_meta_commit_index L E lg c =
     (let (ok, db) = db_Put L (lg_db lg) META_COMMIT_INDEX (uint64_to_net E c)
      in (if ok then 0 else -1, lg\<lparr>lg_db := db\<rparr>))"

definition LevelDBLog_set_meta_apply_index ::
    "'db leveldb \<Rightarrow> codec \<Rightarrow> 'db leveldb_log \<Rightarrow> u64 \<Rightarrow> int \<times> 'db leveldb_log" where
  "LevelDBLog_set_meta_apply_index L E lg c =
     (let (ok, db) = db_Put L (lg_db lg) META_APPLY_INDEX (uint64_to_net E c)
      in (if ok then 0 else -1, lg\<lparr>lg_db := db\<rparr>))"

text \<open>The virtual function table of the class.\<close>

definition LevelDBLog :: "'db leveldb \<Rightarrow> codec \<Rightarrow> 'db leveldb_log LogIf" where
  "LevelDBLog L E =
     \<lparr>append = LevelDBLog_append L E, entry = LevelDBLog_entry L E, entries = LevelDBLog_entries L E,
      last_term_and_index = LevelDBLog_last_term_and_index L E,
      start_index = lg_start, last_index = lg_last,
      truncate_prefix = LevelDBLog_truncate_prefix L E, truncate_suffix = LevelDBLog_truncate_suffix L E,
      meta_data = LevelDBLog_meta_data L E, set_meta_data = LevelDBLog_set_meta_data L E,
      meta_commit_index = LevelDBLog_meta_commit_index L E, meta_apply_index = LevelDBLog_meta_apply_index L E,
      set_meta_commit_index = LevelDBLog_set_meta_commit_index L E,
      set_meta_apply_index = LevelDBLog_set_meta_apply_index L E\<rparr>"

lemma LevelDBLog_sel [simp]:
  "append (LevelDBLog L E) = LevelDBLog_append L E"
  "entry (LevelDBLog L E) = LevelDBLog_entry L E"
  "entries (LevelDBLog L E) = LevelDBLog_entries L E"
  "last_term_and_index (LevelDBLog L E) = LevelDBLog_last_term_and_index L E"
  "start_index (LevelDBLog L E) = lg_start"
  "last_index (LevelDBLog L E) = lg_last"
  "truncate_prefix (LevelDBLog L E) = LevelDBLog_truncate_prefix L E"
  "truncate_suffix (LevelDBLog L E) = LevelDBLog_truncate_suffix L E"
  "meta_data (LevelDBLog L E) = LevelDBLog_meta_data L E"
  "set_meta_data (LevelDBLog L E) = LevelDBLog_set_meta_data L E"
  "meta_commit_index (LevelDBLog L E) = LevelDBLog_meta_commit_index L E"
  "meta_apply_index (LevelDBLog L E) = LevelDBLog_meta_apply_index L E"
  "set_meta_commit_index (LevelDBLog L E) = LevelDBLog_set_meta_commit_index L E"
  "set_meta_apply_index (LevelDBLog L E) = LevelDBLog_set_meta_apply_index L E"
  by (simp_all add: LevelDBLog_def)

subsection \<open>Representation invariant and abstraction\<close>

text \<open>
  \<open>log_wf\<close> holds whatever the status of the writes was: the bounds are in order and every index
  between them has a stored entry. \<open>log_inv\<close> adds what holds when no write fails: no other
  index has one.
\<close>

definition log_wf :: "'db leveldb \<Rightarrow> codec \<Rightarrow> 'db leveldb_log \<Rightarrow> bool" where
  "log_wf L E lg \<longleftrightarrow>
     leveldb_ok L \<and> codec_ok E \<and> 1 \<le> unat (lg_start lg) \<and> unat (lg_start lg) \<le> Suc (unat (lg_last lg)) \<and>
     unat (lg_last lg) < 2 ^ 64 - 1 \<and>
     (\<forall>i. lg_start lg \<le> i \<longrightarrow> i \<le> lg_last lg \<longrightarrow> db_Get L (lg_db lg) (uint64_to_net E i) \<noteq> None)"

definition log_inv :: "'db leveldb \<Rightarrow> codec \<Rightarrow> 'db leveldb_log \<Rightarrow> bool" where
  "log_inv L E lg \<longleftrightarrow>
     log_wf L E lg \<and> leveldb_reliable L \<and>
     (\<forall>i. i < lg_start lg \<or> lg_last lg < i \<longrightarrow> db_Get L (lg_db lg) (uint64_to_net E i) = None)"

definition log_ents :: "'db leveldb \<Rightarrow> codec \<Rightarrow> 'db leveldb_log \<Rightarrow> entry list" where
  "log_ents L E lg =
     map (\<lambda>n. entry_parse E (the (db_Get L (lg_db lg) (uint64_to_net E (of_nat n)))))
       [unat (lg_start lg) ..< Suc (unat (lg_last lg))]"

lemma log_wfD:
  assumes "log_wf L E lg"
  shows "leveldb_ok L" "codec_ok E" "1 \<le> unat (lg_start lg)"
    "unat (lg_start lg) \<le> Suc (unat (lg_last lg))" "unat (lg_last lg) < 2 ^ 64 - 1"
    "lg_start lg \<le> i \<Longrightarrow> i \<le> lg_last lg \<Longrightarrow> db_Get L (lg_db lg) (uint64_to_net E i) \<noteq> None"
  using assms by (auto simp: log_wf_def)

lemma log_invD:
  assumes "log_inv L E lg"
  shows "log_wf L E lg" "leveldb_reliable L"
    "i < lg_start lg \<or> lg_last lg < i \<Longrightarrow> db_Get L (lg_db lg) (uint64_to_net E i) = None"
  using assms by (auto simp: log_inv_def)

lemma length_log_ents: "length (log_ents L E lg) = Suc (unat (lg_last lg)) - unat (lg_start lg)"
  by (simp add: log_ents_def del: upt_Suc)

lemma log_ents_nth:
  assumes "lg_start lg \<le> i" "i \<le> lg_last lg"
  shows "log_ents L E lg ! (unat i - unat (lg_start lg)) =
    entry_parse E (the (db_Get L (lg_db lg) (uint64_to_net E i)))"
proof -
  have "unat i - unat (lg_start lg) < Suc (unat (lg_last lg)) - unat (lg_start lg)"
    using assms by (auto simp: idx_order)
  then show ?thesis using assms by (simp add: log_ents_def idx_order del: upt_Suc)
qed

text \<open>Two logs hold the same entries when their databases agree on the covered indices.\<close>

lemma log_ents_eqI:
  assumes "length es = Suc (unat (lg_last lg)) - unat (lg_start lg)" "unat (lg_last lg) < 2 ^ 64 - 1"
    and "\<And>i. lg_start lg \<le> i \<Longrightarrow> i \<le> lg_last lg \<Longrightarrow>
      entry_parse E (the (db_Get L (lg_db lg) (uint64_to_net E i))) = es ! (unat i - unat (lg_start lg))"
  shows "log_ents L E lg = es"
proof (rule nth_equalityI)
  show "length (log_ents L E lg) = length es" using assms(1) by (simp add: length_log_ents)
next
  fix n assume n: "n < length (log_ents L E lg)"
  let ?i = "of_nat (unat (lg_start lg) + n) :: u64"
  have u: "unat ?i = unat (lg_start lg) + n"
    using n assms(2) by (intro unat_of_nat_u64) (simp add: length_log_ents)
  then have "lg_start lg \<le> ?i" "?i \<le> lg_last lg"
    using n by (simp_all add: idx_order length_log_ents)
  with assms(3) [of ?i] log_ents_nth [of lg ?i L E] u show "log_ents L E lg ! n = es ! n" by simp
qed

subsection \<open>Reading\<close>

lemma LevelDBLog_entry_eq:
  assumes "log_wf L E lg" "lg_start lg \<le> i" "i \<le> lg_last lg"
  shows "LevelDBLog_entry L E lg i = Some (log_ents L E lg ! (unat i - unat (lg_start lg)))"
  using log_wfD(6) [OF assms] assms by (auto simp: LevelDBLog_entry_def log_ents_nth)

lemma LevelDBLog_last_term_eq:
  assumes "log_wf L E lg"
  shows "LevelDBLog_last_term_and_index L E lg =
    (if log_ents L E lg = [] then 0 else e_term (last (log_ents L E lg)), lg_last lg)"
proof (cases "lg_last lg < lg_start lg")
  case True
  then have "log_ents L E lg = []" using length_log_ents [of L E lg] by (simp add: idx_order)
  with True show ?thesis by (simp add: LevelDBLog_last_term_and_index_def)
next
  case False
  then have ne: "log_ents L E lg \<noteq> []" using length_log_ents [of L E lg] by (auto simp: idx_order)
  have "last (log_ents L E lg) = log_ents L E lg ! (unat (lg_last lg) - unat (lg_start lg))"
    using False ne by (simp add: last_conv_nth length_log_ents idx_order Suc_diff_le)
  moreover have "LevelDBLog_entry L E lg (lg_last lg) =
      Some (log_ents L E lg ! (unat (lg_last lg) - unat (lg_start lg)))"
    using False by (intro LevelDBLog_entry_eq [OF assms]) auto
  ultimately show ?thesis using False ne by (simp add: LevelDBLog_last_term_and_index_def)
qed

text \<open>The loop of \<^verbatim>\<open>entries\<close> reads on to the last index, or until the count passes the limit.\<close>

lemma entries_loop_eq:
  assumes "log_wf L E lg" "lg_start lg \<le> s" "unat s \<le> Suc (unat (lg_last lg))" "lim = 0 \<or> count \<le> lim"
    and "unat count + (Suc (unat (lg_last lg)) - unat s) < 2 ^ 64 - 1"
  shows "entries_loop L E (lg_db lg) (lg_last lg) lim s count acc =
    Some (True, acc @ (let rest = drop (unat s - unat (lg_start lg)) (log_ents L E lg) in
      if lim = 0 then rest else take (Suc (unat lim - unat count)) rest))"
  using assms(2-)
proof (induction "Suc (unat (lg_last lg)) - unat s" arbitrary: s count acc)
  case 0
  then have "\<not> s \<le> lg_last lg" by (simp add: idx_order)
  moreover have "drop (unat s - unat (lg_start lg)) (log_ents L E lg) = []"
    using "0.hyps" by (simp add: length_log_ents)
  ultimately show ?case by (subst entries_loop.simps) simp
next
  case (Suc n)
  have le: "s \<le> lg_last lg" using Suc.hyps(2) by (simp add: idx_order)
  then obtain val where val: "db_Get L (lg_db lg) (uint64_to_net E s) = Some val"
    using log_wfD(6) [OF assms(1)] Suc.prems by blast
  have us: "unat (s + 1) = Suc (unat s)"
    using le log_wfD(5) [OF assms(1)] by (intro unat_inc) (auto simp: idx_order less_max_u64)
  let ?d = "unat s - unat (lg_start lg)" and ?es = "log_ents L E lg"
  have d: "unat (s + 1) - unat (lg_start lg) = Suc ?d"
    using Suc.prems(1) us by (simp add: idx_order Suc_diff_le)
  have "?d < length ?es" using le Suc.prems(1) by (auto simp: length_log_ents idx_order)
  then have drop: "drop ?d ?es = entry_parse E val # drop (Suc ?d) ?es"
    using log_ents_nth [OF Suc.prems(1) le, of L E] val by (metis Cons_nth_drop_Suc option.sel)
  have uc: "unat (count + 1) = Suc (unat count)"
    using Suc.prems(4) Suc.hyps(2) by (intro unat_inc) (simp add: less_max_u64)
  show ?case
  proof (cases "lim \<noteq> 0 \<and> count + 1 > lim")
    case True
    then have "unat lim - unat count = 0" using uc by (simp add: idx_order)
    then show ?thesis
      using True le val drop by (subst entries_loop.simps) simp
  next
    case False
    let ?c = "if lim \<noteq> 0 then count + 1 else count"
    have "entries_loop L E (lg_db lg) (lg_last lg) lim (s + 1) ?c (acc @ [entry_parse E val]) =
      Some (True, (acc @ [entry_parse E val]) @ (let rest = drop (unat (s + 1) - unat (lg_start lg)) ?es in
        if lim = 0 then rest else take (Suc (unat lim - unat ?c)) rest))"
    proof (rule Suc.hyps(1))
      show "n = Suc (unat (lg_last lg)) - unat (s + 1)" using Suc.hyps(2) us by simp
      show "lg_start lg \<le> s + 1" using Suc.prems(1) us by (simp add: idx_order)
      show "unat (s + 1) \<le> Suc (unat (lg_last lg))" using le us by (simp add: idx_order)
      show "lim = 0 \<or> ?c \<le> lim" using False by auto
      show "unat ?c + (Suc (unat (lg_last lg)) - unat (s + 1)) < 2 ^ 64 - 1"
        using Suc.prems(4) us uc Suc.hyps(2) by auto
    qed
    moreover have "lim \<noteq> 0 \<Longrightarrow> unat lim - unat count = Suc (unat lim - unat (count + 1))"
      using False uc by (simp add: idx_order)
    ultimately show ?thesis
      using False le val drop d by (subst entries_loop.simps) (auto simp: Let_def)
  qed
qed

lemma LevelDBLog_entries_eq:
  assumes "log_wf L E lg"
  shows "LevelDBLog_entries L E lg s lim = Inr (True,
    (let rest = drop (unat s - unat (lg_start lg)) (log_ents L E lg) in
     if lim = 0 then rest else take (Suc (unat lim)) rest))"
proof -
  let ?s = "if s < lg_start lg then lg_start lg else s"
  have d: "unat ?s - unat (lg_start lg) = unat s - unat (lg_start lg)" by (simp add: idx_order)
  show ?thesis
  proof (cases "?s > lg_last lg")
    case True
    then have "drop (unat s - unat (lg_start lg)) (log_ents L E lg) = []"
      using d by (auto simp: length_log_ents idx_order split: if_splits)
    with True show ?thesis by (simp add: LevelDBLog_entries_def Let_def)
  next
    case False
    have "entries_loop L E (lg_db lg) (lg_last lg) lim ?s 0 [] =
        Some (True, [] @ (let rest = drop (unat ?s - unat (lg_start lg)) (log_ents L E lg) in
          if lim = 0 then rest else take (Suc (unat lim - unat (0 :: u64))) rest))"
    proof (rule entries_loop_eq [OF assms])
      show "unat (0 :: u64) + (Suc (unat (lg_last lg)) - unat ?s) < 2 ^ 64 - 1"
        using log_wfD(3,5) [OF assms] by (auto simp: idx_order)
    qed (use False in \<open>auto simp: idx_order\<close>)
    with False d show ?thesis by (simp add: LevelDBLog_entries_def Let_def)
  qed
qed


subsection \<open>Writing\<close>

text \<open>The keys of log entries and of meta data never coincide: they differ in length.\<close>

lemma to_net_neq_meta [simp]:
  assumes "codec_ok E"
  shows "uint64_to_net E i \<noteq> META_CURRENT_TERM" "uint64_to_net E i \<noteq> META_VOTED_FOR"
    "uint64_to_net E i \<noteq> META_COMMIT_INDEX" "uint64_to_net E i \<noteq> META_APPLY_INDEX"
    "META_CURRENT_TERM \<noteq> uint64_to_net E i" "META_VOTED_FOR \<noteq> uint64_to_net E i"
    "META_COMMIT_INDEX \<noteq> uint64_to_net E i" "META_APPLY_INDEX \<noteq> uint64_to_net E i"
proof -
  have "length META_CURRENT_TERM \<noteq> 8" "length META_VOTED_FOR \<noteq> 8"
    "length META_COMMIT_INDEX \<noteq> 8" "length META_APPLY_INDEX \<noteq> 8"
    by (simp_all add: META_defs)
  with codec_okD(2) [OF assms, of i]
  show "uint64_to_net E i \<noteq> META_CURRENT_TERM" "uint64_to_net E i \<noteq> META_VOTED_FOR"
    "uint64_to_net E i \<noteq> META_COMMIT_INDEX" "uint64_to_net E i \<noteq> META_APPLY_INDEX"
    "META_CURRENT_TERM \<noteq> uint64_to_net E i" "META_VOTED_FOR \<noteq> uint64_to_net E i"
    "META_COMMIT_INDEX \<noteq> uint64_to_net E i" "META_APPLY_INDEX \<noteq> uint64_to_net E i"
    by metis+
qed

lemma META_distinct [simp]:
  "META_CURRENT_TERM \<noteq> META_VOTED_FOR" "META_CURRENT_TERM \<noteq> META_COMMIT_INDEX"
  "META_CURRENT_TERM \<noteq> META_APPLY_INDEX" "META_VOTED_FOR \<noteq> META_CURRENT_TERM"
  "META_VOTED_FOR \<noteq> META_COMMIT_INDEX" "META_VOTED_FOR \<noteq> META_APPLY_INDEX"
  "META_COMMIT_INDEX \<noteq> META_CURRENT_TERM" "META_COMMIT_INDEX \<noteq> META_VOTED_FOR"
  "META_COMMIT_INDEX \<noteq> META_APPLY_INDEX" "META_APPLY_INDEX \<noteq> META_CURRENT_TERM"
  "META_APPLY_INDEX \<noteq> META_VOTED_FOR" "META_APPLY_INDEX \<noteq> META_COMMIT_INDEX"
  by (simp_all add: META_defs)

lemma append_batch_last: "snd (append_batch E lst es) = lst + of_nat (length es)"
  by (induction es arbitrary: lst) (auto simp: split_beta Let_def)

lemma append_batch_get:
  assumes "codec_ok E" "unat lst + length es < 2 ^ 64"
  shows "batch_apply (fst (append_batch E lst es)) m (uint64_to_net E i) =
    (if lst < i \<and> unat i \<le> unat lst + length es
     then Some (entry_ser E (es ! (unat i - Suc (unat lst)))) else m (uint64_to_net E i))"
  using assms(2)
proof (induction es arbitrary: lst m)
  case Nil
  then show ?case by (auto simp: idx_order)
next
  case (Cons e es)
  have u: "unat (lst + 1) = Suc (unat lst)"
    using Cons.prems by (intro unat_inc) (simp add: less_max_u64)
  have i: "i = lst + 1 \<longleftrightarrow> unat i = Suc (unat lst)" by (metis u word_unat_eq_iff)
  have "unat (lst + 1) + length es < 2 ^ 64" using Cons.prems u by simp
  from Cons.IH [OF this, of "m(uint64_to_net E (lst + 1) \<mapsto> entry_ser E e)"] show ?case
    using u i by (auto simp: split_beta Let_def idx_order to_net_inj [OF assms(1)] nth_Cons' fun_upd_def)
qed

lemma append_batch_other:
  "(\<And>i. k \<noteq> uint64_to_net E i) \<Longrightarrow> batch_apply (fst (append_batch E lst es)) m k = m k"
  by (induction es arbitrary: lst m) (auto simp: split_beta Let_def)

lemma prefix_batch_eq:
  "prefix_batch E s k = (map (\<lambda>n. Del (uint64_to_net E (of_nat n))) [unat s ..< unat k], if s < k then k else s)"
proof (induction E s k rule: prefix_batch.induct)
  case (1 E s k)
  show ?case
  proof (cases "s < k")
    case True
    then have "s \<noteq> - 1" using word_order.extremum_strict by blast
    then have u: "unat (s + 1) = Suc (unat s)" by (rule unat_inc)
    then have "s + 1 \<le> k" using True by (simp add: idx_order)
    with True "1.IH" [OF True] u show ?thesis
      by (subst prefix_batch.simps) (auto simp: upt_conv_Cons idx_order word_unat_eq_iff)
  next
    case False
    then show ?thesis by (subst prefix_batch.simps) (simp add: idx_order)
  qed
qed

lemma suffix_batch_eq:
  "suffix_batch E l k = (map (\<lambda>n. Del (uint64_to_net E (of_nat n))) (rev [Suc (unat k) ..< Suc (unat l)]), if k < l then k else l)"
proof (induction E l k rule: suffix_batch.induct)
  case (1 E l k)
  show ?case
  proof (cases "k < l")
    case True
    then have "l \<noteq> 0" by auto
    then have u: "Suc (unat (l - 1)) = unat l" by (metis unat_dec One_nat_def Suc_pred unat_gt_0)
    then have "k \<le> l - 1" using True by (simp add: idx_order)
    with True "1.IH" [OF True] u show ?thesis
      by (subst suffix_batch.simps) (auto simp: idx_order word_unat_eq_iff)
  next
    case False
    then show ?thesis by (subst suffix_batch.simps) (simp add: idx_order)
  qed
qed

lemma batch_del_get:
  "batch_apply (map (\<lambda>n. Del (uint64_to_net E (of_nat n))) ns) m k =
     (if k \<in> (\<lambda>n. uint64_to_net E (of_nat n)) ` set ns then None else m k)"
  using batch_apply_map_Del [of "map (\<lambda>n. uint64_to_net E (of_nat n)) ns" m] by (simp add: comp_def)

lemma to_net_in_range:
  assumes "codec_ok E" "b \<le> 2 ^ 64"
  shows "uint64_to_net E i \<in> (\<lambda>n. uint64_to_net E (of_nat n)) ` {a ..< b} \<longleftrightarrow> a \<le> unat i \<and> unat i < b"
proof
  assume "uint64_to_net E i \<in> (\<lambda>n. uint64_to_net E (of_nat n)) ` {a ..< b}"
  then obtain n where n: "a \<le> n" "n < b" "i = of_nat n"
    using to_net_inj [OF assms(1)] by auto
  with assms(2) show "a \<le> unat i \<and> unat i < b" by (simp add: unat_of_nat_u64)
next
  assume "a \<le> unat i \<and> unat i < b"
  then show "uint64_to_net E i \<in> (\<lambda>n. uint64_to_net E (of_nat n)) ` {a ..< b}"
    by (intro image_eqI [of _ _ "unat i"]) auto
qed


text \<open>
  What an append does to the represented log: the entries follow the old ones when the write
  succeeds, and the log is as before when it fails, because \<^verbatim>\<open>last_index_\<close> is moved back.
\<close>

lemma append_unfold:
  "snd (LevelDBLog_append L E lg es) =
     (let w = db_Write L (lg_db lg) (fst (append_batch E (lg_last lg) es)) in
      lg\<lparr>lg_last := (if fst w then lg_last lg + of_nat (length es) else lg_last lg), lg_db := snd w\<rparr>)"
  by (simp add: LevelDBLog_append_def split_beta Let_def append_batch_last)

lemma append_wf:
  assumes "log_wf L E lg" "unat (lg_last lg) + length es < 2 ^ 64 - 1"
  defines "ok \<equiv> fst (db_Write L (lg_db lg) (fst (append_batch E (lg_last lg) es)))"
    and "lg' \<equiv> snd (LevelDBLog_append L E lg es)"
  shows "log_wf L E lg'" "lg_start lg' = lg_start lg"
    "unat (lg_last lg') = unat (lg_last lg) + (if ok then length es else 0)"
    "log_ents L E lg' = (if ok then log_ents L E lg @ es else log_ents L E lg)"
proof -
  note D = log_wfD [OF assms(1)]
  let ?l = "unat (lg_last lg)" and ?s = "unat (lg_start lg)"
  show st: "lg_start lg' = lg_start lg" by (simp add: lg'_def append_unfold Let_def)
  show lst: "unat (lg_last lg') = ?l + (if ok then length es else 0)"
    using assms(2) by (simp add: lg'_def ok_def append_unfold Let_def unat_add_of_nat)
  have get: "db_Get L (lg_db lg') (uint64_to_net E i) =
      (if ok \<and> lg_last lg < i \<and> unat i \<le> ?l + length es
       then Some (entry_ser E (es ! (unat i - Suc ?l))) else db_Get L (lg_db lg) (uint64_to_net E i))" for i
    using assms(2) append_batch_get [OF D(2), of "lg_last lg" es _ i]
    by (simp add: lg'_def ok_def append_unfold Let_def leveldb_okD [OF D(1)])
  show "log_wf L E lg'"
    using D assms(2) st lst get by (auto simp: log_wf_def idx_order)
  show "log_ents L E lg' = (if ok then log_ents L E lg @ es else log_ents L E lg)"
  proof (rule log_ents_eqI)
    fix i assume i: "lg_start lg' \<le> i" "i \<le> lg_last lg'"
    show "entry_parse E (the (db_Get L (lg_db lg') (uint64_to_net E i))) =
        (if ok then log_ents L E lg @ es else log_ents L E lg) ! (unat i - unat (lg_start lg'))"
    proof (cases "i \<le> lg_last lg")
      case True
      then show ?thesis
        using i st get [of i] log_ents_nth [of lg i L E] D(4)
        by (auto simp: idx_order nth_append length_log_ents)
    next
      case False
      then have "unat i - ?s - (Suc ?l - ?s) = unat i - Suc ?l" "\<not> unat i - ?s < Suc ?l - ?s"
        using D(4) by (auto simp: idx_order)
      then show ?thesis
        using i st lst False get [of i] codec_okD(4) [OF D(2)]
        by (auto simp: idx_order nth_append length_log_ents split: if_splits)
    qed
  qed (use st lst assms(2) D(4,5) in \<open>auto simp: length_log_ents\<close>)
qed

lemma append_inv:
  assumes "log_inv L E lg" "unat (lg_last lg) + length es < 2 ^ 64 - 1"
  shows "log_inv L E (snd (LevelDBLog_append L E lg es))"
proof -
  note wf = append_wf [OF log_invD(1) [OF assms(1)] assms(2)] and D = log_wfD [OF log_invD(1) [OF assms(1)]]
  have "db_Get L (lg_db (snd (LevelDBLog_append L E lg es))) (uint64_to_net E i) = None"
    if "i < lg_start lg \<or> unat (lg_last lg) + length es < unat i" for i
    using that assms log_invD [OF assms(1)] append_batch_get [OF D(2), of "lg_last lg" es _ i] D(4)
    by (auto simp: append_unfold Let_def leveldb_okD [OF D(1)] idx_order)
  then show ?thesis
    using wf log_invD(2) [OF assms(1)] by (auto simp: log_inv_def idx_order)
qed


text \<open>Truncation keeps the entries that stay covered, whether or not the deletion succeeds.\<close>

lemma prefix_wf:
  fixes k :: u64
  assumes "log_wf L E lg"
  defines "lg' \<equiv> LevelDBLog_truncate_prefix L E lg k"
  shows "log_wf L E lg'" "lg_start lg' = max k (lg_start lg)"
    "unat (lg_last lg') = max (unat (lg_last lg)) (unat k - 1)"
    "log_ents L E lg' = drop (unat k - unat (lg_start lg)) (log_ents L E lg)"
    "\<And>i. db_Get L (lg_db lg') (uint64_to_net E i) \<noteq> db_Get L (lg_db lg) (uint64_to_net E i) \<Longrightarrow>
       lg_start lg \<le> i \<and> i < k"
    "\<And>i. leveldb_reliable L \<Longrightarrow> lg_start lg \<le> i \<Longrightarrow> i < k \<Longrightarrow> db_Get L (lg_db lg') (uint64_to_net E i) = None"
proof -
  note D = log_wfD [OF assms(1)]
  let ?l = "unat (lg_last lg)" and ?s = "unat (lg_start lg)"
  have eq: "lg' = (if k \<le> lg_start lg then lg else
      lg\<lparr>lg_start := k, lg_last := (if lg_last lg < k - 1 then k - 1 else lg_last lg),
         lg_db := snd (db_Write L (lg_db lg) (fst (prefix_batch E (lg_start lg) k)))\<rparr>)"
    by (simp add: lg'_def LevelDBLog_truncate_prefix_def split_beta Let_def prefix_batch_eq)
  have uk: "unat (k - 1) = unat k - 1" if "\<not> k \<le> lg_start lg"
    using that by (intro unat_dec) auto
  show st: "lg_start lg' = max k (lg_start lg)" by (simp add: eq)
  show lst: "unat (lg_last lg') = max ?l (unat k - 1)"
    using uk D(4) by (auto simp: eq idx_order)
  have get: "db_Get L (lg_db lg') (uint64_to_net E i) =
      (if \<not> k \<le> lg_start lg \<and> fst (db_Write L (lg_db lg) (fst (prefix_batch E (lg_start lg) k))) \<and>
          lg_start lg \<le> i \<and> i < k then None else db_Get L (lg_db lg) (uint64_to_net E i))" for i
    using to_net_in_range [OF D(2), of "unat k" i "?s"] unat_lt_u64 [of k]
    by (simp add: eq leveldb_okD [OF D(1)] prefix_batch_eq batch_del_get idx_order)
  show "lg_start lg \<le> i \<and> i < k"
    if "db_Get L (lg_db lg') (uint64_to_net E i) \<noteq> db_Get L (lg_db lg) (uint64_to_net E i)" for i
    using that get [of i] by (auto split: if_splits)
  show "db_Get L (lg_db lg') (uint64_to_net E i) = None"
    if "leveldb_reliable L" "lg_start lg \<le> i" "i < k" for i
    using that get [of i] by auto
  have "unat k < 2 ^ 64" by (rule unat_lt_u64)
  then show "log_wf L E lg'"
    using D st lst get by (auto simp: log_wf_def idx_order max_def split: if_splits)
  show "log_ents L E lg' = drop (unat k - ?s) (log_ents L E lg)"
  proof (rule log_ents_eqI)
    fix i assume i: "lg_start lg' \<le> i" "i \<le> lg_last lg'"
    then have i': "lg_start lg \<le> i" "i \<le> lg_last lg" "k \<le> i"
      using st lst D(3,4) by (auto simp: idx_order max_def split: if_splits)
    moreover have "unat k - ?s + (unat i - unat (lg_start lg')) = unat i - ?s"
      using i' st by (auto simp: idx_order max_def split: if_splits)
    moreover have "unat k - ?s \<le> length (log_ents L E lg)"
      using i' by (auto simp: length_log_ents idx_order)
    ultimately show "entry_parse E (the (db_Get L (lg_db lg') (uint64_to_net E i))) =
        drop (unat k - ?s) (log_ents L E lg) ! (unat i - unat (lg_start lg'))"
      using get [of i] log_ents_nth [OF i'(1,2), of L E] by (simp add: idx_order)
  qed (use st lst D(3,4,5) \<open>unat k < 2 ^ 64\<close> in \<open>auto simp: length_log_ents idx_order max_def split: if_splits\<close>)
qed

lemma suffix_wf:
  fixes k :: u64
  assumes "log_wf L E lg"
  defines "lg' \<equiv> LevelDBLog_truncate_suffix L E lg k"
  shows "log_wf L E lg'" "lg_start lg' = lg_start lg"
    "unat (lg_last lg') = max (unat (lg_start lg) - 1) (min (unat (lg_last lg)) (unat k))"
    "log_ents L E lg' = take (Suc (unat k) - unat (lg_start lg)) (log_ents L E lg)"
    "\<And>i. db_Get L (lg_db lg') (uint64_to_net E i) \<noteq> db_Get L (lg_db lg) (uint64_to_net E i) \<Longrightarrow>
       k < i \<and> i \<le> lg_last lg"
    "\<And>i. leveldb_reliable L \<Longrightarrow> k < i \<Longrightarrow> i \<le> lg_last lg \<Longrightarrow> db_Get L (lg_db lg') (uint64_to_net E i) = None"
proof -
  note D = log_wfD [OF assms(1)]
  let ?l = "unat (lg_last lg)" and ?s = "unat (lg_start lg)"
  have eq: "lg' = (if k \<ge> lg_last lg then lg else
      lg\<lparr>lg_last := (if k < lg_start lg - 1 then lg_start lg - 1 else k),
         lg_db := snd (db_Write L (lg_db lg) (fst (suffix_batch E (lg_last lg) k)))\<rparr>)"
    by (simp add: lg'_def LevelDBLog_truncate_suffix_def split_beta Let_def suffix_batch_eq)
  have us: "unat (lg_start lg - 1) = ?s - 1"
    using D(3) by (intro unat_dec) auto
  show st: "lg_start lg' = lg_start lg" by (simp add: eq)
  show lst: "unat (lg_last lg') = max (?s - 1) (min ?l (unat k))"
    using us D(4) by (auto simp: eq idx_order)
  have get: "db_Get L (lg_db lg') (uint64_to_net E i) =
      (if \<not> k \<ge> lg_last lg \<and> fst (db_Write L (lg_db lg) (fst (suffix_batch E (lg_last lg) k))) \<and>
          k < i \<and> i \<le> lg_last lg then None else db_Get L (lg_db lg) (uint64_to_net E i))" for i
    using to_net_in_range [OF D(2), of "Suc ?l" i "Suc (unat k)"] D(5)
    by (simp add: eq leveldb_okD [OF D(1)] suffix_batch_eq batch_del_get idx_order less_Suc_eq_le Suc_le_eq
        del: upt_Suc)
  show "k < i \<and> i \<le> lg_last lg"
    if "db_Get L (lg_db lg') (uint64_to_net E i) \<noteq> db_Get L (lg_db lg) (uint64_to_net E i)" for i
    using that get [of i] by (auto split: if_splits)
  show "db_Get L (lg_db lg') (uint64_to_net E i) = None"
    if "leveldb_reliable L" "k < i" "i \<le> lg_last lg" for i
    using that get [of i] by (auto simp: idx_order)
  show "log_wf L E lg'"
    using D st lst get by (auto simp: log_wf_def idx_order max_def min_def split: if_splits)
  show "log_ents L E lg' = take (Suc (unat k) - ?s) (log_ents L E lg)"
  proof (rule log_ents_eqI)
    fix i assume i: "lg_start lg' \<le> i" "i \<le> lg_last lg'"
    then have i': "lg_start lg \<le> i" "i \<le> lg_last lg" "i \<le> k"
      using st lst D(3,4) by (auto simp: idx_order max_def min_def split: if_splits)
    moreover have "unat i - ?s < Suc (unat k) - ?s" using i' by (auto simp: idx_order)
    ultimately show "entry_parse E (the (db_Get L (lg_db lg') (uint64_to_net E i))) =
        take (Suc (unat k) - ?s) (log_ents L E lg) ! (unat i - unat (lg_start lg'))"
      using get [of i] log_ents_nth [OF i'(1,2), of L E] st by (simp add: idx_order)
  qed (use st lst D(3,4,5) in \<open>auto simp: length_log_ents idx_order max_def min_def split: if_splits\<close>)
qed

lemma prefix_inv:
  assumes "log_inv L E lg"
  shows "log_inv L E (LevelDBLog_truncate_prefix L E lg k)"
proof -
  let ?lg = "LevelDBLog_truncate_prefix L E lg k"
  note wf = prefix_wf [where k = k, OF log_invD(1) [OF assms]] and I = log_invD [OF assms]
  have "db_Get L (lg_db ?lg) (uint64_to_net E i) = None" if "i < lg_start ?lg \<or> lg_last ?lg < i" for i
  proof (cases "lg_start lg \<le> i \<and> i < k")
    case True
    then show ?thesis using wf(6) I(2) by blast
  next
    case False
    then have "db_Get L (lg_db ?lg) (uint64_to_net E i) = db_Get L (lg_db lg) (uint64_to_net E i)"
      using wf(5) by blast
    moreover have "i < lg_start lg \<or> lg_last lg < i"
      using that False wf(2,3) by (auto simp: idx_order max_def split: if_splits)
    ultimately show ?thesis using I(3) by simp
  qed
  with wf(1) I(2) show ?thesis by (simp add: log_inv_def)
qed

lemma suffix_inv:
  assumes "log_inv L E lg"
  shows "log_inv L E (LevelDBLog_truncate_suffix L E lg k)"
proof -
  let ?lg = "LevelDBLog_truncate_suffix L E lg k"
  note wf = suffix_wf [where k = k, OF log_invD(1) [OF assms]] and I = log_invD [OF assms]
  have "db_Get L (lg_db ?lg) (uint64_to_net E i) = None" if "i < lg_start ?lg \<or> lg_last ?lg < i" for i
  proof (cases "k < i \<and> i \<le> lg_last lg")
    case True
    then show ?thesis using wf(6) I(2) by blast
  next
    case False
    then have "db_Get L (lg_db ?lg) (uint64_to_net E i) = db_Get L (lg_db lg) (uint64_to_net E i)"
      using wf(5) by blast
    moreover have "i < lg_start lg \<or> lg_last lg < i"
      using that False wf(2,3) by (auto simp: idx_order max_def min_def split: if_splits)
    ultimately show ?thesis using I(3) by simp
  qed
  with wf(1) I(2) show ?thesis by (simp add: log_inv_def)
qed


subsection \<open>Meta data and the LogIf contract\<close>

text \<open>A write outside the index keys leaves the log as it is.\<close>

lemma log_frame:
  assumes "log_inv L E lg" "lg_start lg' = lg_start lg" "lg_last lg' = lg_last lg"
    and "\<And>i. db_Get L (lg_db lg') (uint64_to_net E i) = db_Get L (lg_db lg) (uint64_to_net E i)"
  shows "log_inv L E lg'" "log_ents L E lg' = log_ents L E lg"
  using assms by (simp_all add: log_inv_def log_wf_def log_ents_def)

text \<open>A write of index keys leaves the meta data as it is.\<close>

lemma meta_frame:
  assumes "\<And>k. (\<And>i. k \<noteq> uint64_to_net E i) \<Longrightarrow> db_Get L (lg_db lg') k = db_Get L (lg_db lg) k" "codec_ok E"
  shows "LevelDBLog_meta_data L E lg' = LevelDBLog_meta_data L E lg"
  using assms by (simp add: LevelDBLog_meta_data_def Let_def)

lemma append_meta:
  assumes "log_wf L E lg"
  shows "LevelDBLog_meta_data L E (snd (LevelDBLog_append L E lg es)) = LevelDBLog_meta_data L E lg"
  using log_wfD [OF assms]
  by (intro meta_frame) (simp_all add: append_unfold Let_def leveldb_okD append_batch_other)

lemma batch_del_other:
  "(\<And>i. k \<noteq> uint64_to_net E i) \<Longrightarrow>
     batch_apply (map (\<lambda>n. Del (uint64_to_net E (of_nat n))) ns) m k = m k"
  by (auto simp: batch_del_get)

lemma prefix_meta:
  assumes "log_wf L E lg"
  shows "LevelDBLog_meta_data L E (LevelDBLog_truncate_prefix L E lg k) = LevelDBLog_meta_data L E lg"
  using log_wfD [OF assms]
  by (intro meta_frame)
    (simp_all add: LevelDBLog_truncate_prefix_def split_beta Let_def leveldb_okD prefix_batch_eq batch_del_other)

lemma suffix_meta:
  assumes "log_wf L E lg"
  shows "LevelDBLog_meta_data L E (LevelDBLog_truncate_suffix L E lg k) = LevelDBLog_meta_data L E lg"
  using log_wfD [OF assms]
  by (intro meta_frame)
    (simp_all add: LevelDBLog_truncate_suffix_def split_beta Let_def leveldb_okD suffix_batch_eq batch_del_other
      del: upt_Suc)

lemma set_meta_frame:
  assumes "log_inv L E lg"
  shows "log_inv L E (snd (LevelDBLog_set_meta_data L E lg m))"
    "log_ents L E (snd (LevelDBLog_set_meta_data L E lg m)) = log_ents L E lg"
    "log_inv L E (snd (LevelDBLog_set_meta_commit_index L E lg c))"
    "log_ents L E (snd (LevelDBLog_set_meta_commit_index L E lg c)) = log_ents L E lg"
    "log_inv L E (snd (LevelDBLog_set_meta_apply_index L E lg c))"
    "log_ents L E (snd (LevelDBLog_set_meta_apply_index L E lg c)) = log_ents L E lg"
  using log_wfD(1,2) [OF log_invD(1) [OF assms]] assms
  by (auto intro!: log_frame [OF assms] simp: LevelDBLog_set_meta_data_def LevelDBLog_set_meta_commit_index_def
      LevelDBLog_set_meta_apply_index_def split_beta Let_def leveldb_okD split: option.splits)

lemma set_meta_value:
  assumes "log_inv L E lg"
  shows "LevelDBLog_meta_data L E (snd (LevelDBLog_set_meta_data L E lg m)) =
      \<lparr>m_current_term = Some (opt_u64 (m_current_term m)), m_voted_for = Some (opt_u64 (m_voted_for m)),
       m_commit_index = (case m_commit_index m of None \<Rightarrow> m_commit_index (LevelDBLog_meta_data L E lg) | c \<Rightarrow> c),
       m_apply_index = (case m_apply_index m of None \<Rightarrow> m_apply_index (LevelDBLog_meta_data L E lg) | c \<Rightarrow> c)\<rparr>"
    "LevelDBLog_meta_data L E (snd (LevelDBLog_set_meta_commit_index L E lg c)) =
      (LevelDBLog_meta_data L E lg)\<lparr>m_commit_index := Some c\<rparr>"
    "LevelDBLog_meta_data L E (snd (LevelDBLog_set_meta_apply_index L E lg c)) =
      (LevelDBLog_meta_data L E lg)\<lparr>m_apply_index := Some c\<rparr>"
  using log_wfD(1,2) [OF log_invD(1) [OF assms]] log_invD(2) [OF assms]
  by (simp_all add: LevelDBLog_meta_data_def LevelDBLog_set_meta_data_def LevelDBLog_set_meta_commit_index_def
      LevelDBLog_set_meta_apply_index_def split_beta Let_def leveldb_okD codec_okD split: option.splits)

interpretation ldb: log_if "LevelDBLog L E" "log_ents L E" "log_inv L E" for L E
proof (unfold_locales, goal_cases)
  case (1 l)
  then show ?case using log_wfD(3) [OF log_invD(1) [OF 1]] by simp
next
  case (2 l)
  then show ?case using log_wfD(4) [OF log_invD(1) [OF 2]] by (simp add: length_log_ents)
next
  case (3 l)
  then show ?case using log_wfD(5) [OF log_invD(1) [OF 3]] by simp
next
  case (4 l i)
  then show ?case by (simp add: LevelDBLog_entry_eq log_invD)
next
  case (5 l i)
  then show ?case by (simp add: LevelDBLog_entry_def log_invD(3))
next
  case (6 l)
  then show ?case by (simp add: LevelDBLog_last_term_eq log_invD)
next
  case (7 l es)
  note wf = append_wf [OF log_invD(1) [OF 7(1)]]
  have "LevelDBLog_append L E l es = (fst (LevelDBLog_append L E l es), snd (LevelDBLog_append L E l es))"
    by simp
  moreover have "fst (LevelDBLog_append L E l es) = (lg_start l, lg_last (snd (LevelDBLog_append L E l es)))"
    by (simp add: LevelDBLog_append_def split_beta Let_def)
  ultimately show ?case using 7 wf append_inv [OF 7(1)] log_invD(1,2) [OF 7(1)] by (simp add: append_meta)
next
  case (8 l k)
  then show ?case
    using suffix_wf(2,4) [where k = k, OF log_invD(1) [OF 8]] by (simp add: suffix_inv suffix_meta log_invD(1))
next
  case (9 l k)
  then show ?case
    using prefix_wf(2,4) [where k = k, OF log_invD(1) [OF 9]] by (simp add: prefix_inv prefix_meta log_invD(1))
next
  case (10 l m)
  then show ?case
    by (simp add: set_meta_frame set_meta_value) (simp add: LevelDBLog_set_meta_data_def split_beta Let_def split: option.splits)
next
  case (11 l c)
  then show ?case
    by (simp add: set_meta_frame set_meta_value) (simp add: LevelDBLog_set_meta_commit_index_def split_beta Let_def)
next
  case (12 l c)
  then show ?case
    by (simp add: set_meta_frame set_meta_value) (simp add: LevelDBLog_set_meta_apply_index_def split_beta Let_def)
next
  case (13 l)
  then show ?case
    by (simp add: LevelDBLog_meta_commit_index_def LevelDBLog_meta_data_def Let_def split: option.splits)
next
  case (14 l)
  then show ?case
    by (simp add: LevelDBLog_meta_apply_index_def LevelDBLog_meta_data_def Let_def split: option.splits)
next
  case (15 l s lim)
  then show ?case by (simp add: LevelDBLog_entries_eq log_invD)
qed

end
