(* ===== verification/Raft_Context.thy ===== *)
theory Raft_Context
  imports Level_Log
begin

text \<open>
  The parts a consensus node is made of: the timers of \<^verbatim>\<open>Clock.h\<close>, the configuration of
  \<^verbatim>\<open>Option.h\<close>, the per-peer bookkeeping of \<^verbatim>\<open>Peer.h\<close> and the role, term and vote of
  \<^verbatim>\<open>Context.{h,cpp}\<close>. Members named \<^verbatim>\<open>x_\<close> in C++ are fields without the underscore. Time points and durations
  are integers in milliseconds, and the current time is an argument of the operations that
  read the clock.
\<close>

subsection \<open>SimpleTimer\<close>

record timer =
  enable :: bool
  immediate :: bool
  start_tp :: int

definition SimpleTimer :: "int \<Rightarrow> timer" where
  "SimpleTimer now = \<lparr>enable = False, immediate = False, start_tp = now\<rparr>"

definition timeout :: "int \<Rightarrow> int \<Rightarrow> timer \<Rightarrow> bool \<times> timer" where
  "timeout now count_ms t =
     (if enable t \<and> immediate t then (True, t\<lparr>immediate := False\<rparr>)
      else if enable t then (start_tp t + count_ms < now, t)
      else (False, t))"

definition within :: "int \<Rightarrow> int \<Rightarrow> timer \<Rightarrow> bool \<times> timer" where
  "within now count_ms t =
     (if enable t \<and> immediate t then (True, t\<lparr>immediate := False\<rparr>)
      else if enable t then (start_tp t + count_ms > now, t)
      else (False, t))"

definition schedule :: "int \<Rightarrow> timer \<Rightarrow> timer" where
  "schedule now t = t\<lparr>enable := True, start_tp := now\<rparr>"

definition disable :: "timer \<Rightarrow> timer" where
  "disable t = t\<lparr>enable := False\<rparr>"

definition set_urgent :: "timer \<Rightarrow> timer" where
  "set_urgent t = t\<lparr>immediate := True\<rparr>"

lemma timer_simps [simp]:
  "enable (schedule now t)" "\<not> enable (disable t)" "enable (set_urgent t) = enable t"
  "\<not> enable t \<Longrightarrow> timeout now c t = (False, t)"
  "enable (snd (timeout now c t)) = enable t"
  by (simp_all add: schedule_def disable_def set_urgent_def timeout_def)

subsection \<open>Option\<close>

record raft_option =
  o_bootstrap :: bool
  o_id :: u64
  o_log_path :: string
  o_members_str :: string
  o_members :: "(u64 \<times> string \<times> u16) list"
  o_heartbeat_ms :: int
  o_election_timeout_ms :: int
  o_withhold_votes_ms :: int
  o_raft_distr_timeout_ms :: int
  o_log_trans_count :: u64

definition Option_init :: raft_option where
  "Option_init =
     \<lparr>o_bootstrap = False, o_id = 0, o_log_path = [], o_members_str = [], o_members = [], o_heartbeat_ms = 0,
      o_election_timeout_ms = 0, o_withhold_votes_ms = 0, o_raft_distr_timeout_ms = 0, o_log_trans_count = 0\<rparr>"

definition validate :: "raft_option \<Rightarrow> bool" where
  "validate o' =
     (if o_members_str o' = [] \<or> length (o_members o') < 2 then False
      else if o_id o' = 0 then False
      else if o_log_path o' = [] then False
      else if o_heartbeat_ms o' = 0 \<or> o_election_timeout_ms o' = 0 \<or> o_withhold_votes_ms o' = 0 \<or>
              o_heartbeat_ms o' \<ge> o_election_timeout_ms o' \<or> o_heartbeat_ms o' \<le> 100 \<or>
              o_withhold_votes_ms o' \<le> 100 then False
      else if o_raft_distr_timeout_ms o' = 0 then False
      else True)"

text \<open>
  The loop of \<^verbatim>\<open>RaftConsensus::init\<close> over \<^verbatim>\<open>Raft.cluster_peers\<close>: a peer with an empty field and a peer
  whose id is already present are skipped. \<^verbatim>\<open>std::map\<close> keeps the members by increasing id. Ports are
  stored as 16-bit values. \<open>to_string\<close> is \<^verbatim>\<open>roo::StrUtil::to_string\<close>.
\<close>

fun members_insert :: "u64 \<Rightarrow> 'a \<Rightarrow> (u64 \<times> 'a) list \<Rightarrow> (u64 \<times> 'a) list" where
  "members_insert k v [] = [(k, v)]"
| "members_insert k v ((k', v') # ms) =
     (if k < k' then (k, v) # (k', v') # ms
      else if k = k' then (k, v) # ms
      else (k', v') # members_insert k v ms)"

fun load_members ::
    "(int \<Rightarrow> string) \<Rightarrow> (int \<times> string \<times> int) list \<Rightarrow> raft_option \<Rightarrow> raft_option" where
  "load_members to_string [] opt = opt"
| "load_members to_string ((i, addr, port) # ps) opt =
     (if i = 0 \<or> addr = [] \<or> port = 0 then load_members to_string ps opt
      else if map_of (o_members opt) (word_of_int i) \<noteq> None then load_members to_string ps opt
      else load_members to_string ps
             (opt\<lparr>o_members := members_insert (word_of_int i) (addr, word_of_int port) (o_members opt),
                 o_members_str := o_members_str opt @ to_string i @ ''>'' @ addr @ '':'' @ to_string port @ '',''\<rparr>))"

text \<open>
  The settings \<^verbatim>\<open>init\<close> looks up. A value that is not in the file leaves the option as it was; the three
  times are read into local variables that have no initial value, so the fields are whatever those variables hold
  after the lookup. The lookup of the group of the peers throws when there is none, and nothing catches it.
\<close>

record raft_setting =
  cf_bootstrap :: "bool option"
  cf_server_id :: "u64 option"
  cf_storage_prefix :: "string option"
  cf_log_trans_count :: "u64 option"
  cf_heartbeat_ms :: int
  cf_election_timeout_ms :: int
  cf_raft_distr_timeout_ms :: int
  cf_cluster_peers :: "(int \<times> string \<times> int) list option"

definition load_option :: "(int \<Rightarrow> string) \<Rightarrow> raft_setting \<Rightarrow> raft_option res" where
  "load_option to_string cf =
     (let o1 = Option_init\<lparr>
            o_bootstrap := (case cf_bootstrap cf of None \<Rightarrow> False | Some b \<Rightarrow> b),
            o_id := opt_u64 (cf_server_id cf),
            o_log_path := (case cf_storage_prefix cf of None \<Rightarrow> [] | Some p \<Rightarrow> p),
            o_log_trans_count := opt_u64 (cf_log_trans_count cf),
            o_heartbeat_ms := cf_heartbeat_ms cf,
            o_election_timeout_ms := cf_election_timeout_ms cf,
            o_raft_distr_timeout_ms := cf_raft_distr_timeout_ms cf\<rparr>;
          o2 = (if o_raft_distr_timeout_ms o1 = 0
                then o1\<lparr>o_raft_distr_timeout_ms := o_election_timeout_ms o1\<rparr> else o1)
      in res_bind (of_option Uncaught (cf_cluster_peers cf)) (\<lambda>peers. Inr (load_members to_string peers o2)))"

lemma map_of_members_insert: "map_of (members_insert k v ms) = (map_of ms)(k \<mapsto> v)"
  by (induction ms) (auto simp: fun_eq_iff)

lemma members_insert_sorted:
  "sorted_wrt (<) (map fst ms) \<Longrightarrow> sorted_wrt (<) (map fst (members_insert k v ms))"
proof (induction ms)
  case (Cons m ms)
  obtain k' v' where m: "m = (k', v')" by (cases m)
  have "fst ` set (members_insert k v ms) = insert k (fst ` set ms)"
    by (metis dom_fun_upd dom_map_of_conv_image_fst map_of_members_insert option.distinct(1))
  with Cons show ?case by (auto simp: m)
qed simp

lemma load_members_sorted:
  "sorted_wrt (<) (map fst (o_members opt)) \<Longrightarrow>
     sorted_wrt (<) (map fst (o_members (load_members f ps opt)))"
  by (induction f ps opt rule: load_members.induct) (auto simp: members_insert_sorted)

lemma load_option_sorted: "load_option f cf = Inr opt \<Longrightarrow> sorted_wrt (<) (map fst (o_members opt))"
  by (auto simp: load_option_def Let_def Option_init_def res_bind_Inr_iff intro!: load_members_sorted)

subsection \<open>Peer\<close>

record peer =
  p_id :: u64
  p_addr :: string
  p_port :: u16
  next_index :: u64
  match_index :: u64
  latest_epoch :: u64

definition Peer :: "u64 \<Rightarrow> string \<Rightarrow> u16 \<Rightarrow> peer" where
  "Peer i addr port =
     \<lparr>p_id = i, p_addr = addr, p_port = port, next_index = 0, match_index = 0, latest_epoch = 0\<rparr>"

text \<open>
  \<^verbatim>\<open>std::map<uint64_t, shared_ptr<Peer>>\<close> is an association list; the peers it points to are changed
  in place.
\<close>

type_synonym peers = "(u64 \<times> peer) list"

definition peer_update :: "u64 \<Rightarrow> (peer \<Rightarrow> peer) \<Rightarrow> peers \<Rightarrow> peers" where
  "peer_update i f ps = map (\<lambda>(k, p). (k, if k = i then f p else p)) ps"

lemma peer_update_ids [simp]: "map fst (peer_update i f ps) = map fst ps"
  by (simp add: peer_update_def split_beta comp_def)

lemma peer_update_length [simp]: "length (peer_update i f ps) = length ps"
  by (simp add: peer_update_def)

lemma map_of_peer_update: "map_of (peer_update i f ps) k = (if k = i then map_option f (map_of ps k) else map_of ps k)"
  by (induction ps) (auto simp: peer_update_def)

subsection \<open>Context\<close>

datatype role = kFollower | kCandidate | kLeader

record ctx =
  c_id :: u64
  leader_id :: u64
  c_term :: u64
  voted_for :: u64
  quorum_granted :: "u64 set"
  role :: role
  commit_index :: u64
  last_included_index :: u64
  last_included_term :: u64
  epoch :: u64

definition Context :: "u64 \<Rightarrow> ctx" where
  "Context i =
     \<lparr>c_id = i, leader_id = 0, c_term = 0, voted_for = 0, quorum_granted = {}, role = kFollower,
      commit_index = 0, last_included_index = 0, last_included_term = 0, epoch = 0\<rparr>"

text \<open>The context refers to the log, whose meta data it writes; both are passed and returned.\<close>

definition update_meta :: "'l LogIf \<Rightarrow> ctx \<Rightarrow> 'l \<Rightarrow> 'l" where
  "update_meta V c l =
     snd (set_meta_data V l (meta_empty\<lparr>m_current_term := Some (c_term c), m_voted_for := Some (voted_for c)\<rparr>))"

definition become_follower :: "'l LogIf \<Rightarrow> u64 \<Rightarrow> ctx \<Rightarrow> 'l \<Rightarrow> ctx \<times> 'l" where
  "become_follower V t c l =
     (let (c', l') =
        (if c_term c < t
         then let c' = c\<lparr>c_term := t, leader_id := 0, voted_for := 0\<rparr> in (c', update_meta V c' l)
         else (c, l))
      in (c'\<lparr>role := kFollower\<rparr>, l'))"

definition become_candidate :: "'l LogIf \<Rightarrow> ctx \<Rightarrow> 'l \<Rightarrow> ctx \<times> 'l" where
  "become_candidate V c l =
     (let c' = c\<lparr>c_term := c_term c + 1, leader_id := 0, voted_for := c_id c, quorum_granted := {c_id c}\<rparr>;
          l' = update_meta V c' l
      in (c'\<lparr>role := kCandidate\<rparr>, l'))"

definition become_leader :: "ctx \<Rightarrow> ctx" where
  "become_leader c = c\<lparr>leader_id := c_id c, role := kLeader\<rparr>"

definition quorum_count :: "ctx \<Rightarrow> nat" where
  "quorum_count c = card (quorum_granted c)"

definition inc_epoch :: "ctx \<Rightarrow> u64 \<times> ctx" where
  "inc_epoch c = (epoch c + 1, c\<lparr>epoch := epoch c + 1\<rparr>)"

text \<open>
  How a role change moves the persistent vote: \<open>vote_saved\<close> says that the stored term is the term
  in memory and that a vote held in memory is stored.
\<close>

definition vote_saved :: "'l LogIf \<Rightarrow> ctx \<Rightarrow> 'l \<Rightarrow> bool" where
  "vote_saved V c l \<longleftrightarrow>
     m_current_term (meta_data V l) = Some (c_term c) \<and>
     (voted_for c \<noteq> 0 \<longrightarrow> m_voted_for (meta_data V l) = Some (voted_for c))"

lemma become_follower_fields:
  "role (fst (become_follower V t c l)) = kFollower"
  "c_id (fst (become_follower V t c l)) = c_id c"
  "c_term (fst (become_follower V t c l)) = max (c_term c) t"
  "voted_for (fst (become_follower V t c l)) = (if c_term c < t then 0 else voted_for c)"
  "leader_id (fst (become_follower V t c l)) = (if c_term c < t then 0 else leader_id c)"
  "quorum_granted (fst (become_follower V t c l)) = quorum_granted c"
  "commit_index (fst (become_follower V t c l)) = commit_index c"
  "last_included_index (fst (become_follower V t c l)) = last_included_index c"
  "last_included_term (fst (become_follower V t c l)) = last_included_term c"
  "epoch (fst (become_follower V t c l)) = epoch c"
  by (auto simp: become_follower_def Let_def max_def)

lemma become_candidate_fields:
  "role (fst (become_candidate V c l)) = kCandidate"
  "c_id (fst (become_candidate V c l)) = c_id c"
  "c_term (fst (become_candidate V c l)) = c_term c + 1"
  "voted_for (fst (become_candidate V c l)) = c_id c"
  "leader_id (fst (become_candidate V c l)) = 0"
  "quorum_granted (fst (become_candidate V c l)) = {c_id c}"
  "commit_index (fst (become_candidate V c l)) = commit_index c"
  by (simp_all add: become_candidate_def Let_def)

lemma become_leader_fields [simp]:
  "role (become_leader c) = kLeader" "c_id (become_leader c) = c_id c" "leader_id (become_leader c) = c_id c"
  "c_term (become_leader c) = c_term c" "voted_for (become_leader c) = voted_for c"
  "quorum_granted (become_leader c) = quorum_granted c" "commit_index (become_leader c) = commit_index c"
  "last_included_index (become_leader c) = last_included_index c"
  "last_included_term (become_leader c) = last_included_term c"
  "epoch (become_leader c) = epoch c"
  by (simp_all add: become_leader_def)

lemmas ctx_simps = become_follower_fields become_candidate_fields become_leader_fields

context log_if
begin

lemma update_metaD [simp]:
  assumes "inv l"
  shows "inv (update_meta V c l)" "ents (update_meta V c l) = ents l"
    "start_index V (update_meta V c l) = start_index V l" "last_index V (update_meta V c l) = last_index V l"
    "meta_data V (update_meta V c l) =
      (meta_data V l)\<lparr>m_current_term := Some (c_term c), m_voted_for := Some (voted_for c)\<rparr>"
  using assms by (simp_all add: update_meta_def meta_empty_def)

lemma update_meta_saved [simp]: "inv l \<Longrightarrow> vote_saved V c (update_meta V c l)"
  by (simp add: vote_saved_def)

lemma become_follower_saved:
  assumes "inv l" "vote_saved V c l"
  shows "vote_saved V (fst (become_follower V t c l)) (snd (become_follower V t c l))"
    "inv (snd (become_follower V t c l))" "ents (snd (become_follower V t c l)) = ents l"
    "start_index V (snd (become_follower V t c l)) = start_index V l"
    "last_index V (snd (become_follower V t c l)) = last_index V l"
  using assms by (simp_all add: become_follower_def Let_def vote_saved_def)

lemma become_candidate_saved:
  assumes "inv l"
  shows "vote_saved V (fst (become_candidate V c l)) (snd (become_candidate V c l))"
    "inv (snd (become_candidate V c l))" "ents (snd (become_candidate V c l)) = ents l"
    "start_index V (snd (become_candidate V c l)) = start_index V l"
    "last_index V (snd (become_candidate V c l)) = last_index V l"
  using assms by (simp_all add: become_candidate_def Let_def vote_saved_def)

end

end
