(* ===== verification/KV_Store.thy ===== *)
theory KV_Store
  imports Deps
begin

text \<open>
  The key/value store of the state machine: the abstract class \<^verbatim>\<open>StoreIf\<close> (\<^verbatim>\<open>StoreIf.h\<close>) as a
  table of functions with its contract as a locale, and \<^verbatim>\<open>LevelDBStore\<close>
  (\<^verbatim>\<open>LevelDBStore.{h,cpp}\<close>), which keeps the pairs in a LevelDB database and the snapshot in a
  file.
\<close>

subsection \<open>The interface\<close>

record 's StoreIf =
  select_handle :: "'s \<Rightarrow> select_request \<Rightarrow> int \<times> select_response"
  update_handle :: "'s \<Rightarrow> update_request \<Rightarrow> int \<times> 's"
  create_snapshot :: "'s \<Rightarrow> u64 \<Rightarrow> u64 \<Rightarrow> bool \<times> 's"
  load_snapshot :: "'s \<Rightarrow> (string \<times> u64 \<times> u64) option"
  apply_snapshot :: "'s \<Rightarrow> snapshot \<Rightarrow> bool \<times> 's"

text \<open>What an update request does to the stored map: the return code and the new map.\<close>

definition update_map :: "update_request \<Rightarrow> (string \<rightharpoonup> string) \<Rightarrow> int \<times> (string \<rightharpoonup> string)" where
  "update_map r m =
     (case uq_write r of Some (k, v) \<Rightarrow> (0, m(k \<mapsto> v))
      | None \<Rightarrow> (case uq_remove r of Some k \<Rightarrow> (0, m(k := None)) | None \<Rightarrow> (-1, m)))"

locale store_if =
  fixes S :: "'s StoreIf"
    and kvmap :: "'s \<Rightarrow> (string \<rightharpoonup> string)"
    and inv :: "'s \<Rightarrow> bool"
  assumes update_spec: "inv s \<Longrightarrow> inv (snd (update_handle S s r)) \<and>
            (fst (update_handle S s r), kvmap (snd (update_handle S s r))) = update_map r (kvmap s)"
    and read_spec: "inv s \<Longrightarrow> sq_read q = Some k \<Longrightarrow> select_handle S s q =
            (case kvmap s k of
               Some v \<Rightarrow> (0, select_response_init\<lparr>sr_code := 0, sr_msg := ''OK'', sr_read := Some v\<rparr>)
             | None \<Rightarrow> (-1, select_response_init\<lparr>sr_code := -1, sr_msg := ''FAIL''\<rparr>))"
    and create_spec: "inv s \<Longrightarrow> inv (snd (create_snapshot S s i t)) \<and> kvmap (snd (create_snapshot S s i t)) = kvmap s"
    and apply_snap_spec: "inv s \<Longrightarrow> inv (snd (apply_snapshot S s sn)) \<and>
            fst (apply_snapshot S s sn) \<and>
            map_of (rev (s_data sn)) \<subseteq>\<^sub>m kvmap (snd (apply_snapshot S s sn))"

subsection \<open>LevelDBStore\<close>

record ('db, 'fs) leveldb_store =
  snapshot_path :: string
  kv_fp :: 'db
  kv_fs :: 'fs

text \<open>
  Construction: \<open>opened\<close> is the database \<^verbatim>\<open>DB::Open\<close> gives, \<open>dir_ok\<close> whether the snapshot
  directory is accessible and a directory after \<^verbatim>\<open>mkdir\<close>.
\<close>

definition LevelDBStore_ctor ::
    "'db option \<Rightarrow> string \<Rightarrow> 'fs \<Rightarrow> bool \<Rightarrow> ('db, 'fs) leveldb_store res" where
  "LevelDBStore_ctor opened path fs dir_ok =
     (case opened of None \<Rightarrow> Inl ConstructException
      | Some db \<Rightarrow> if \<not> dir_ok then Inl ConstructException
                  else Inr \<lparr>snapshot_path = path, kv_fp = db, kv_fs = fs\<rparr>)"

definition store_get :: "'db leveldb \<Rightarrow> ('db, 'fs) leveldb_store \<Rightarrow> string \<Rightarrow> int \<times> string" where
  "store_get L st key = (case db_Get L (kv_fp st) key of Some v \<Rightarrow> (0, v) | None \<Rightarrow> (-1, []))"

definition store_set ::
    "'db leveldb \<Rightarrow> ('db, 'fs) leveldb_store \<Rightarrow> string \<Rightarrow> string \<Rightarrow> int \<times> ('db, 'fs) leveldb_store" where
  "store_set L st key val =
     (let (ok, db) = db_Put L (kv_fp st) key val in (if ok then 0 else -1, st\<lparr>kv_fp := db\<rparr>))"

definition store_del ::
    "'db leveldb \<Rightarrow> ('db, 'fs) leveldb_store \<Rightarrow> string \<Rightarrow> int \<times> ('db, 'fs) leveldb_store" where
  "store_del L st key =
     (let (ok, db) = db_Delete L (kv_fp st) key in (if ok then 0 else -1, st\<lparr>kv_fp := db\<rparr>))"

text \<open>
  The loop of \<^verbatim>\<open>range\<close> from the iterator position on. \<^verbatim>\<open>Seek(start)\<close> moves to the first key at or
  after the target.
\<close>

fun range_loop :: "string \<Rightarrow> u64 \<Rightarrow> u64 \<Rightarrow> (string \<times> string) list \<Rightarrow> string list \<Rightarrow> string list" where
  "range_loop end_key limit count [] acc = acc"
| "range_loop end_key limit count ((k, v) # its) acc =
     (if limit \<noteq> 0 \<and> count + 1 > limit then acc
      else if end_key \<noteq> [] \<and> k > end_key then acc
      else range_loop end_key limit (if limit \<noteq> 0 then count + 1 else count) its (acc @ [k]))"

definition store_range ::
    "'db leveldb \<Rightarrow> ('db, 'fs) leveldb_store \<Rightarrow> string \<Rightarrow> string \<Rightarrow> u64 \<Rightarrow> int \<times> string list" where
  "store_range L st start_key end_key limit =
     (let its = (if start_key \<noteq> [] then dropWhile (\<lambda>(k, v). k < start_key) (db_iter L (kv_fp st))
                 else db_iter L (kv_fp st))
      in (0, range_loop end_key limit 0 its []))"

fun search_loop :: "string \<Rightarrow> u64 \<Rightarrow> u64 \<Rightarrow> (string \<times> string) list \<Rightarrow> string list \<Rightarrow> string list" where
  "search_loop search_key limit count [] acc = acc"
| "search_loop search_key limit count ((k, v) # its) acc =
     (let acc' = (if str_contains search_key k then acc @ [k] else acc) in
      if limit \<noteq> 0 \<and> count + 1 > limit then acc'
      else search_loop search_key limit (if limit \<noteq> 0 then count + 1 else count) its acc')"

definition store_search ::
    "'db leveldb \<Rightarrow> ('db, 'fs) leveldb_store \<Rightarrow> string \<Rightarrow> u64 \<Rightarrow> int \<times> string list" where
  "store_search L st search_key limit = (0, search_loop search_key limit 0 (db_iter L (kv_fp st)) [])"

definition LevelDBStore_select_handle ::
    "'db leveldb \<Rightarrow> ('db, 'fs) leveldb_store \<Rightarrow> select_request \<Rightarrow> int \<times> select_response" where
  "LevelDBStore_select_handle L st request =
     (let (result, response) =
        (case sq_read request of
           Some key \<Rightarrow>
             (let (ret, content) = store_get L st key in
              if ret = 0 then (0, select_response_init\<lparr>sr_read := Some content\<rparr>)
              else (-1, select_response_init))
         | None \<Rightarrow>
           (case sq_range request of
              Some (start_key, end_key, limit) \<Rightarrow>
                (let (ret, keys) = store_range L st start_key end_key limit in
                 if ret \<noteq> 0 then (ret, select_response_init)
                 else (ret, select_response_init\<lparr>sr_range := Some keys\<rparr>))
            | None \<Rightarrow>
              (case sq_search request of
                 Some (search_key, limit) \<Rightarrow>
                   (let (ret, keys) = store_search L st search_key limit in
                    if ret \<noteq> 0 then (ret, select_response_init)
                    else (ret, select_response_init\<lparr>sr_search := Some keys\<rparr>))
               | None \<Rightarrow> (-1, select_response_init))))
      in if result = 0 then (result, response\<lparr>sr_code := 0, sr_msg := ''OK''\<rparr>)
         else (result, response\<lparr>sr_code := result, sr_msg := ''FAIL''\<rparr>))"

definition LevelDBStore_update_handle ::
    "'db leveldb \<Rightarrow> ('db, 'fs) leveldb_store \<Rightarrow> update_request \<Rightarrow> int \<times> ('db, 'fs) leveldb_store" where
  "LevelDBStore_update_handle L st request =
     (case uq_write request of
        Some (key, content) \<Rightarrow>
          (let (ret, st') = store_set L st key content in if ret = 0 then (0, st') else (-1, st'))
      | None \<Rightarrow>
        (case uq_remove request of
           Some key \<Rightarrow> (let (ret, st') = store_del L st key in if ret = 0 then (0, st') else (-1, st'))
         | None \<Rightarrow> (-1, st)))"

definition snapshot_temp_file :: string where "snapshot_temp_file = ''state_machine_snapshot.temp''"
definition snapshot_self_file :: string where "snapshot_self_file = ''state_machine_snapshot.self''"

definition LevelDBStore_create_snapshot ::
    "'db leveldb \<Rightarrow> 'fs files \<Rightarrow> proto \<Rightarrow> ('db, 'fs) leveldb_store \<Rightarrow> u64 \<Rightarrow> u64 \<Rightarrow> bool \<times> ('db, 'fs) leveldb_store" where
  "LevelDBStore_create_snapshot L F P st idx trm =
     (let sn = \<lparr>s_last_included_index = idx, s_last_included_term = trm, s_data = db_iter L (kv_fp st)\<rparr> in
      case marshal_snapshot P sn of None \<Rightarrow> (False, st)
      | Some content \<Rightarrow>
          (let full_tmp = snapshot_path st @ snapshot_temp_file;
               (ok, fs) = fs_write F (kv_fs st) full_tmp content
           in if ok then (True, st\<lparr>kv_fs := fs_rename F fs full_tmp (snapshot_path st @ snapshot_self_file)\<rparr>)
              else (False, st\<lparr>kv_fs := fs\<rparr>)))"

definition LevelDBStore_load_snapshot ::
    "'fs files \<Rightarrow> proto \<Rightarrow> ('db, 'fs) leveldb_store \<Rightarrow> (string \<times> u64 \<times> u64) option" where
  "LevelDBStore_load_snapshot F P st =
     (case fs_read F (kv_fs st) (snapshot_path st @ snapshot_self_file) of None \<Rightarrow> None
      | Some content \<Rightarrow>
          (case unmarshal_snapshot P content of None \<Rightarrow> None
           | Some sn \<Rightarrow> Some (content, s_last_included_index sn, s_last_included_term sn)))"

definition LevelDBStore_apply_snapshot ::
    "'db leveldb \<Rightarrow> ('db, 'fs) leveldb_store \<Rightarrow> snapshot \<Rightarrow> bool \<times> ('db, 'fs) leveldb_store" where
  "LevelDBStore_apply_snapshot L st sn =
     (let (ok, db) = db_Write L (db_Destroy L (kv_fp st)) (map (\<lambda>(k, v). Put k v) (s_data sn))
      in (ok, st\<lparr>kv_fp := db\<rparr>))"

definition LevelDBStore ::
    "'db leveldb \<Rightarrow> 'fs files \<Rightarrow> proto \<Rightarrow> ('db, 'fs) leveldb_store StoreIf" where
  "LevelDBStore L F P =
     \<lparr>select_handle = LevelDBStore_select_handle L, update_handle = LevelDBStore_update_handle L,
      create_snapshot = LevelDBStore_create_snapshot L F P, load_snapshot = LevelDBStore_load_snapshot F P,
      apply_snapshot = LevelDBStore_apply_snapshot L\<rparr>"

lemma LevelDBStore_sel [simp]:
  "select_handle (LevelDBStore L F P) = LevelDBStore_select_handle L"
  "update_handle (LevelDBStore L F P) = LevelDBStore_update_handle L"
  "create_snapshot (LevelDBStore L F P) = LevelDBStore_create_snapshot L F P"
  "load_snapshot (LevelDBStore L F P) = LevelDBStore_load_snapshot F P"
  "apply_snapshot (LevelDBStore L F P) = LevelDBStore_apply_snapshot L"
  by (simp_all add: LevelDBStore_def)

subsection \<open>The contract\<close>

definition store_inv :: "'db leveldb \<Rightarrow> ('db, 'fs) leveldb_store \<Rightarrow> bool" where
  "store_inv L st \<longleftrightarrow> leveldb_ok L \<and> leveldb_reliable L"

definition store_map :: "'db leveldb \<Rightarrow> ('db, 'fs) leveldb_store \<Rightarrow> (string \<rightharpoonup> string)" where
  "store_map L st = db_Get L (kv_fp st)"

text \<open>
  \<^verbatim>\<open>DestroyDB\<close> is called on a database that is open, for which LevelDB promises nothing: what it
  leaves stays below the pairs of the snapshot.
\<close>

lemma apply_snapshot_map:
  assumes "leveldb_ok L" "fst (LevelDBStore_apply_snapshot L st sn)"
  shows "store_map L (snd (LevelDBStore_apply_snapshot L st sn)) =
    db_Get L (db_Destroy L (kv_fp st)) ++ map_of (rev (s_data sn))"
  using assms
  by (simp add: LevelDBStore_apply_snapshot_def split_beta Let_def store_map_def leveldb_okD
      batch_apply_map_Put)

interpretation lst: store_if "LevelDBStore L F P" "store_map L" "store_inv L" for L F P
proof (unfold_locales, goal_cases)
  case (1 s r)
  then show ?case
    by (auto simp: LevelDBStore_update_handle_def update_map_def store_set_def store_del_def split_beta Let_def
        store_inv_def store_map_def leveldb_okD split: option.splits)
next
  case (2 s q k)
  then show ?case
    by (auto simp: LevelDBStore_select_handle_def store_get_def store_map_def select_response_init_def
        split: option.splits)
next
  case (3 s i t)
  then show ?case
    by (auto simp: LevelDBStore_create_snapshot_def Let_def split_beta store_inv_def store_map_def
        split: option.splits)
next
  case (4 s sn)
  then have "leveldb_ok L" "leveldb_reliable L" by (simp_all add: store_inv_def)
  moreover from this have ok: "fst (LevelDBStore_apply_snapshot L s sn)"
    by (simp add: LevelDBStore_apply_snapshot_def split_beta Let_def)
  ultimately show ?case
    using apply_snapshot_map [of L s sn] by (simp add: store_inv_def)
qed

end
