(* ===== verification/State_Machine.thy ===== *)
theory State_Machine
  imports Log_If KV_Store
begin

text \<open>
  The replicated state machine (\<^verbatim>\<open>StateMachine.{h,cpp}\<close>): the apply loop that executes committed log
  entries on the store, the cache of results for waiting clients, and the snapshot operations.
  \<open>sm_step\<close> is one pass of the loop body from the label \<^verbatim>\<open>again\<close>; \<open>sm_run\<close> repeats it, as the
  \<^verbatim>\<open>goto again\<close> does, until the thread goes back to waiting. The snapshot operations are modelled
  from the point where the loop has granted them (\<^verbatim>\<open>kProcessing\<close>); the granting protocol itself
  is in \<^theory_text>\<open>Snapshot_Handshake\<close>.
\<close>

datatype progress = kBegin | kProcessing | kDone

record state_machine =
  sm_commit :: u64
  sm_apply :: u64
  sm_progress :: progress
  sm_rsp :: "u64 \<rightharpoonup> string"

definition StateMachine :: state_machine where
  "StateMachine = \<lparr>sm_commit = 0, sm_apply = 0, sm_progress = kDone, sm_rsp = Map.empty\<rparr>"

definition StateMachine_init :: "'l LogIf \<Rightarrow> 'l \<Rightarrow> state_machine \<Rightarrow> bool \<times> state_machine" where
  "StateMachine_init V l sm =
     (let sm' = sm\<lparr>sm_commit := meta_commit_index V l, sm_apply := meta_apply_index V l\<rparr> in
      (\<not> sm_commit sm' < sm_apply sm', sm'))"

definition do_apply :: "'s StoreIf \<Rightarrow> proto \<Rightarrow> entry \<Rightarrow> 's \<Rightarrow> int \<times> string \<times> 's" where
  "do_apply S P e kv =
     (case unmarshal_update_request P (entry_data e) of None \<Rightarrow> (-1, [], kv)
      | Some request \<Rightarrow>
          (let (ret, kv') = update_handle S kv request in
           (ret, if ret = 0 then ''success at statemachine'' else ''failure at statemachine'', kv')))"

datatype ctl = Again | Wait

definition sm_apply_entry ::
    "'s StoreIf \<Rightarrow> proto \<Rightarrow> entry \<Rightarrow> state_machine \<Rightarrow> 's \<Rightarrow> (state_machine \<times> 's) res" where
  "sm_apply_entry S P e sm kv =
     (case e_type e of
        kNoop \<Rightarrow> Inr (sm, kv)
      | kNormal \<Rightarrow>
          (let (ret, content, kv') = do_apply S P e kv in
           Inr (if ret = 0 \<and> content \<noteq> [] then sm\<lparr>sm_rsp := (sm_rsp sm)(sm_apply sm + 1 \<mapsto> content)\<rparr> else sm, kv'))
      | kConfigure \<Rightarrow> Inl Panic)"

definition sm_step ::
    "'l LogIf \<Rightarrow> 's StoreIf \<Rightarrow> proto \<Rightarrow> state_machine \<Rightarrow> 'l \<Rightarrow> 's \<Rightarrow> (ctl \<times> state_machine \<times> 'l \<times> 's) res" where
  "sm_step V S P sm l kv =
     (let sm1 = (if sm_progress sm = kBegin then sm\<lparr>sm_progress := kProcessing\<rparr> else sm) in
      if sm_progress sm1 = kProcessing then Inr (Wait, sm1, l, kv)
      else
        let sm2 = sm1\<lparr>sm_commit := meta_commit_index V l\<rparr> in
        if sm_commit sm2 < sm_apply sm2 then Inl Panic
        else if sm_commit sm2 = sm_apply sm2 then Inr (Wait, sm2, l, kv)
        else
          res_bind (of_option NullDeref (entry V l (sm_apply sm2 + 1))) (\<lambda>e.
          res_bind (sm_apply_entry S P e sm2 kv) (\<lambda>(sm3, kv').
            let sm4 = sm3\<lparr>sm_apply := sm_apply sm3 + 1\<rparr>;
                l' = snd (set_meta_apply_index V l (sm_apply sm4))
            in Inr (if sm_commit sm4 > sm_apply sm4 then Again else Wait, sm4, l', kv'))))"

text \<open>The passes until the thread waits again; \<open>None\<close> when the fuel is used up.\<close>

fun sm_run ::
    "nat \<Rightarrow> 'l LogIf \<Rightarrow> 's StoreIf \<Rightarrow> proto \<Rightarrow> state_machine \<Rightarrow> 'l \<Rightarrow> 's \<Rightarrow> (state_machine \<times> 'l \<times> 's) res option" where
  "sm_run 0 V S P sm l kv = None"
| "sm_run (Suc n) V S P sm l kv =
     (case sm_step V S P sm l kv of
        Inl e \<Rightarrow> Some (Inl e)
      | Inr (Wait, sm', l', kv') \<Rightarrow> Some (Inr (sm', l', kv'))
      | Inr (Again, sm', l', kv') \<Rightarrow> sm_run n V S P sm' l' kv')"

definition fetch_response_msg :: "u64 \<Rightarrow> state_machine \<Rightarrow> string option \<times> state_machine" where
  "fetch_response_msg index sm =
     (case sm_rsp sm index of None \<Rightarrow> (None, sm)
      | Some content \<Rightarrow> (Some content, sm\<lparr>sm_rsp := (sm_rsp sm)(index := None)\<rparr>))"

text \<open>
  \<open>StateMachine_create_snapshot\<close> returns the result, the new values of the two output references,
  which keep their old values \<open>i0\<close>, \<open>t0\<close> when nothing is written to them, and the state.
\<close>

definition StateMachine_create_snapshot ::
    "'l LogIf \<Rightarrow> 's StoreIf \<Rightarrow> state_machine \<Rightarrow> 'l \<Rightarrow> 's \<Rightarrow> u64 \<Rightarrow> u64 \<Rightarrow> bool \<times> u64 \<times> u64 \<times> state_machine \<times> 's" where
  "StateMachine_create_snapshot V S sm l kv i0 t0 =
     (let sm' = sm\<lparr>sm_progress := kDone\<rparr> in
      if sm_apply sm = 0 then (True, i0, t0, sm', kv)
      else case entry V l (sm_apply sm) of
             None \<Rightarrow> (False, i0, t0, sm', kv)
           | Some e \<Rightarrow>
               (let (result, kv') = create_snapshot S kv (sm_apply sm) (e_term e) in
                if result then (True, sm_apply sm, e_term e, sm', kv')
                else (False, i0, t0, sm', kv')))"

definition StateMachine_load_snapshot ::
    "'s StoreIf \<Rightarrow> state_machine \<Rightarrow> 's \<Rightarrow> (string \<times> u64 \<times> u64) option \<times> state_machine" where
  "StateMachine_load_snapshot S sm kv = (load_snapshot S kv, sm\<lparr>sm_progress := kDone\<rparr>)"

definition StateMachine_apply_snapshot ::
    "'s StoreIf \<Rightarrow> state_machine \<Rightarrow> 's \<Rightarrow> snapshot \<Rightarrow> bool \<times> state_machine \<times> 's" where
  "StateMachine_apply_snapshot S sm kv sn =
     (let (result, kv') = apply_snapshot S kv sn in (result, sm\<lparr>sm_progress := kDone\<rparr>, kv'))"

subsection \<open>Replay\<close>

text \<open>The specification of the apply loop: a log replayed on a map, entry by entry.\<close>

definition replay_entry :: "proto \<Rightarrow> entry \<Rightarrow> (string \<rightharpoonup> string) \<Rightarrow> (string \<rightharpoonup> string)" where
  "replay_entry P e m =
     (if e_type e = kNormal then
        (case unmarshal_update_request P (entry_data e) of None \<Rightarrow> m | Some r \<Rightarrow> snd (update_map r m))
      else m)"

definition replay :: "proto \<Rightarrow> entry list \<Rightarrow> (string \<rightharpoonup> string) \<Rightarrow> (string \<rightharpoonup> string)" where
  "replay P es m = fold (replay_entry P) es m"

lemma replay_simps [simp]:
  "replay P [] m = m" "replay P (e # es) m = replay P es (replay_entry P e m)"
  "replay P (es @ fs) m = replay P fs (replay P es m)"
  by (simp_all add: replay_def)

locale node_env =
  log: log_if V ents linv + kvs: store_if S kvmap sinv
  for V :: "'l LogIf" and ents :: "'l \<Rightarrow> entry list" and linv :: "'l \<Rightarrow> bool"
    and S :: "'s StoreIf" and kvmap :: "'s \<Rightarrow> (string \<rightharpoonup> string)" and sinv :: "'s \<Rightarrow> bool" +
  fixes P :: proto
begin

lemma do_apply_kv:
  assumes "sinv kv"
  shows "sinv (snd (snd (do_apply S P e kv)))"
    "e_type e = kNormal \<Longrightarrow> kvmap (snd (snd (do_apply S P e kv))) = replay_entry P e (kvmap kv)"
  using kvs.update_spec [OF assms] assms
  by (auto simp: do_apply_def replay_entry_def split_beta Let_def prod_eq_iff split: option.splits)

lemma sm_apply_entry_ok:
  assumes "sinv kv" "e_type e \<noteq> kConfigure"
  obtains sm' kv' where "sm_apply_entry S P e sm kv = Inr (sm', kv')" "sinv kv'"
    "kvmap kv' = replay_entry P e (kvmap kv)"
    "sm_apply sm' = sm_apply sm" "sm_commit sm' = sm_commit sm" "sm_progress sm' = sm_progress sm"
proof (cases "e_type e")
  case kNormal
  let ?r = "do_apply S P e kv"
  show ?thesis
    using do_apply_kv [OF assms(1), of e] kNormal
    by (intro that [of "if fst ?r = 0 \<and> fst (snd ?r) \<noteq> []
          then sm\<lparr>sm_rsp := (sm_rsp sm)(sm_apply sm + 1 \<mapsto> fst (snd ?r))\<rparr> else sm" "snd (snd ?r)"])
      (auto simp: sm_apply_entry_def split_beta Let_def)
next
  case kNoop
  then show ?thesis
    using assms by (intro that [of sm kv]) (auto simp: sm_apply_entry_def replay_entry_def)
qed (use assms in simp)

text \<open>
  One pass with something to apply executes exactly the next entry and records the new apply
  index.
\<close>

lemma sm_step_applies:
  assumes inv: "linv l" "sinv kv" and "sm_progress sm = kDone"
    and "meta_commit_index V l = c" "sm_apply sm < c" "c \<le> last_index V l"
    and "start_index V l \<le> sm_apply sm + 1"
    and "e = ents l ! (unat (sm_apply sm + 1) - unat (start_index V l))" "e_type e \<noteq> kConfigure"
  obtains sm' l' kv' where
    "sm_step V S P sm l kv = Inr (if sm_apply sm + 1 < c then Again else Wait, sm', l', kv')"
    "linv l'" "sinv kv'" "ents l' = ents l" "start_index V l' = start_index V l" "last_index V l' = last_index V l"
    "kvmap kv' = replay_entry P e (kvmap kv)" "sm_progress sm' = kDone"
    "sm_apply sm' = sm_apply sm + 1" "sm_commit sm' = c"
    "meta_data V l' = (meta_data V l)\<lparr>m_apply_index := Some (sm_apply sm + 1)\<rparr>"
proof -
  have le: "sm_apply sm + 1 \<le> last_index V l"
    using assms(5,6) by (metis inc_le order_trans)
  have ent: "entry V l (sm_apply sm + 1) = Some e"
    using log.entry_ents [OF inv(1) assms(7) le] assms(8) by simp
  let ?sm = "sm\<lparr>sm_commit := c\<rparr>"
  obtain sm' kv' where S': "sm_apply_entry S P e ?sm kv = Inr (sm', kv')" "sinv kv'"
    "kvmap kv' = replay_entry P e (kvmap kv)"
    "sm_apply sm' = sm_apply ?sm" "sm_commit sm' = sm_commit ?sm" "sm_progress sm' = sm_progress ?sm"
    using sm_apply_entry_ok [OF inv(2) assms(9)] by blast
  let ?l = "snd (set_meta_apply_index V l (sm_apply sm + 1))"
  show thesis
    by (rule that [of "sm'\<lparr>sm_apply := sm_apply sm + 1\<rparr>" ?l kv'])
      (use assms S' ent inv in \<open>auto simp: sm_step_def Let_def\<close>)
qed

text \<open>
  The loop started with work to do stops after applying every committed entry, in log order,
  and the stored map is the replay of those entries.
\<close>

lemma sm_run_replay:
  assumes "linv l" "sinv kv" "sm_progress sm = kDone"
    and "meta_commit_index V l = c" "sm_apply sm \<le> c" "c \<le> last_index V l"
    and "start_index V l \<le> sm_apply sm + 1"
    and "\<forall>e \<in> set (ents l). e_type e \<noteq> kConfigure"
    and "unat c - unat (sm_apply sm) < n"
  shows "\<exists>sm' l' kv'. sm_run n V S P sm l kv = Some (Inr (sm', l', kv')) \<and> linv l' \<and> sinv kv' \<and>
    ents l' = ents l \<and> start_index V l' = start_index V l \<and> sm_apply sm' = c \<and>
    (sm_apply sm < c \<longrightarrow> meta_apply_index V l' = c) \<and>
    kvmap kv' = replay P (take (unat c - unat (sm_apply sm))
      (drop (unat (sm_apply sm + 1) - unat (start_index V l)) (ents l))) (kvmap kv)"
  using assms
proof (induction n arbitrary: sm l kv)
  case (Suc n)
  show ?case
  proof (cases "sm_apply sm = c")
    case True
    with Suc.prems show ?thesis by (simp add: sm_step_def Let_def)
  next
    case False
    then have lt: "sm_apply sm < c" using Suc.prems(5) by simp
    then have ua: "unat (sm_apply sm + 1) = Suc (unat (sm_apply sm))"
      by (intro unat_inc) (metis word_order.extremum_strict)
    let ?k = "unat (sm_apply sm + 1) - unat (start_index V l)"
    let ?e = "ents l ! ?k"
    have len: "?k < length (ents l)"
      using log.last_eq [OF Suc.prems(1)] Suc.prems(6,7) lt ua by (simp add: idx_order)
    then have "e_type ?e \<noteq> kConfigure" using Suc.prems(8) by simp
    then obtain sm' l' kv' where st:
      "sm_step V S P sm l kv = Inr (if sm_apply sm + 1 < c then Again else Wait, sm', l', kv')"
      "linv l'" "sinv kv'" "ents l' = ents l" "start_index V l' = start_index V l" "last_index V l' = last_index V l"
      "kvmap kv' = replay_entry P ?e (kvmap kv)" "sm_progress sm' = kDone"
      "sm_apply sm' = sm_apply sm + 1" "sm_commit sm' = c"
      "meta_data V l' = (meta_data V l)\<lparr>m_apply_index := Some (sm_apply sm + 1)\<rparr>"
      using sm_step_applies [OF Suc.prems(1-4) lt Suc.prems(6,7)] by blast
    have d: "drop ?k (ents l) = ?e # drop (Suc ?k) (ents l)"
      using len by (simp add: Cons_nth_drop_Suc)
    show ?thesis
    proof (cases "sm_apply sm + 1 = c")
      case True
      then have "unat c - unat (sm_apply sm) = 1" using ua by simp
      with True st d show ?thesis by (simp add: log.apply_of_meta)
    next
      case False
      then have lt': "sm_apply sm + 1 < c" using lt ua
        by (metis inc_le order_neq_le_trans)
      have u2: "unat (sm_apply sm' + 1) = Suc (unat (sm_apply sm'))"
        using lt' st by (intro unat_inc) (metis word_order.extremum_strict)
      have mc: "meta_commit_index V l' = c"
        using st Suc.prems(1,4) by (simp add: log.commit_of_meta)
      have "unat c - unat (sm_apply sm') < n"
        using Suc.prems(9) st ua lt' by (simp add: idx_order)
      with mc obtain sm2 l2 kv2 where IH: "sm_run n V S P sm' l' kv' = Some (Inr (sm2, l2, kv2))"
        "linv l2" "sinv kv2" "ents l2 = ents l'" "start_index V l2 = start_index V l'" "sm_apply sm2 = c"
        "sm_apply sm' < c \<longrightarrow> meta_apply_index V l2 = c"
        "kvmap kv2 = replay P (take (unat c - unat (sm_apply sm'))
          (drop (unat (sm_apply sm' + 1) - unat (start_index V l')) (ents l'))) (kvmap kv')"
        using Suc.IH [of l' kv' sm'] st lt' Suc.prems(6-9) ua u2 by (auto simp: idx_order)
      have "unat c - unat (sm_apply sm) = Suc (unat c - unat (sm_apply sm'))"
        using st ua lt' by (simp add: idx_order)
      moreover have "unat (sm_apply sm' + 1) - unat (start_index V l) = Suc ?k"
        using u2 st ua Suc.prems(7) by (simp add: idx_order Suc_diff_le)
      ultimately show ?thesis using IH st lt' d by simp
    qed
  qed
qed simp

end

end
