(* ===== verification/Consensus.thy ===== *)
theory Consensus
  imports Raft_Context State_Machine
begin

text \<open>
  \<^verbatim>\<open>RaftConsensus\<close> (\<^verbatim>\<open>RaftConsensus.{h,cpp}\<close>): the state of one node, the handlers of the three
  requests and the three responses, the sending functions, the periodic thread, and the client
  operations. The handlers take the tables of the log (\<open>V\<close>) and of the store (\<open>S\<close>), the message
  codec (\<open>P\<close>) and, where they read the clock, the current time. Each handler runs under
  \<^verbatim>\<open>consensus_mutex_\<close>, so it is one step. A message handed to \<^verbatim>\<open>Peer::send_raft_RPC\<close> is appended to
  \<open>outbox\<close> with the id of its peer. The condition variables only wake waiting threads, which test
  their condition again, and have no state.
\<close>

subsection \<open>State\<close>

record ('l, 's) raft =
  context_of :: ctx
  peer_set :: peers
  opt :: raft_option
  rlog :: 'l
  heartbeat_timer :: timer
  election_timer :: timer
  withhold_votes_timer :: timer
  machine :: state_machine
  kv_store :: 's
  outbox :: "(u64 \<times> raft_request) list"

text \<open>The updates of the context together with the log it writes its meta data to.\<close>

definition set_ctx_log :: "ctx \<times> 'l \<Rightarrow> ('l, 's) raft \<Rightarrow> ('l, 's) raft" where
  "set_ctx_log cl st = st\<lparr>context_of := fst cl, rlog := snd cl\<rparr>"

definition my_id :: "('l, 's) raft \<Rightarrow> u64" where
  "my_id st = c_id (context_of st)"

definition current_leader :: "('l, 's) raft \<Rightarrow> u64" where
  "current_leader st = leader_id (context_of st)"

definition is_leader :: "('l, 's) raft \<Rightarrow> bool" where
  "is_leader st = (c_id (context_of st) = leader_id (context_of st))"

definition get_peer :: "('l, 's) raft \<Rightarrow> u64 \<Rightarrow> peer option" where
  "get_peer st i = map_of (peer_set st) i"

subsection \<open>RequestVote\<close>

definition log_is_ok :: "'l LogIf \<Rightarrow> 'l \<Rightarrow> vote_request \<Rightarrow> bool" where
  "log_is_ok V l q =
     (let (t, i) = last_term_and_index V l in
      vq_last_log_term q > t \<or> (vq_last_log_term q = t \<and> vq_last_log_index q \<ge> i))"

definition on_request_vote_request ::
    "'l LogIf \<Rightarrow> int \<Rightarrow> vote_request \<Rightarrow> ('l, 's) raft \<Rightarrow> vote_response \<times> ('l, 's) raft" where
  "on_request_vote_request V now q st =
     (let ok = log_is_ok V (rlog st) q;
          (withhold, wt) = within now (o_withhold_votes_ms (opt st)) (withhold_votes_timer st);
          st0 = st\<lparr>withhold_votes_timer := wt\<rparr>;
          reply = (\<lambda>s granted. \<lparr>vr_term = c_term (context_of s), vr_vote_granted = granted,
                     vr_peer_id = c_id (context_of st), vr_log_ok = ok, vr_epoch = vq_epoch q\<rparr>)
      in if withhold then (reply st0 False, st0)
         else
           let st1 = (if vq_term q > c_term (context_of st0)
                      then set_ctx_log (become_follower V (vq_term q) (context_of st0) (rlog st0)) st0
                      else st0)
           in if vq_term q < c_term (context_of st1) then (reply st1 False, st1)
              else
                let st2 = (if ok \<and> voted_for (context_of st1) = 0
                           then let st' = set_ctx_log (become_follower V (vq_term q) (context_of st1) (rlog st1)) st1;
                                    c = (context_of st')\<lparr>voted_for := vq_candidate_id q\<rparr>
                                in st'\<lparr>heartbeat_timer := disable (heartbeat_timer st'),
                                       election_timer := schedule now (election_timer st'),
                                       context_of := c, rlog := update_meta V c (rlog st')\<rparr>
                           else st1)
                in (reply st2 (ok \<and> c_term (context_of st2) = vq_term q \<and>
                       voted_for (context_of st2) = vq_candidate_id q), st2))"

subsection \<open>AppendEntries\<close>

text \<open>
  The loop over the received entries. Entries below the start of the log and entries already
  present with the same term are passed over; at the first other one the log is cut if it
  disagrees there, and all the remaining entries are appended in one call.
\<close>

fun append_loop :: "'l LogIf \<Rightarrow> 'l \<Rightarrow> u64 \<Rightarrow> entry list \<Rightarrow> 'l res" where
  "append_loop V l index [] = Inr l"
| "append_loop V l index (e # es) =
     (let i = index + 1 in
      if i < start_index V l then append_loop V l i es
      else if last_index V l \<ge> i then
        (case entry V l i of None \<Rightarrow> Inl NullDeref
         | Some x \<Rightarrow>
             if e_term x = e_term e then append_loop V l i es
             else Inr (snd (append V (truncate_suffix V l (i - 1)) (e # es))))
      else Inr (snd (append V l (e # es))))"

text \<open>
  The common head of the two requests a leader sends: adopt the term, become follower, restart
  the election timer, remember that a leader was heard, note the leader if none is known.
\<close>

definition hear_leader ::
    "'l LogIf \<Rightarrow> int \<Rightarrow> u64 \<Rightarrow> u64 \<Rightarrow> ('l, 's) raft \<Rightarrow> ('l, 's) raft" where
  "hear_leader V now trm lid st =
     (let st1 = (if trm > c_term (context_of st)
                 then let c = (context_of st)\<lparr>c_term := trm\<rparr>
                      in st\<lparr>context_of := c, rlog := update_meta V c (rlog st)\<rparr>
                 else st);
          st2 = set_ctx_log (become_follower V trm (context_of st1) (rlog st1)) st1;
          st3 = st2\<lparr>heartbeat_timer := disable (heartbeat_timer st2),
                    election_timer := schedule now (election_timer st2),
                    withhold_votes_timer := schedule now (withhold_votes_timer st2)\<rparr>
      in if leader_id (context_of st3) = 0
         then st3\<lparr>context_of := (context_of st3)\<lparr>leader_id := lid\<rparr>\<rparr> else st3)"

definition on_append_entries_request ::
    "'l LogIf \<Rightarrow> int \<Rightarrow> append_request \<Rightarrow> ('l, 's) raft \<Rightarrow> (append_response \<times> ('l, 's) raft) res" where
  "on_append_entries_request V now q st =
     (let reply = (\<lambda>t ok lst. \<lparr>ar_term = t, ar_success = ok, ar_peer_id = o_id (opt st),
                     ar_last_log_index = lst, ar_epoch = aq_epoch q\<rparr>)
      in if aq_term q < c_term (context_of st)
         then Inr (reply (c_term (context_of st)) False (last_index V (rlog st)), st)
         else
           let st1 = hear_leader V now (aq_term q) (aq_leader_id q) st;
               t = c_term (context_of st1);
               l = rlog st1;
               prev = aq_prev_log_index q
           in if prev > last_index V l then Inr (reply t False (last_index V (rlog st)), st1)
              else
                res_bind
                  (if prev \<ge> start_index V l
                   then res_bind (of_option NullDeref (entry V l prev))
                          (\<lambda>e. Inr (e_term e \<noteq> aq_prev_log_term q))
                   else Inr False)
                  (\<lambda>mismatch.
                     if mismatch then
                       let l' = truncate_suffix V l (last_index V l - 1)
                       in Inr (reply t False (last_index V l'), st1\<lparr>rlog := l'\<rparr>)
                     else
                       res_bind (append_loop V l prev (aq_entries q)) (\<lambda>l'.
                         let st2 = st1\<lparr>rlog := l'\<rparr>;
                             st3 = (if commit_index (context_of st2) < aq_leader_commit q
                                    then st2\<lparr>context_of := (context_of st2)\<lparr>commit_index := aq_leader_commit q\<rparr>,
                                             rlog := snd (set_meta_commit_index V l' (aq_leader_commit q))\<rparr>
                                    else st2)
                         in Inr (reply t True (last_index V l'), st3))))"

subsection \<open>InstallSnapshot\<close>

definition on_install_snapshot_request ::
    "'l LogIf \<Rightarrow> 's StoreIf \<Rightarrow> proto \<Rightarrow> int \<Rightarrow> install_request \<Rightarrow> ('l, 's) raft \<Rightarrow>
       int \<times> install_response \<times> ('l, 's) raft" where
  "on_install_snapshot_request V S P now q st =
     (let reply = (\<lambda>t b. \<lparr>ir_term = t, ir_peer_id = o_id (opt st), ir_bytes_stored = b, ir_epoch = iq_epoch q\<rparr>)
      in if iq_term q < c_term (context_of st) then (0, reply (c_term (context_of st)) None, st)
         else
           let st1 = hear_leader V now (iq_term q) (iq_leader_id q) st;
               t = c_term (context_of st1);
               idx = iq_last_included_index q
           in case unmarshal_snapshot P (iq_data q) of
                None \<Rightarrow> (-1, reply t None, st1)
              | Some sn \<Rightarrow>
                  let (ok, sm, kv) = StateMachine_apply_snapshot S (machine st1) (kv_store st1) sn;
                      st2 = st1\<lparr>machine := sm, kv_store := kv\<rparr>
                  in if \<not> ok then (-1, reply t None, st2)
                     else
                       let l1 = truncate_prefix V (rlog st2) (idx + 1);
                           l2 = truncate_suffix V l1 idx;
                           l3 = snd (set_meta_commit_index V l2 idx);
                           l4 = snd (set_meta_apply_index V l3 idx)
                       in (0, reply t (Some (of_nat (length (iq_data q)))),
                           st2\<lparr>context_of := (context_of st2)\<lparr>commit_index := idx\<rparr>, rlog := l4,
                               machine := (machine st2)\<lparr>sm_apply := idx\<rparr>\<rparr>))"

subsection \<open>Sending\<close>

definition send_raft_RPC :: "u64 \<Rightarrow> raft_request \<Rightarrow> ('l, 's) raft \<Rightarrow> ('l, 's) raft" where
  "send_raft_RPC pid m st = st\<lparr>outbox := outbox st @ [(pid, m)]\<rparr>"

definition send_request_vote :: "'l LogIf \<Rightarrow> ('l, 's) raft \<Rightarrow> ('l, 's) raft" where
  "send_request_vote V st =
     (let (t, i) = last_term_and_index V (rlog st);
          request = \<lparr>vq_term = c_term (context_of st), vq_candidate_id = c_id (context_of st),
                     vq_last_log_index = i, vq_last_log_term = t, vq_epoch = epoch (context_of st)\<rparr>
      in fold (\<lambda>(k, p). send_raft_RPC (p_id p) (RequestVote request)) (peer_set st) st)"

definition send_install_snapshot ::
    "'l LogIf \<Rightarrow> 's StoreIf \<Rightarrow> peer \<Rightarrow> ('l, 's) raft \<Rightarrow> (int \<times> ('l, 's) raft) res" where
  "send_install_snapshot V S p st =
     (let (loaded, sm) = StateMachine_load_snapshot S (machine st) (kv_store st);
          st1 = st\<lparr>machine := sm\<rparr>
      in case loaded of None \<Rightarrow> Inr (-1, st1)
         | Some (content, idx, trm) \<Rightarrow>
             let c = context_of st1;
                 st2 = (if idx \<noteq> last_included_index c \<or> trm \<noteq> last_included_term c
                        then st1\<lparr>context_of := c\<lparr>last_included_index := idx, last_included_term := trm\<rparr>\<rparr>
                        else st1)
             in if last_included_index (context_of st2) < start_index V (rlog st2) - 1 then Inl Panic
                else Inr (0, send_raft_RPC (p_id p)
                       (InstallSnapshot \<lparr>iq_term = c_term (context_of st2), iq_leader_id = c_id (context_of st2),
                          iq_last_included_index = idx, iq_last_included_term = trm,
                          iq_data = content, iq_epoch = epoch (context_of st2)\<rparr>) st2))"

text \<open>The term of the entry before the ones to send; \<open>None\<close>: only a snapshot can help the peer.\<close>

definition prev_log_term :: "'l LogIf \<Rightarrow> ('l, 's) raft \<Rightarrow> u64 \<Rightarrow> (u64 option) option" where
  "prev_log_term V st prev =
     (if prev \<ge> start_index V (rlog st) then
        (case entry V (rlog st) prev of None \<Rightarrow> None | Some e \<Rightarrow> Some (Some (e_term e)))
      else if prev = 0 then Some (Some 0)
      else if prev = last_included_index (context_of st) then Some (Some (last_included_term (context_of st)))
      else Some None)"

definition send_append_entries_to ::
    "'l LogIf \<Rightarrow> 's StoreIf \<Rightarrow> peer \<Rightarrow> ('l, 's) raft \<Rightarrow> (int \<times> ('l, 's) raft) res" where
  "send_append_entries_to V S p st =
     (let prev = next_index p - 1 in
      case prev_log_term V st prev of
        None \<Rightarrow> Inr (-1, st)
      | Some None \<Rightarrow> res_bind (send_install_snapshot V S p st) (\<lambda>(_, st'). Inr (0, st'))
      | Some (Some pt) \<Rightarrow>
          res_bind (entries V (rlog st) (next_index p) (o_log_trans_count (opt st))) (\<lambda>(ok, es).
            if \<not> ok then Inr (-1, st)
            else Inr (0, send_raft_RPC (p_id p)
                   (AppendEntries \<lparr>aq_term = c_term (context_of st), aq_leader_id = c_id (context_of st),
                      aq_prev_log_index = prev, aq_prev_log_term = pt, aq_entries = es,
                      aq_leader_commit = min (commit_index (context_of st)) (prev + of_nat (length es)),
                      aq_epoch = epoch (context_of st)\<rparr>) st)))"

fun send_append_entries_all ::
    "'l LogIf \<Rightarrow> 's StoreIf \<Rightarrow> peers \<Rightarrow> ('l, 's) raft \<Rightarrow> ('l, 's) raft res" where
  "send_append_entries_all V S [] st = Inr st"
| "send_append_entries_all V S ((k, p) # ps) st =
     res_bind (send_append_entries_to V S p st) (\<lambda>(_, st'). send_append_entries_all V S ps st')"

definition send_append_entries :: "'l LogIf \<Rightarrow> 's StoreIf \<Rightarrow> ('l, 's) raft \<Rightarrow> ('l, 's) raft res" where
  "send_append_entries V S st = send_append_entries_all V S (peer_set st) st"

subsection \<open>Responses\<close>

text \<open>What the three response handlers do on a larger term.\<close>

definition step_down :: "'l LogIf \<Rightarrow> u64 \<Rightarrow> u64 \<Rightarrow> ('l, 's) raft \<Rightarrow> ('l, 's) raft" where
  "step_down V t pid st =
     (let st' = set_ctx_log (become_follower V t (context_of st) (rlog st)) st
      in st'\<lparr>rlog := snd (set_meta_data V (rlog st')
               (meta_empty\<lparr>m_current_term := Some t, m_voted_for := Some pid\<rparr>))\<rparr>)"

definition noop_entry :: "u64 \<Rightarrow> entry" where
  "noop_entry t = \<lparr>e_type = kNoop, e_term = t, e_data = None, e_context = None\<rparr>"

definition on_request_vote_response_async ::
    "'l LogIf \<Rightarrow> int \<Rightarrow> vote_response \<Rightarrow> ('l, 's) raft \<Rightarrow> (int \<times> ('l, 's) raft) res" where
  "on_request_vote_response_async V now r st =
     (if vr_term r > c_term (context_of st) then Inr (0, step_down V (vr_term r) (vr_peer_id r) st)
      else if vr_term r < c_term (context_of st) then Inr (-1, st)
      else case map_of (peer_set st) (vr_peer_id r) of None \<Rightarrow> Inl Panic
      | Some p \<Rightarrow>
          let st1 = st\<lparr>peer_set := peer_update (vr_peer_id r) (\<lambda>p. p\<lparr>latest_epoch := vr_epoch r\<rparr>) (peer_set st)\<rparr>
          in if role (context_of st1) = kCandidate \<and> vr_vote_granted r then
               let c = (context_of st1)\<lparr>quorum_granted := insert (p_id p) (quorum_granted (context_of st1))\<rparr>;
                   st2 = st1\<lparr>context_of := c\<rparr>
               in if quorum_count c > (length (o_members (opt st2)) + 1) div 2 then
                    let l = snd (append V (rlog st2) [noop_entry (c_term c)]);
                        next = last_index V l + 1
                    in Inr (0, st2\<lparr>context_of := become_leader c, rlog := l,
                          peer_set := map (\<lambda>(k, p). (k, p\<lparr>next_index := next, match_index := 0\<rparr>)) (peer_set st2),
                          election_timer := disable (election_timer st2),
                          withhold_votes_timer := disable (withhold_votes_timer st2),
                          heartbeat_timer := set_urgent (schedule now (heartbeat_timer st2))\<rparr>)
                  else Inr (0, st2)
             else Inr (0, st1))"

definition vec_at :: "'a list \<Rightarrow> nat \<Rightarrow> 'a res" where
  "vec_at xs i = (if i < length xs then Inr (xs ! i) else Inl OutOfRange)"

definition advance_commit_index :: "'l LogIf \<Rightarrow> ('l, 's) raft \<Rightarrow> u64 res" where
  "advance_commit_index V st =
     vec_at (sort (map (\<lambda>(k, p). match_index p) (peer_set st) @ [last_index V (rlog st)]))
       ((length (peer_set st) + 1 - 1) div 2)"

definition advance_epoch :: "('l, 's) raft \<Rightarrow> u64 res" where
  "advance_epoch st =
     vec_at (sort (map (\<lambda>(k, p). latest_epoch p) (peer_set st) @ [epoch (context_of st)]))
       ((length (peer_set st) + 1 - 1) div 2)"

text \<open>The commit step shared by the AppendEntries and InstallSnapshot responses.\<close>

definition try_advance_commit :: "'l LogIf \<Rightarrow> ('l, 's) raft \<Rightarrow> (int \<times> ('l, 's) raft) res" where
  "try_advance_commit V st =
     res_bind (advance_commit_index V st) (\<lambda>n.
       if n \<le> commit_index (context_of st) then Inr (0, st)
       else res_bind (of_option NullDeref (entry V (rlog st) n)) (\<lambda>e.
         if e_term e \<noteq> c_term (context_of st) then Inr (0, st)
         else Inr (0, st\<lparr>context_of := (context_of st)\<lparr>commit_index := n\<rparr>,
                        rlog := snd (set_meta_commit_index V (rlog st) n)\<rparr>)))"

definition on_append_entries_response_async ::
    "'l LogIf \<Rightarrow> 's StoreIf \<Rightarrow> append_response \<Rightarrow> ('l, 's) raft \<Rightarrow> (int \<times> ('l, 's) raft) res" where
  "on_append_entries_response_async V S r st =
     (if ar_term r > c_term (context_of st) then Inr (0, step_down V (ar_term r) (ar_peer_id r) st)
      else if ar_term r < c_term (context_of st) then Inr (-1, st)
      else case map_of (peer_set st) (ar_peer_id r) of None \<Rightarrow> Inl Panic
      | Some p \<Rightarrow>
          let upd = (\<lambda>f s. s\<lparr>peer_set := peer_update (ar_peer_id r) f (peer_set s)\<rparr>);
              st1 = upd (\<lambda>p. p\<lparr>latest_epoch := ar_epoch r\<rparr>) st
          in if ar_success r then
               try_advance_commit V
                 (upd (\<lambda>p. p\<lparr>match_index := ar_last_log_index r, next_index := ar_last_log_index r + 1\<rparr>) st1)
             else
               let st2 = (if next_index p > ar_last_log_index r + 1
                          then upd (\<lambda>p. p\<lparr>next_index := ar_last_log_index r + 1\<rparr>) st1 else st1)
               in res_bind (of_option NullDeref (map_of (peer_set st2) (ar_peer_id r))) (\<lambda>p'.
                  res_bind (send_append_entries_to V S p' st2) (\<lambda>(_, st3). Inr (0, st3))))"

definition on_install_snapshot_response_async ::
    "'l LogIf \<Rightarrow> install_response \<Rightarrow> ('l, 's) raft \<Rightarrow> (int \<times> ('l, 's) raft) res" where
  "on_install_snapshot_response_async V r st =
     (if ir_term r > c_term (context_of st) then Inr (0, step_down V (ir_term r) (ir_peer_id r) st)
      else case map_of (peer_set st) (ir_peer_id r) of None \<Rightarrow> Inl Panic
      | Some p \<Rightarrow>
          let upd = (\<lambda>f s. s\<lparr>peer_set := peer_update (ir_peer_id r) f (peer_set s)\<rparr>);
              st1 = upd (\<lambda>p. p\<lparr>latest_epoch := ir_epoch r\<rparr>) st;
              idx = last_included_index (context_of st1)
          in if ir_bytes_stored r \<noteq> None then
               try_advance_commit V (upd (\<lambda>p. p\<lparr>match_index := idx, next_index := idx + 1\<rparr>) st1)
             else Inr (-1, st1))"

subsection \<open>The periodic thread\<close>

text \<open>
  One round of \<^verbatim>\<open>main_thread_loop\<close> after the wait. The role and the timer are read without the lock
  (\<open>main_thread_check\<close>), which decides what to do; the lock is then taken and it is done
  (\<open>main_thread_act\<close>). Other threads may run in between.
\<close>

datatype tick_action = Campaign | Heartbeat

definition main_thread_check :: "int \<Rightarrow> ('l, 's) raft \<Rightarrow> tick_action option \<times> ('l, 's) raft" where
  "main_thread_check now st =
     (case role (context_of st) of
        kLeader \<Rightarrow>
          (let (fire, t) = timeout now (o_heartbeat_ms (opt st)) (heartbeat_timer st)
           in (if fire then Some Heartbeat else None, st\<lparr>heartbeat_timer := t\<rparr>))
      | _ \<Rightarrow>
          (let (fire, t) = timeout now (o_election_timeout_ms (opt st)) (election_timer st)
           in (if fire then Some Campaign else None, st\<lparr>election_timer := t\<rparr>)))"

definition main_thread_act ::
    "'l LogIf \<Rightarrow> 's StoreIf \<Rightarrow> int \<Rightarrow> tick_action \<Rightarrow> ('l, 's) raft \<Rightarrow> ('l, 's) raft res" where
  "main_thread_act V S now a st =
     (case a of
        Campaign \<Rightarrow>
          (let st1 = send_request_vote V (set_ctx_log (become_candidate V (context_of st) (rlog st)) st)
           in Inr (st1\<lparr>election_timer := schedule now (election_timer st1)\<rparr>))
      | Heartbeat \<Rightarrow>
          res_bind (send_append_entries V S st) (\<lambda>st1.
            Inr (st1\<lparr>heartbeat_timer := schedule now (heartbeat_timer st1)\<rparr>)))"

end
