(* ===== verification/Consensus_Ops.thy ===== *)
theory Consensus_Ops
  imports Consensus
begin

text \<open>
  The remaining entry points of \<^verbatim>\<open>RaftConsensus\<close>: start-up, the dispatch of responses received from
  peers, and the client operations. A client operation waits between its steps, and other threads
  run while it waits; it is therefore split at its waits, and each part is a function of the state
  it finds when it runs. A wait ends when its condition holds or when its time is up, so the part
  after it starts in any state.
\<close>

subsection \<open>Start-up\<close>

datatype ('l, 's) init_result = InitFailed | Bootstrapped 'l | Running "('l, 's) raft"

text \<open>The context as loaded from the meta data that the log stores.\<close>

definition load_context :: "'l LogIf \<Rightarrow> u64 \<Rightarrow> 'l \<Rightarrow> ctx" where
  "load_context V i l =
     (let m = meta_data V l; c = Context i in
      c\<lparr>c_term := (case m_current_term m of Some t \<Rightarrow> t | None \<Rightarrow> c_term c),
        voted_for := (case m_voted_for m of Some v \<Rightarrow> v | None \<Rightarrow> voted_for c),
        commit_index := (case m_commit_index m of Some x \<Rightarrow> x | None \<Rightarrow> commit_index c)\<rparr>)"

text \<open>
  \<^verbatim>\<open>init\<close> from the point where the option record is filled in: \<open>rnd\<close> is the value of
  \<^verbatim>\<open>::random()\<close>, \<open>l\<close> and \<open>kv\<close> are the opened log and store.
\<close>

definition RaftConsensus_init ::
    "'l LogIf \<Rightarrow> int \<Rightarrow> int \<Rightarrow> raft_option \<Rightarrow> 'l \<Rightarrow> 's \<Rightarrow> ('l, 's) init_result res" where
  "RaftConsensus_init V now rnd o0 l kv =
     (let o1 = o0\<lparr>o_withhold_votes_ms := o_election_timeout_ms o0\<rparr> in
      if \<not> validate o1 then Inr InitFailed
      else
        let o2 = (if o_election_timeout_ms o1 > 3
                  then o1\<lparr>o_election_timeout_ms := o_election_timeout_ms o1 + rnd mod (o_election_timeout_ms o1 div 3)\<rparr>
                  else o1);
            peers = map (\<lambda>(i, addr, port). (i, Peer i addr port)) (o_members o2);
            c = load_context V (o_id o2) l;
            l1 = update_meta V c l
        in if o_bootstrap o2 then
             (if c_term c \<noteq> 0 \<or> last_index V l1 \<noteq> 0 \<or> start_index V l1 \<noteq> 1 then Inl (Exit False)
              else let (c', l2) = become_follower V 1 c l1
                   in Inr (Bootstrapped (snd (append V l2 [noop_entry (c_term c')]))))
           else
             let (ok, sm) = StateMachine_init V l1 StateMachine in
             if \<not> ok then Inr InitFailed
             else let (c', l2) = become_follower V (c_term c) c l1
                  in Inr (Running
                       \<lparr>context_of = c', peer_set = peers, opt = o2, rlog = l2,
                        heartbeat_timer = SimpleTimer now, election_timer = schedule now (SimpleTimer now),
                        withhold_votes_timer = SimpleTimer now, machine = sm, kv_store = kv, outbox = []\<rparr>))"

text \<open>
  \<^verbatim>\<open>init\<close> as a whole: \<open>setting\<close> is what the configuration gives (\<open>None\<close>: it is not available),
  \<open>dir_ok\<close> whether the storage directory exists after \<^verbatim>\<open>mkdir\<close>, \<open>open_log\<close> and \<open>open_kv\<close> open the
  databases below it.
\<close>

definition RaftConsensus_start ::
    "'l LogIf \<Rightarrow> int \<Rightarrow> int \<Rightarrow> (int \<Rightarrow> string) \<Rightarrow> raft_setting option \<Rightarrow> (string \<Rightarrow> bool) \<Rightarrow>
       (string \<Rightarrow> 'l res) \<Rightarrow> (string \<Rightarrow> 's res) \<Rightarrow> ('l, 's) init_result res" where
  "RaftConsensus_start V now rnd to_string setting dir_ok open_log open_kv =
     (case setting of None \<Rightarrow> Inr InitFailed
      | Some cf \<Rightarrow>
          res_bind (load_option to_string cf) (\<lambda>o0.
           let path = o_log_path o0 @ ''/instance_'' @ to_string (uint (o_id o0)) in
           if \<not> validate (o0\<lparr>o_withhold_votes_ms := o_election_timeout_ms o0\<rparr>) then Inr InitFailed
           else if \<not> dir_ok path then Inr InitFailed
           else res_bind (open_log (path @ ''/log_meta'')) (\<lambda>l.
                res_bind (open_kv path) (\<lambda>kv. RaftConsensus_init V now rnd o0 l kv))))"

subsection \<open>Responses of peers\<close>

definition RAFT_SERVICE :: u16 where "RAFT_SERVICE = 1"
definition CLIENT_SERVICE :: u16 where "CLIENT_SERVICE = 2"
definition CONTROL_SERVICE :: u16 where "CONTROL_SERVICE = 3"

definition kRequestVote :: u16 where "kRequestVote = 1"
definition kAppendEntries :: u16 where "kAppendEntries = 2"
definition kInstallSnapshot :: u16 where "kInstallSnapshot = 3"

text \<open>The return code, and the task put into the deferred queue.\<close>

definition handle_rpc_callback :: "bool \<Rightarrow> u16 \<Rightarrow> u16 \<Rightarrow> string \<Rightarrow> int \<times> (u16 \<times> string) option" where
  "handle_rpc_callback status_ok service_id opcode rsp =
     (if \<not> status_ok then (-1, None)
      else if service_id \<noteq> RAFT_SERVICE then (-1, None)
      else if opcode = kRequestVote \<or> opcode = kAppendEntries \<or> opcode = kInstallSnapshot
      then (0, Some (opcode, rsp))
      else (-1, None))"

definition continue_bf_async ::
    "'l LogIf \<Rightarrow> 's StoreIf \<Rightarrow> proto \<Rightarrow> int \<Rightarrow> u16 \<Rightarrow> string \<Rightarrow> ('l, 's) raft \<Rightarrow> (int \<times> ('l, 's) raft) res" where
  "continue_bf_async V S P now opcode rsp st =
     (if opcode = kRequestVote then
        (case unmarshal_vote_response P rsp of None \<Rightarrow> Inr (-1, st)
         | Some r \<Rightarrow> on_request_vote_response_async V now r st)
      else if opcode = kAppendEntries then
        (case unmarshal_append_response P rsp of None \<Rightarrow> Inr (-1, st)
         | Some r \<Rightarrow> on_append_entries_response_async V S r st)
      else if opcode = kInstallSnapshot then
        (case unmarshal_install_response P rsp of None \<Rightarrow> Inr (-1, st)
         | Some r \<Rightarrow> on_install_snapshot_response_async V r st)
      else Inr (-1, st))"

subsection \<open>The apply thread\<close>

text \<open>One pass of the loop of \<^verbatim>\<open>StateMachine\<close> on the log and the store it shares with the node.\<close>

definition state_machine_loop_step ::
    "'l LogIf \<Rightarrow> 's StoreIf \<Rightarrow> proto \<Rightarrow> ('l, 's) raft \<Rightarrow> (ctl \<times> ('l, 's) raft) res" where
  "state_machine_loop_step V S P st =
     res_bind (sm_step V S P (machine st) (rlog st) (kv_store st)) (\<lambda>(ctl, sm, l, kv).
       Inr (ctl, st\<lparr>machine := sm, rlog := l, kv_store := kv\<rparr>))"

subsection \<open>Updates\<close>

text \<open>
  \<open>modify_begin\<close> makes the log entry from what it reads without the lock (\<open>None\<close>: the call returns
  -1); \<open>modify_append\<close> appends it under the lock and gives the term and index to wait for.
  \<open>modify_waits\<close> and \<open>apply_waits\<close> are the conditions of the two waits, which also end when
  the time is up. \<open>modify_committed\<close> is the test after the first wait, \<open>modify_finish\<close> the part
  after the second one, with the marshalled reply.
\<close>

definition modify_begin :: "string \<Rightarrow> ('l, 's) raft \<Rightarrow> entry option" where
  "modify_begin cmd st =
     (if cmd = [] then None
      else if \<not> is_leader st then None
      else Some \<lparr>e_type = kNormal, e_term = c_term (context_of st), e_data = Some cmd, e_context = None\<rparr>)"

definition modify_append :: "'l LogIf \<Rightarrow> entry \<Rightarrow> ('l, 's) raft \<Rightarrow> (u64 \<times> u64) \<times> ('l, 's) raft" where
  "modify_append V e st =
     (let l = snd (append V (rlog st) [e])
      in (last_term_and_index V l, st\<lparr>rlog := l, heartbeat_timer := set_urgent (heartbeat_timer st)\<rparr>))"

definition modify_waits :: "u64 \<Rightarrow> u64 \<Rightarrow> ('l, 's) raft \<Rightarrow> bool" where
  "modify_waits aim_term aim_index st \<longleftrightarrow>
     commit_index (context_of st) < aim_index \<and> aim_term = c_term (context_of st)"

definition apply_waits :: "u64 \<Rightarrow> ('l, 's) raft \<Rightarrow> bool" where
  "apply_waits aim_index st \<longleftrightarrow> sm_apply (machine st) < aim_index"

definition modify_committed :: "u64 \<Rightarrow> u64 \<Rightarrow> ('l, 's) raft \<Rightarrow> bool" where
  "modify_committed aim_term aim_index st =
     (if aim_term \<noteq> c_term (context_of st) then False
      else if commit_index (context_of st) < aim_index then False
      else True)"

definition modify_finish :: "proto \<Rightarrow> u64 \<Rightarrow> ('l, 's) raft \<Rightarrow> string option \<times> ('l, 's) raft" where
  "modify_finish P aim_index st =
     (if sm_apply (machine st) < aim_index then (None, st)
      else
        let (content, sm) = fetch_response_msg aim_index (machine st)
        in (Some (marshal_update_response P \<lparr>ur_code = 0, ur_msg = ''OK'', ur_context = content\<rparr>),
            st\<lparr>machine := sm\<rparr>))"

subsection \<open>Queries\<close>

definition query_begin :: "string \<Rightarrow> ('l, 's) raft \<Rightarrow> u64 option \<times> ('l, 's) raft" where
  "query_begin cmd st =
     (if cmd = [] then (None, st)
      else if \<not> is_leader st then (None, st)
      else
        let (aim_epoch, c) = inc_epoch (context_of st)
        in (Some aim_epoch, st\<lparr>context_of := c, heartbeat_timer := set_urgent (heartbeat_timer st)\<rparr>))"

text \<open>The condition of the wait for the epoch.\<close>

definition query_waits :: "u64 \<Rightarrow> ('l, 's) raft \<Rightarrow> bool res" where
  "query_waits aim_epoch st = res_bind (advance_epoch st) (\<lambda>n. Inr (n < aim_epoch))"

text \<open>The part after the wait for the epoch: the index to read at.\<close>

definition query_read_index :: "'l LogIf \<Rightarrow> ('l, 's) raft \<Rightarrow> u64 option res" where
  "query_read_index V st =
     (let c = context_of st in
      res_bind
        (if commit_index c = last_included_index c then Inr (last_included_term c)
         else res_bind (of_option NullDeref (entry V (rlog st) (commit_index c))) (\<lambda>e. Inr (e_term e)))
        (\<lambda>aim_term. Inr (if aim_term \<noteq> c_term c then None else Some (commit_index c))))"

text \<open>The condition of the wait for the state machine.\<close>

definition query_apply_waits :: "u64 \<Rightarrow> ('l, 's) raft \<Rightarrow> bool" where
  "query_apply_waits aim_index st \<longleftrightarrow> sm_apply (machine st) < aim_index"

definition query_finish :: "'s StoreIf \<Rightarrow> proto \<Rightarrow> string \<Rightarrow> u64 \<Rightarrow> ('l, 's) raft \<Rightarrow> string option" where
  "query_finish S P cmd aim_index st =
     (if sm_apply (machine st) < aim_index then None
      else case unmarshal_select_request P cmd of None \<Rightarrow> None
      | Some request \<Rightarrow>
          let (ret, response) = select_handle S (kv_store st) request
          in if ret \<noteq> 0 then None
             else Some (marshal_select_response P (response\<lparr>sr_code := 0, sr_msg := ''OK''\<rparr>)))"

subsection \<open>Snapshots\<close>

text \<open>
  \<^verbatim>\<open>state_machine_snapshot\<close> creates the snapshot without the lock and then, under the lock, notes its
  index and term and trims the log. The first part gives those two, or \<open>None\<close> when the call
  returns -1.
\<close>

definition snapshot_create ::
    "'l LogIf \<Rightarrow> 's StoreIf \<Rightarrow> ('l, 's) raft \<Rightarrow> (u64 \<times> u64) option \<times> ('l, 's) raft" where
  "snapshot_create V S st =
     (let (ok, idx, trm, sm, kv) = StateMachine_create_snapshot V S (machine st) (rlog st) (kv_store st) 0 0
      in (if ok then Some (idx, trm) else None, st\<lparr>machine := sm, kv_store := kv\<rparr>))"

definition snapshot_trim :: "'l LogIf \<Rightarrow> u64 \<Rightarrow> u64 \<Rightarrow> ('l, 's) raft \<Rightarrow> ('l, 's) raft" where
  "snapshot_trim V idx trm st =
     st\<lparr>context_of := (context_of st)\<lparr>last_included_index := idx, last_included_term := trm\<rparr>,
        rlog := truncate_prefix V (rlog st) (idx + 1)\<rparr>"

end
