(* ===== verification/Append_Props.thy ===== *)
theory Append_Props
  imports Consensus_Ops
begin

text \<open>
  What a follower's log is after AppendEntries: the append loop equals the specification
  \<open>merge_ents\<close> on lists, over any log that keeps the contract of \<^verbatim>\<open>LogIf\<close>.
\<close>

subsection \<open>The log after AppendEntries\<close>

text \<open>
  The specification of the append loop on lists: the received entries are laid over the entries
  after the previous index; the log is cut where the terms first differ.
\<close>

fun merge_ents :: "entry list \<Rightarrow> entry list \<Rightarrow> entry list" where
  "merge_ents old [] = old"
| "merge_ents [] new = new"
| "merge_ents (x # old) (e # new) = (if e_term x = e_term e then x # merge_ents old new else e # new)"

lemma merge_ents_Nil [simp]: "merge_ents [] new = new"
  by (cases new) simp_all

lemma length_merge_ents: "length new \<le> length (merge_ents old new)"
  by (induction old new rule: merge_ents.induct) auto

lemma length_merge_ents_le: "length (merge_ents old new) \<le> length old + length new"
  by (induction old new rule: merge_ents.induct) auto

lemma merge_ents_term: "n < length new \<Longrightarrow> e_term (merge_ents old new ! n) = e_term (new ! n)"
proof (induction old new arbitrary: n rule: merge_ents.induct)
  case (3 x old e new)
  then show ?case by (cases n) auto
qed auto

text \<open>Entries that agree with the received ones are kept, also beyond the received ones.\<close>

lemma merge_ents_agree:
  "(\<And>n. n < length new \<Longrightarrow> n < length old \<Longrightarrow> e_term (old ! n) = e_term (new ! n)) \<Longrightarrow>
     merge_ents old new = old @ drop (length old) new"
proof (induction old new rule: merge_ents.induct)
  case (3 x old e new)
  have "e_term x = e_term e" using "3.prems" [of 0] by simp
  moreover have "merge_ents old new = old @ drop (length old) new"
    by (rule "3.IH" [OF calculation]) (use "3.prems" [of "Suc _"] in simp)
  ultimately show ?case by simp
qed auto

lemma merge_ents_idem: "merge_ents (merge_ents old new) new = merge_ents old new"
  using merge_ents_agree [of new "merge_ents old new"] merge_ents_term length_merge_ents by simp

context log_if
begin

lemma append_loop_merge:
  assumes "inv l" "unat index \<le> unat (last_index V l)" "unat (last_index V l) + length es < 2 ^ 64 - 1"
  defines "k \<equiv> Suc (unat index) - unat (start_index V l)" and "j \<equiv> unat (start_index V l) - Suc (unat index)"
  shows "\<exists>l'. append_loop V l index es = Inr l' \<and> inv l' \<and> start_index V l' = start_index V l \<and>
    meta_data V l' = meta_data V l \<and> ents l' = take k (ents l) @ merge_ents (drop k (ents l)) (drop j es)"
  using assms(1-3) unfolding k_def j_def
proof (induction es arbitrary: index)
  case Nil
  then show ?case by simp
next
  case (Cons e es)
  let ?s = "unat (start_index V l)" and ?n = "unat (last_index V l)"
  have u: "unat (index + 1) = Suc (unat index)"
    using Cons.prems(2) last_bound [OF Cons.prems(1)] by (intro unat_inc) (simp add: less_max_u64)
  have len: "?n + 1 = ?s + length (ents l)" by (rule last_eq [OF Cons.prems(1)])
  have room: "?n + length es < 2 ^ 64 - 1" using Cons.prems(3) by simp
  consider "Suc (unat index) < ?s" | "?s \<le> Suc (unat index)" "Suc (unat index) \<le> ?n" | "unat index = ?n" "?s \<le> Suc ?n"
    using Cons.prems(2) by linarith
  then show ?case
  proof cases
    case 1
    then have "unat (index + 1) \<le> ?n" using len u by simp
    note IH = Cons.IH [OF Cons.prems(1) this room]
    have "?s - Suc (unat index) = Suc (?s - Suc (unat (index + 1)))" using 1 u by simp
    then show ?thesis using IH 1 u by (simp add: idx_order)
  next
    case 2
    let ?k = "Suc (unat index) - ?s"
    let ?x = "ents l ! ?k"
    have x: "entry V l (index + 1) = Some ?x"
      using entry_ents [OF Cons.prems(1), of "index + 1"] 2 u by (simp add: idx_order)
    have d: "drop ?k (ents l) = ?x # drop (Suc ?k) (ents l)" and t: "take (Suc ?k) (ents l) = take ?k (ents l) @ [?x]"
      using 2 len by (simp_all add: Cons_nth_drop_Suc take_Suc_conv_app_nth)
    have i: "\<not> index + 1 < start_index V l" "index + 1 \<le> last_index V l" using 2 u by (simp_all add: idx_order)
    show ?thesis
    proof (cases "e_term ?x = e_term e")
      case True
      have "unat (index + 1) \<le> ?n" using 2 u by simp
      from Cons.IH [OF Cons.prems(1) this room] show ?thesis
        using True x d t i u 2 by (simp add: Suc_diff_le)
    next
      case False
      let ?l = "truncate_suffix V l index"
      have lst: "last_index V ?l = index"
        using 2 by (intro suffix_last [OF Cons.prems(1)]) (simp_all add: idx_order)
      then have "unat (last_index V ?l) + length (e # es) < 2 ^ 64 - 1" using 2 Cons.prems(3) by simp
      note A = appendD [OF suffixD(1) [OF Cons.prems(1)] this]
      show ?thesis
        using False x d i A Cons.prems(1) 2 by simp
    qed
  next
    case 3
    then have i: "\<not> index + 1 < start_index V l" "\<not> index + 1 \<le> last_index V l"
      using u by (simp_all add: idx_order)
    from 3 have "Suc (unat index) - ?s = length (ents l)" using len by simp
    with i 3 appendD [OF Cons.prems(1,3)] show ?thesis by simp
  qed
qed

end

end
