(* ===== verification/Handler_Props.thy ===== *)
theory Handler_Props
  imports Append_Props
begin

text \<open>
  What each message handler of a node keeps: the representation of the log, the vote on disk, the
  configuration, and how term, vote and role may move.
\<close>

subsection \<open>How handlers move term, vote and role\<close>

text \<open>
  \<open>quiet c c'\<close>: the term does not fall, a vote cast in a term is not changed within it, and a
  node that is candidate or leader afterwards was so before, with the same votes. Every handler
  is quiet, but for the start of an election and the counting of a vote.
\<close>

definition quiet :: "ctx \<Rightarrow> ctx \<Rightarrow> bool" where
  "quiet c c' \<longleftrightarrow>
     c_id c' = c_id c \<and> c_term c \<le> c_term c' \<and>
     (c_term c' = c_term c \<longrightarrow> voted_for c \<noteq> 0 \<longrightarrow> voted_for c' = voted_for c) \<and>
     (role c' \<noteq> kFollower \<longrightarrow> role c' = role c \<and> c_term c' = c_term c \<and>
        quorum_granted c' = quorum_granted c \<and> voted_for c' = voted_for c)"

lemma quiet_refl [simp]: "quiet c c"
  by (simp add: quiet_def)

lemma quiet_trans:
  assumes "quiet a b" "quiet b c"
  shows "quiet a c"
proof -
  have le: "c_term a \<le> c_term b" "c_term b \<le> c_term c" using assms by (simp_all add: quiet_def)
  then have "c_term c = c_term a \<Longrightarrow> c_term b = c_term a" by simp
  with le assms show ?thesis by (auto simp: quiet_def)
qed

text \<open>The configuration of a node: who it is and who its peers are.\<close>

definition same_cfg :: "('l, 's) raft \<Rightarrow> ('l, 's) raft \<Rightarrow> bool" where
  "same_cfg st st' \<longleftrightarrow>
     o_id (opt st') = o_id (opt st) \<and> o_members (opt st') = o_members (opt st) \<and>
     map (\<lambda>(k, p). (k, p_id p)) (peer_set st') = map (\<lambda>(k, p). (k, p_id p)) (peer_set st)"

lemma same_cfg_refl [simp]: "same_cfg st st"
  by (simp add: same_cfg_def)

lemma same_cfg_trans: "same_cfg a b \<Longrightarrow> same_cfg b c \<Longrightarrow> same_cfg a c"
  by (simp add: same_cfg_def)

lemma peer_update_p_ids:
  "(\<And>p. p_id (f p) = p_id p) \<Longrightarrow>
     map (\<lambda>(k, p). (k, p_id p)) (peer_update i f ps) = map (\<lambda>(k, p). (k, p_id p)) ps"
  by (induction ps) (auto simp: peer_update_def)

text \<open>The room a log needs so that its indices stay below the largest 64-bit value.\<close>

definition log_room :: "'l LogIf \<Rightarrow> nat \<Rightarrow> ('l, 's) raft \<Rightarrow> bool" where
  "log_room V n st \<longleftrightarrow> unat (last_index V (rlog st)) + n < 2 ^ 64 - 1"

text \<open>The log keeps its representation invariant and the vote in memory is on disk.\<close>

definition node_ok :: "'l LogIf \<Rightarrow> ('l \<Rightarrow> bool) \<Rightarrow> ('l, 's) raft \<Rightarrow> bool" where
  "node_ok V linv st \<longleftrightarrow> linv (rlog st) \<and> vote_saved V (context_of st) (rlog st)"

context log_if
begin

lemma vote_saved_cong:
  "vote_saved V c l \<Longrightarrow> meta_data V l' = meta_data V l \<Longrightarrow> c_term c' = c_term c \<Longrightarrow> voted_for c' = voted_for c \<Longrightarrow>
     vote_saved V c' l'"
  by (simp add: vote_saved_def)

lemma vote_saved_commit [simp]:
  "inv l \<Longrightarrow> vote_saved V c (snd (set_meta_commit_index V l i)) = vote_saved V c l"
  "inv l \<Longrightarrow> vote_saved V c (snd (set_meta_apply_index V l i)) = vote_saved V c l"
  by (simp_all add: vote_saved_def)

lemma hear_leader_ok:
  fixes now :: int and lid :: u64
  assumes "node_ok V inv st" "c_term (context_of st) \<le> t"
  defines "st' \<equiv> hear_leader V now t lid st"
  shows "node_ok V inv st'" "quiet (context_of st) (context_of st')" "same_cfg st st'"
    "c_term (context_of st') = t" "role (context_of st') = kFollower"
    "ents (rlog st') = ents (rlog st)" "start_index V (rlog st') = start_index V (rlog st)"
    "last_index V (rlog st') = last_index V (rlog st)"
    "commit_index (context_of st') = commit_index (context_of st)"
    "voted_for (context_of st') = voted_for (context_of st)"
    "enable (election_timer st')" "\<not> enable (heartbeat_timer st')" "outbox st' = outbox st"
proof -
  have le: "\<not> t < c_term (context_of st)" using assms(2) by simp
  show "node_ok V inv st'" "quiet (context_of st) (context_of st')" "same_cfg st st'"
    "c_term (context_of st') = t" "role (context_of st') = kFollower"
    "ents (rlog st') = ents (rlog st)" "start_index V (rlog st') = start_index V (rlog st)"
    "last_index V (rlog st') = last_index V (rlog st)"
    "commit_index (context_of st') = commit_index (context_of st)"
    "voted_for (context_of st') = voted_for (context_of st)"
    "enable (election_timer st')" "\<not> enable (heartbeat_timer st')" "outbox st' = outbox st"
    using assms(1,2) le
    by (auto simp: st'_def hear_leader_def Let_def node_ok_def set_ctx_log_def become_follower_def quiet_def
        same_cfg_def vote_saved_def)
qed

lemma request_vote_ok:
  assumes "node_ok V inv st" "on_request_vote_request V now q st = (r, st')"
  shows "node_ok V inv st'" "quiet (context_of st) (context_of st')" "same_cfg st st'" "outbox st' = outbox st"
    "vr_peer_id r = c_id (context_of st)"
    "vr_vote_granted r \<Longrightarrow> vr_term r = vq_term q \<and> c_term (context_of st') = vq_term q \<and>
       voted_for (context_of st') = vq_candidate_id q"
    "ents (rlog st') = ents (rlog st)" "last_index V (rlog st') = last_index V (rlog st)"
  using assms
  by (auto simp: on_request_vote_request_def Let_def split_beta node_ok_def set_ctx_log_def become_follower_def
      quiet_def same_cfg_def vote_saved_def split: if_splits)


text \<open>AppendEntries, by outcome.\<close>

lemma append_request_cases:
  assumes "node_ok V inv st" "log_room V (length (aq_entries q)) st"
  obtains (stale) r where "aq_term q < c_term (context_of st)"
      "on_append_entries_request V now q st = Inr (r, st)" "\<not> ar_success r" "ar_term r = c_term (context_of st)"
  | (gap) r where "c_term (context_of st) \<le> aq_term q" "last_index V (rlog st) < aq_prev_log_index q"
      "on_append_entries_request V now q st = Inr (r, hear_leader V now (aq_term q) (aq_leader_id q) st)"
      "\<not> ar_success r" "ar_term r = aq_term q" "ar_last_log_index r = last_index V (rlog st)"
  | (mismatch) r l' where "c_term (context_of st) \<le> aq_term q" "aq_prev_log_index q \<le> last_index V (rlog st)"
      "start_index V (rlog st) \<le> aq_prev_log_index q"
      "e_term (ents (rlog st) ! (unat (aq_prev_log_index q) - unat (start_index V (rlog st)))) \<noteq> aq_prev_log_term q"
      "on_append_entries_request V now q st =
         Inr (r, (hear_leader V now (aq_term q) (aq_leader_id q) st)\<lparr>rlog := l'\<rparr>)"
      "l' = truncate_suffix V (rlog (hear_leader V now (aq_term q) (aq_leader_id q) st)) (last_index V (rlog st) - 1)"
      "\<not> ar_success r" "ar_term r = aq_term q" "ar_last_log_index r = last_index V l'"
  | (success) r l' st1 where "c_term (context_of st) \<le> aq_term q" "aq_prev_log_index q \<le> last_index V (rlog st)"
      "start_index V (rlog st) \<le> aq_prev_log_index q \<Longrightarrow>
       e_term (ents (rlog st) ! (unat (aq_prev_log_index q) - unat (start_index V (rlog st)))) = aq_prev_log_term q"
      "st1 = hear_leader V now (aq_term q) (aq_leader_id q) st"
      "append_loop V (rlog st1) (aq_prev_log_index q) (aq_entries q) = Inr l'"
      "on_append_entries_request V now q st = Inr (r,
         if commit_index (context_of st) < aq_leader_commit q
         then st1\<lparr>context_of := (context_of st1)\<lparr>commit_index := aq_leader_commit q\<rparr>,
                  rlog := snd (set_meta_commit_index V l' (aq_leader_commit q))\<rparr>
         else st1\<lparr>rlog := l'\<rparr>)"
      "ar_success r" "ar_term r = aq_term q" "ar_last_log_index r = last_index V l'"
proof (cases "aq_term q < c_term (context_of st)")
  let ?r = "\<lambda>t ok lst. \<lparr>ar_term = t, ar_success = ok, ar_peer_id = o_id (opt st), ar_last_log_index = lst,
    ar_epoch = aq_epoch q\<rparr>"
  case True
  show thesis
    by (rule stale [OF True, of "?r (c_term (context_of st)) False (last_index V (rlog st))"])
      (use True in \<open>simp_all add: on_append_entries_request_def Let_def\<close>)
next
  let ?r = "\<lambda>t ok lst. \<lparr>ar_term = t, ar_success = ok, ar_peer_id = o_id (opt st), ar_last_log_index = lst,
    ar_epoch = aq_epoch q\<rparr>"
  case False
  then have le: "c_term (context_of st) \<le> aq_term q" by simp
  let ?st1 = "hear_leader V now (aq_term q) (aq_leader_id q) st"
  note H = hear_leader_ok [OF assms(1) le, of now "aq_leader_id q"]
  let ?prev = "aq_prev_log_index q" and ?l = "rlog ?st1"
  have inv1: "inv ?l" using H(1) by (simp add: node_ok_def)
  show thesis
  proof (cases "last_index V (rlog st) < ?prev")
    case True
    have "on_append_entries_request V now q st = Inr (?r (aq_term q) False (last_index V (rlog st)), ?st1)"
      using False True H by (simp add: on_append_entries_request_def Let_def)
    then show thesis by (rule gap [OF le True]) simp_all
  next
    case in_range: False
    then have pl: "?prev \<le> last_index V (rlog st)" by simp
    have ent: "entry V ?l ?prev = Some (ents (rlog st) ! (unat ?prev - unat (start_index V (rlog st))))"
      if "start_index V (rlog st) \<le> ?prev"
      using entry_ents [OF inv1, of ?prev] that pl H by simp
    let ?bad = "start_index V (rlog st) \<le> ?prev \<and>
      e_term (ents (rlog st) ! (unat ?prev - unat (start_index V (rlog st)))) \<noteq> aq_prev_log_term q"
    show thesis
    proof (cases ?bad)
      case True
      let ?l' = "truncate_suffix V ?l (last_index V (rlog st) - 1)"
      have "on_append_entries_request V now q st =
          Inr (?r (aq_term q) False (last_index V ?l'), ?st1\<lparr>rlog := ?l'\<rparr>)"
        using True False in_range H ent pl by (simp add: on_append_entries_request_def Let_def)
      from mismatch [OF le pl _ _ this refl] True show thesis by simp
    next
      case good: False
      obtain l' where l': "append_loop V ?l ?prev (aq_entries q) = Inr l'"
        using append_loop_merge [OF inv1, of ?prev "aq_entries q"] H pl assms(2)
        by (auto simp: idx_order log_room_def)
      let ?st' = "if commit_index (context_of st) < aq_leader_commit q
         then ?st1\<lparr>context_of := (context_of ?st1)\<lparr>commit_index := aq_leader_commit q\<rparr>,
                  rlog := snd (set_meta_commit_index V l' (aq_leader_commit q))\<rparr>
         else ?st1\<lparr>rlog := l'\<rparr>"
      have "on_append_entries_request V now q st = Inr (?r (aq_term q) True (last_index V l'), ?st')"
        using False in_range H ent good l' by (auto simp: on_append_entries_request_def Let_def)
      from success [OF le pl _ refl l' this] good show thesis by simp
    qed
  qed
qed

lemma append_request_ok:
  assumes "node_ok V inv st" "log_room V (length (aq_entries q)) st"
  obtains r st' where "on_append_entries_request V now q st = Inr (r, st')" "node_ok V inv st'"
    "quiet (context_of st) (context_of st')" "same_cfg st st'" "outbox st' = outbox st"
  using assms
proof (cases rule: append_request_cases [where now = now])
  case (stale r)
  with assms show thesis by (intro that [of r st]) auto
next
  case (gap r)
  show thesis
    by (rule that [OF gap(3)]) (rule hear_leader_ok [OF assms(1) gap(1)])+
next
  case (mismatch r l')
  note H = hear_leader_ok [OF assms(1) mismatch(1), of now "aq_leader_id q"]
  then have "inv (rlog (hear_leader V now (aq_term q) (aq_leader_id q) st))" by (simp add: node_ok_def)
  with H mismatch(6) show thesis
    by (intro that [OF mismatch(5)]) (auto simp: node_ok_def same_cfg_def elim: vote_saved_cong)
next
  case (success r l' st1)
  note H = hear_leader_ok [OF assms(1) success(1), of now "aq_leader_id q", folded success(4)]
  then have "inv (rlog st1)" by (simp add: node_ok_def)
  with append_loop_merge [OF this, of "aq_prev_log_index q" "aq_entries q"] success(2,5) H assms(2)
  have l': "inv l'" "meta_data V l' = meta_data V (rlog st1)"
    by (auto simp: idx_order log_room_def)
  then have "vote_saved V (context_of st1) l'" using H(1) by (simp add: node_ok_def vote_saved_def)
  with l'(1) H show thesis
    by (intro that [OF success(6)]) (auto simp: node_ok_def same_cfg_def quiet_def vote_saved_def)
qed

lemma install_request_ok:
  assumes "node_ok V inv st" "on_install_snapshot_request V S P now q st = (ret, r, st')"
  shows "node_ok V inv st'" "quiet (context_of st) (context_of st')" "same_cfg st st'" "outbox st' = outbox st"
proof -
  let ?st1 = "hear_leader V now (iq_term q) (iq_leader_id q) st"
  consider "st' = st" | "c_term (context_of st) \<le> iq_term q"
    using assms(2) by (auto simp: on_install_snapshot_request_def Let_def split: if_splits)
  then have "node_ok V inv st' \<and> quiet (context_of st) (context_of st') \<and> same_cfg st st' \<and> outbox st' = outbox st"
  proof cases
    case 1
    with assms show ?thesis by simp
  next
    case 2
    note H = hear_leader_ok [OF assms(1) 2, of now "iq_leader_id q"]
    have "inv (rlog ?st1)" "vote_saved V (context_of ?st1) (rlog ?st1)" using H(1) by (simp_all add: node_ok_def)
    then show ?thesis
      using assms(2) H 2
      by (auto simp: on_install_snapshot_request_def Let_def split_beta node_ok_def same_cfg_def quiet_def vote_saved_def
          split: if_splits option.splits)
  qed
  then show "node_ok V inv st'" "quiet (context_of st) (context_of st')" "same_cfg st st'" "outbox st' = outbox st"
    by simp_all
qed

end

end
