(* ===== verification/Append_Results.thy ===== *)
theory Append_Results
  imports Handler_Props
begin

text \<open>
  The outcome of AppendEntries at a follower, over any log that keeps the contract of \<^verbatim>\<open>LogIf\<close>:
  when it succeeds, what the log is afterwards, what happens to a second delivery of the same
  message, and where the commit index goes.
\<close>

text \<open>The test a request must pass, and the log it then leads to.\<close>

definition append_accepts :: "'l LogIf \<Rightarrow> ('l \<Rightarrow> entry list) \<Rightarrow> append_request \<Rightarrow> ('l, 's) raft \<Rightarrow> bool" where
  "append_accepts V ents q st \<longleftrightarrow>
     c_term (context_of st) \<le> aq_term q \<and> aq_prev_log_index q \<le> last_index V (rlog st) \<and>
     (start_index V (rlog st) \<le> aq_prev_log_index q \<longrightarrow>
        e_term (ents (rlog st) ! (unat (aq_prev_log_index q) - unat (start_index V (rlog st)))) = aq_prev_log_term q)"

definition append_merged :: "'l LogIf \<Rightarrow> ('l \<Rightarrow> entry list) \<Rightarrow> append_request \<Rightarrow> 'l \<Rightarrow> entry list" where
  "append_merged V ents q l =
     (let k = Suc (unat (aq_prev_log_index q)) - unat (start_index V l);
          j = unat (start_index V l) - Suc (unat (aq_prev_log_index q))
      in take k (ents l) @ merge_ents (drop k (ents l)) (drop j (aq_entries q)))"

context log_if
begin

lemma append_request_result:
  assumes "node_ok V inv st" "log_room V (length (aq_entries q)) st"
  shows "\<exists>r st'. on_append_entries_request V now q st = Inr (r, st') \<and> node_ok V inv st' \<and>
    (ar_success r \<longleftrightarrow> append_accepts V ents q st) \<and>
    ar_term r = max (c_term (context_of st)) (aq_term q) \<and>
    c_term (context_of st') = max (c_term (context_of st)) (aq_term q) \<and>
    (ar_success r \<longrightarrow> ents (rlog st') = append_merged V ents q (rlog st) \<and>
       start_index V (rlog st') = start_index V (rlog st) \<and> ar_last_log_index r = last_index V (rlog st') \<and>
       commit_index (context_of st') = max (commit_index (context_of st)) (aq_leader_commit q))"
  using assms
proof (cases rule: append_request_cases [where now = now])
  case (stale r)
  then show ?thesis using assms(1) by (auto simp: append_accepts_def max_def)
next
  case (gap r)
  then show ?thesis using hear_leader_ok [OF assms(1) gap(1), of now "aq_leader_id q"]
    by (auto simp: append_accepts_def max_def)
next
  case (mismatch r l')
  note H = hear_leader_ok [OF assms(1) mismatch(1), of now "aq_leader_id q"]
  obtain r' st' where "on_append_entries_request V now q st = Inr (r', st')" "node_ok V inv st'"
    using append_request_ok [OF assms] by metis
  with mismatch H show ?thesis by (auto simp: append_accepts_def max_def)
next
  case (success r l' st1)
  note H = hear_leader_ok [OF assms(1) success(1), of now "aq_leader_id q", folded success(4)]
  then have I: "inv (rlog st1)" by (simp add: node_ok_def)
  with append_loop_merge [OF this, of "aq_prev_log_index q" "aq_entries q"] success(2,5) H assms(2)
  have l': "inv l'" "start_index V l' = start_index V (rlog st)" "ents l' = append_merged V ents q (rlog st)"
    by (auto simp: idx_order log_room_def append_merged_def Let_def)
  obtain r' st' where st': "on_append_entries_request V now q st = Inr (r', st')" "node_ok V inv st'"
    using append_request_ok [OF assms] by metis
  have "append_accepts V ents q st" using success(1-3) by (simp add: append_accepts_def)
  with st' success(1,6-9) l' H show ?thesis by (auto simp: max_def)
qed

lemma append_merged_length:
  assumes "inv l" "aq_prev_log_index q \<le> last_index V l" "start_index V l \<le> aq_prev_log_index q + 1"
  shows "unat (aq_prev_log_index q) + length (aq_entries q) < unat (start_index V l) + length (append_merged V ents q l)"
proof -
  have bound: "unat (aq_prev_log_index q) < 2 ^ 64 - 1" using assms(1,2) last_bound [OF assms(1)] by (simp add: idx_order)
  have s: "unat (start_index V l) \<le> Suc (unat (aq_prev_log_index q))"
    using assms(3) bound by (simp add: idx_order unat_inc less_max_u64)
  let ?k = "Suc (unat (aq_prev_log_index q)) - unat (start_index V l)"
  have k: "?k \<le> length (ents l)" using last_eq [OF assms(1)] assms(2) by (simp add: idx_order)
  have "length (append_merged V ents q l) = ?k + length (merge_ents (drop ?k (ents l)) (aq_entries q))"
    using s k by (simp add: append_merged_def Let_def)
  with s length_merge_ents [of "aq_entries q" "drop ?k (ents l)"] show ?thesis by linarith
qed

text \<open>The entries up to the previous index stay, and the received entries are there by index and term.\<close>

lemma append_merged_prefix:
  assumes "inv l" "unat (start_index V l) \<le> i" "i \<le> unat (aq_prev_log_index q)" "aq_prev_log_index q \<le> last_index V l"
  shows "append_merged V ents q l ! (i - unat (start_index V l)) = ents l ! (i - unat (start_index V l))"
    "i - unat (start_index V l) < length (append_merged V ents q l)"
proof -
  let ?k = "Suc (unat (aq_prev_log_index q)) - unat (start_index V l)"
  have "?k \<le> length (ents l)" "i - unat (start_index V l) < ?k"
    using last_eq [OF assms(1)] assms by (simp_all add: idx_order)
  then show "append_merged V ents q l ! (i - unat (start_index V l)) = ents l ! (i - unat (start_index V l))"
    "i - unat (start_index V l) < length (append_merged V ents q l)"
    by (simp_all add: append_merged_def Let_def nth_append trans_less_add1)
qed

lemma append_merged_terms:
  assumes "inv l" "aq_prev_log_index q \<le> last_index V l" "n < length (aq_entries q)"
    and "unat (start_index V l) \<le> Suc (unat (aq_prev_log_index q) + n)"
  shows "e_term (append_merged V ents q l ! (Suc (unat (aq_prev_log_index q) + n) - unat (start_index V l))) =
    e_term (aq_entries q ! n)"
proof -
  let ?p = "unat (aq_prev_log_index q)" and ?s = "unat (start_index V l)"
  let ?k = "Suc ?p - ?s" and ?j = "?s - Suc ?p"
  have k: "?k \<le> length (ents l)" using last_eq [OF assms(1)] assms(2) by (simp add: idx_order)
  have i: "\<not> Suc (?p + n) - ?s < ?k" "Suc (?p + n) - (?s + ?k) = n - ?j" using assms(4) by linarith+
  from k have "append_merged V ents q l ! (Suc (?p + n) - ?s) = merge_ents (drop ?k (ents l)) (drop ?j (aq_entries q)) ! (n - ?j)"
    using assms(4) by (simp add: append_merged_def Let_def nth_append i)
  moreover have "n - ?j < length (drop ?j (aq_entries q))" using assms(3,4) by auto
  ultimately have "e_term (append_merged V ents q l ! (Suc (?p + n) - ?s)) = e_term (drop ?j (aq_entries q) ! (n - ?j))"
    by (simp only: merge_ents_term)
  then show ?thesis using assms(3,4) by simp
qed

lemma append_merged_in_range:
  assumes "inv l" "aq_prev_log_index q \<le> last_index V l" "n < length (aq_entries q)"
    and "unat (start_index V l) \<le> Suc (unat (aq_prev_log_index q) + n)"
  shows "Suc (unat (aq_prev_log_index q) + n) - unat (start_index V l) < length (append_merged V ents q l)"
proof -
  let ?p = "unat (aq_prev_log_index q)" and ?s = "unat (start_index V l)"
  let ?k = "Suc ?p - ?s" and ?j = "?s - Suc ?p"
  have k: "?k \<le> length (ents l)" using last_eq [OF assms(1)] assms(2) by (simp add: idx_order)
  have "length (append_merged V ents q l) = ?k + length (merge_ents (drop ?k (ents l)) (drop ?j (aq_entries q)))"
    using k by (simp add: append_merged_def Let_def)
  moreover have "length (aq_entries q) - ?j \<le> length (merge_ents (drop ?k (ents l)) (drop ?j (aq_entries q)))"
    using length_merge_ents [of "drop ?j (aq_entries q)"] by simp
  ultimately show ?thesis using assms(3,4) by linarith
qed

text \<open>The log never ends before the previous index.\<close>

lemma append_merged_covers:
  assumes "inv l" "aq_prev_log_index q \<le> last_index V l"
  shows "unat (aq_prev_log_index q) + 1 \<le> unat (start_index V l) + length (append_merged V ents q l)"
proof -
  let ?k = "Suc (unat (aq_prev_log_index q)) - unat (start_index V l)"
  have "?k \<le> length (ents l)" using last_eq [OF assms(1)] assms(2) by (simp add: idx_order)
  then have "?k \<le> length (append_merged V ents q l)" by (simp add: append_merged_def Let_def)
  then show ?thesis by linarith
qed

text \<open>Merging a second time changes nothing.\<close>

lemma append_merged_idem:
  assumes "inv l" "inv l'" "aq_prev_log_index q \<le> last_index V l" "start_index V l' = start_index V l"
    and "ents l' = append_merged V ents q l"
  shows "append_merged V ents q l' = ents l'"
proof -
  let ?k = "Suc (unat (aq_prev_log_index q)) - unat (start_index V l)"
  have "?k \<le> length (ents l)" using last_eq [OF assms(1)] assms(3) by (simp add: idx_order)
  then have "length (take ?k (ents l)) = ?k" by simp
  then show ?thesis
    by (simp add: append_merged_def assms(4,5) Let_def merge_ents_idem)
qed

end

end
