(* ===== verification/Node_Steps.thy ===== *)
theory Node_Steps
  imports Append_Results
begin

text \<open>
  One summary for everything a node does. \<open>kept\<close> says that a step keeps the log and the saved vote
  sound, does not change the configuration, is quiet, and sends vote requests only in its own name.
  The exceptions are the start of an election (\<open>elected\<close>) and the counting of a granted vote
  (\<open>counted\<close>).
\<close>

definition sends :: "('l, 's) raft \<Rightarrow> ('l, 's) raft \<Rightarrow> bool" where
  "sends st st' \<longleftrightarrow>
     (\<exists>ms. outbox st' = outbox st @ ms \<and>
        (\<forall>k q. (k, RequestVote q) \<in> set ms \<longrightarrow> vq_candidate_id q = c_id (context_of st)))"

definition kept :: "'l LogIf \<Rightarrow> ('l \<Rightarrow> bool) \<Rightarrow> ('l, 's) raft \<Rightarrow> ('l, 's) raft \<Rightarrow> bool" where
  "kept V linv st st' \<longleftrightarrow>
     node_ok V linv st' \<and> same_cfg st st' \<and> sends st st' \<and> quiet (context_of st) (context_of st')"

definition elected :: "ctx \<Rightarrow> ctx \<Rightarrow> bool" where
  "elected c c' \<longleftrightarrow>
     c_id c' = c_id c \<and> c_term c < c_term c' \<and> voted_for c' = c_id c \<and> quorum_granted c' = {c_id c} \<and>
     role c' = kCandidate"

definition counted :: "vote_response \<Rightarrow> ('l, 's) raft \<Rightarrow> ('l, 's) raft \<Rightarrow> bool" where
  "counted r st st' \<longleftrightarrow>
     (let c = context_of st; c' = context_of st' in
      c_id c' = c_id c \<and> c_term c' = c_term c \<and> voted_for c' = voted_for c \<and>
      role c = kCandidate \<and> role c' \<noteq> kFollower \<and> vr_vote_granted r \<and> vr_term r = c_term c \<and>
      (\<exists>p. map_of (peer_set st) (vr_peer_id r) = Some p \<and> quorum_granted c' = insert (p_id p) (quorum_granted c)) \<and>
      (role c' = kLeader \<longrightarrow> card (quorum_granted c') > (length (o_members (opt st)) + 1) div 2))"

lemma sends_same: "outbox st' = outbox st \<Longrightarrow> sends st st'"
  by (simp add: sends_def)

lemma sends_refl [simp]: "sends st st"
  by (simp add: sends_def)

lemma sends_trans:
  assumes "sends a b" "sends b c" "c_id (context_of b) = c_id (context_of a)"
  shows "sends a c"
proof -
  obtain ms ns where "outbox b = outbox a @ ms" "outbox c = outbox b @ ns"
    "\<forall>k q. (k, RequestVote q) \<in> set ms \<longrightarrow> vq_candidate_id q = c_id (context_of a)"
    "\<forall>k q. (k, RequestVote q) \<in> set ns \<longrightarrow> vq_candidate_id q = c_id (context_of b)"
    using assms(1,2) by (auto simp: sends_def)
  with assms(3) show ?thesis unfolding sends_def by (intro exI [of _ "ms @ ns"]) auto
qed

lemma kept_refl: "node_ok V linv st \<Longrightarrow> kept V linv st st"
  by (simp add: kept_def)

lemma kept_trans: "kept V linv a b \<Longrightarrow> kept V linv b c \<Longrightarrow> kept V linv a c"
  unfolding kept_def by (metis quiet_def quiet_trans same_cfg_trans sends_trans)

lemma keptD:
  assumes "kept V linv st st'"
  shows "node_ok V linv st'" "same_cfg st st'" "sends st st'" "quiet (context_of st) (context_of st')"
  using assms by (simp_all add: kept_def)

lemma keptI:
  "node_ok V linv st' \<Longrightarrow> quiet (context_of st) (context_of st') \<Longrightarrow> same_cfg st st' \<Longrightarrow> outbox st' = outbox st \<Longrightarrow>
     kept V linv st st'"
  by (simp add: kept_def sends_def)

text \<open>Changes that leave term, vote, role, configuration and log alone.\<close>

lemma kept_frame:
  assumes "node_ok V linv st" "rlog st' = rlog st" "same_cfg st st'" "sends st st'"
    and "c_id (context_of st') = c_id (context_of st)" "c_term (context_of st') = c_term (context_of st)"
      "voted_for (context_of st') = voted_for (context_of st)" "role (context_of st') = role (context_of st)"
      "quorum_granted (context_of st') = quorum_granted (context_of st)"
  shows "kept V linv st st'"
  using assms by (simp add: kept_def node_ok_def vote_saved_def quiet_def)

lemma send_raft_RPC_fields [simp]:
  "context_of (send_raft_RPC k m st) = context_of st" "peer_set (send_raft_RPC k m st) = peer_set st"
  "opt (send_raft_RPC k m st) = opt st" "rlog (send_raft_RPC k m st) = rlog st"
  "outbox (send_raft_RPC k m st) = outbox st @ [(k, m)]"
  by (simp_all add: send_raft_RPC_def)

lemma send_request_vote_frame:
  "context_of (send_request_vote V st) = context_of st \<and> peer_set (send_request_vote V st) = peer_set st \<and>
   opt (send_request_vote V st) = opt st \<and> rlog (send_request_vote V st) = rlog st \<and> sends st (send_request_vote V st)"
proof -
  have "context_of (fold f ps st) = context_of st \<and> peer_set (fold f ps st) = peer_set st \<and>
      opt (fold f ps st) = opt st \<and> rlog (fold f ps st) = rlog st \<and> sends st (fold f ps st)"
    if "f = (\<lambda>(k, p). send_raft_RPC (p_id p) (RequestVote q))" "vq_candidate_id q = c_id (context_of st)"
    for q f and ps :: peers
    using that(2)
  proof (induction ps arbitrary: st)
    case (Cons x ps)
    obtain k p where x: "x = (k, p)" by (cases x)
    let ?s = "send_raft_RPC (p_id p) (RequestVote q) st"
    have "sends st ?s" using Cons.prems by (simp add: sends_def)
    with Cons.IH [of ?s] Cons.prems show ?case
      by (auto simp: x that(1) intro: sends_trans)
  qed simp
  then show ?thesis by (simp add: send_request_vote_def split_beta Let_def)
qed

context log_if
begin

lemma send_install_snapshot_kept:
  assumes "node_ok V inv st" "send_install_snapshot V S p st = Inr (x, st')"
  shows "kept V inv st st'"
  using assms
  by (intro kept_frame)
    (auto simp: send_install_snapshot_def StateMachine_load_snapshot_def same_cfg_def sends_def Let_def
      split: option.splits if_splits)

lemma send_append_entries_to_kept:
  assumes "node_ok V inv st" "send_append_entries_to V S p st = Inr (x, st')"
  shows "kept V inv st st'"
proof -
  consider "st' = st" | y where "send_install_snapshot V S p st = Inr (y, st')"
    | q where "st' = send_raft_RPC (p_id p) (AppendEntries q) st"
    using assms(2)
    by (auto simp: send_append_entries_to_def Let_def res_bind_Inr_iff split: option.splits if_splits prod.splits)
  then show ?thesis
  proof cases
    case 3
    with assms show ?thesis by (intro kept_frame) (simp_all add: same_cfg_def sends_def)
  qed (use assms send_install_snapshot_kept kept_refl in blast)+
qed

lemma send_append_entries_kept:
  assumes "node_ok V inv st" "send_append_entries_all V S ps st = Inr st'"
  shows "kept V inv st st'"
  using assms
proof (induction ps arbitrary: st)
  case (Cons kp ps)
  obtain k p where kp: "kp = (k, p)" by (cases kp)
  with Cons.prems obtain x s where s: "send_append_entries_to V S p st = Inr (x, s)"
      "send_append_entries_all V S ps s = Inr st'"
    by (auto simp: res_bind_Inr_iff)
  have k: "kept V inv st s" by (rule send_append_entries_to_kept [OF Cons.prems(1) s(1)])
  show ?case by (rule kept_trans [OF k Cons.IH [OF keptD(1) [OF k] s(2)]])
qed (simp add: kept_refl)

subsection \<open>Requests\<close>

lemma vote_request_kept:
  assumes "node_ok V inv st" "on_request_vote_request V now q st = (r, st')"
  shows "kept V inv st st'"
  using request_vote_ok [OF assms] by (intro keptI)

lemma append_request_kept:
  assumes "node_ok V inv st" "log_room V (length (aq_entries q)) st" "on_append_entries_request V now q st = Inr (r, st')"
  shows "kept V inv st st'"
proof -
  obtain r' s where "on_append_entries_request V now q st = Inr (r', s)" "node_ok V inv s"
    "quiet (context_of st) (context_of s)" "same_cfg st s" "outbox s = outbox st"
    by (rule append_request_ok [OF assms(1,2)])
  with assms(3) show ?thesis by (auto intro: keptI)
qed

lemma install_request_kept:
  assumes "node_ok V inv st" "on_install_snapshot_request V S P now q st = (ret, r, st')"
  shows "kept V inv st st'"
  using install_request_ok [OF assms] by (intro keptI)

subsection \<open>Responses\<close>

lemma step_down_kept:
  assumes "node_ok V inv st" "c_term (context_of st) < t"
  shows "kept V inv st (step_down V t k st)"
  using assms
  by (intro keptI)
    (auto simp: step_down_def Let_def node_ok_def set_ctx_log_def become_follower_def same_cfg_def quiet_def
      vote_saved_def meta_empty_def)

lemma vote_response_kept:
  assumes "node_ok V inv st" "log_room V 1 st" "on_request_vote_response_async V now r st = Inr (x, st')"
  shows "node_ok V inv st' \<and> same_cfg st st' \<and> outbox st' = outbox st \<and>
    (quiet (context_of st) (context_of st') \<or> counted r st st')"
proof -
  consider "c_term (context_of st) < vr_term r" | "vr_term r < c_term (context_of st)" | p where
      "vr_term r = c_term (context_of st)" "map_of (peer_set st) (vr_peer_id r) = Some p"
    using assms(3) by (cases "c_term (context_of st)" "vr_term r" rule: linorder_cases)
      (auto simp: on_request_vote_response_async_def split: option.splits)
  then show ?thesis
  proof cases
    case 1
    then have "st' = step_down V (vr_term r) (vr_peer_id r) st"
      using assms(3) by (simp add: on_request_vote_response_async_def)
    with step_down_kept [OF assms(1) 1, of "vr_peer_id r"] show ?thesis
      by (auto simp: kept_def step_down_def set_ctx_log_def Let_def)
  next
    case 2
    then have "\<not> c_term (context_of st) < vr_term r" by simp
    with 2 have "st' = st" using assms(3) by (simp add: on_request_vote_response_async_def)
    with assms(1) show ?thesis by simp
  next
    case 3
    have I: "inv (rlog st)" "vote_saved V (context_of st) (rlog st)" using assms(1) by (simp_all add: node_ok_def)
    have A: "inv (snd (append V (rlog st) [e]))" "meta_data V (snd (append V (rlog st) [e])) = meta_data V (rlog st)" for e
      using append_spec [OF I(1), of "[e]"] assms(2) by (auto simp: log_room_def)
    have ids: "map (\<lambda>(k, p). (k, p_id p)) (map (\<lambda>(k, p). (k, p\<lparr>next_index := n, match_index := 0\<rparr>)) ps) =
        map (\<lambda>(k, p). (k, p_id p)) ps" for n and ps :: peers
      by (induction ps) auto
    let ?st1 = "st\<lparr>peer_set := peer_update (vr_peer_id r) (\<lambda>p. p\<lparr>latest_epoch := vr_epoch r\<rparr>) (peer_set st)\<rparr>"
    let ?c = "(context_of st)\<lparr>quorum_granted := insert (p_id p) (quorum_granted (context_of st))\<rparr>"
    have st1: "node_ok V inv ?st1" "same_cfg st ?st1" "outbox ?st1 = outbox st" "context_of ?st1 = context_of st"
      using I by (simp_all add: node_ok_def same_cfg_def peer_update_p_ids)
    show ?thesis
    proof (cases "role (context_of st) = kCandidate \<and> vr_vote_granted r")
      case False
      then have "st' = ?st1" using assms(3) 3 by (auto simp: on_request_vote_response_async_def Let_def)
      with st1 show ?thesis by simp
    next
      case cand: True
      show ?thesis
      proof (cases "quorum_count ?c > (length (o_members (opt st)) + 1) div 2")
        case False
        then have "st' = ?st1\<lparr>context_of := ?c\<rparr>"
          using assms(3) 3 cand by (simp add: on_request_vote_response_async_def Let_def)
        with st1 I 3 cand show ?thesis
          by (simp add: node_ok_def vote_saved_def same_cfg_def counted_def)
      next
        case True
        then have "context_of st' = become_leader ?c" "rlog st' = snd (append V (rlog st) [noop_entry (c_term ?c)])"
          "opt st' = opt st" "outbox st' = outbox st"
          "map (\<lambda>(k, p). (k, p_id p)) (peer_set st') = map (\<lambda>(k, p). (k, p_id p)) (peer_set st)"
          using assms(3) 3 cand by (auto simp: on_request_vote_response_async_def Let_def ids peer_update_p_ids simp del: map_map)
        with True I A 3 cand show ?thesis
          by (simp add: node_ok_def vote_saved_def same_cfg_def counted_def quorum_count_def)
      qed
    qed
  qed
qed

lemma try_advance_commit_kept:
  assumes "node_ok V inv st" "try_advance_commit V st = Inr (x, st')"
  shows "kept V inv st st'"
proof -
  have I: "inv (rlog st)" using assms(1) by (simp add: node_ok_def)
  consider "st' = st" | n where "st' = st\<lparr>context_of := (context_of st)\<lparr>commit_index := n\<rparr>,
      rlog := snd (set_meta_commit_index V (rlog st) n)\<rparr>"
    using assms(2) unfolding try_advance_commit_def res_bind_Inr_iff by (auto simp: res_bind_Inr_iff split: if_splits)
  then show ?thesis
  proof cases
    case 1
    with assms(1) show ?thesis by (simp add: kept_refl)
  next
    case 2
    with assms(1) I show ?thesis by (intro keptI) (simp_all add: node_ok_def vote_saved_def same_cfg_def quiet_def)
  qed
qed

lemma peer_update_kept:
  assumes "node_ok V inv st" "\<And>p. p_id (f p) = p_id p"
  shows "kept V inv st (st\<lparr>peer_set := peer_update k f (peer_set st)\<rparr>)"
  using assms by (intro kept_frame) (simp_all add: same_cfg_def sends_def peer_update_p_ids)

lemma append_response_kept:
  fixes st :: "('l, 's) raft"
  assumes "node_ok V inv st" "on_append_entries_response_async V S r st = Inr (x, st')"
  shows "kept V inv st st'"
proof -
  let ?upd = "\<lambda>f s. s\<lparr>peer_set := peer_update (ar_peer_id r) f (peer_set s)\<rparr> :: ('l, 's) raft"
  let ?st1 = "?upd (\<lambda>p. p\<lparr>latest_epoch := ar_epoch r\<rparr>) st"
  have k1: "kept V inv st ?st1" by (rule peer_update_kept [OF assms(1)]) simp
  have k2: "kept V inv st (?upd f ?st1)" if "\<And>p. p_id (f p) = p_id p" for f
    using kept_trans [OF k1 peer_update_kept [OF keptD(1) [OF k1]]] that by blast
  consider "c_term (context_of st) < ar_term r" "st' = step_down V (ar_term r) (ar_peer_id r) st" | "st' = st"
    | "try_advance_commit V (?upd (\<lambda>p. p\<lparr>match_index := ar_last_log_index r, next_index := ar_last_log_index r + 1\<rparr>) ?st1)
         = Inr (x, st')"
    | s p' y where "s = ?st1 \<or> s = ?upd (\<lambda>p. p\<lparr>next_index := ar_last_log_index r + 1\<rparr>) ?st1"
        "send_append_entries_to V S p' s = Inr (y, st')"
    using assms(2)
    by (auto simp: on_append_entries_response_async_def Let_def res_bind_Inr_iff split: option.splits if_splits)
  then show ?thesis
  proof cases
    case 1
    then show ?thesis using step_down_kept [OF assms(1)] by simp
  next
    case 2
    then show ?thesis using assms(1) by (simp add: kept_refl)
  next
    case 3
    let ?f = "\<lambda>p. p\<lparr>match_index := ar_last_log_index r, next_index := ar_last_log_index r + 1\<rparr> :: peer"
    have "kept V inv st (?upd ?f ?st1)" by (rule k2) simp
    with 3 show ?thesis using try_advance_commit_kept keptD(1) kept_trans by blast
  next
    case 4
    have "kept V inv st s" using 4(1) k1 k2 [of "\<lambda>p. p\<lparr>next_index := ar_last_log_index r + 1\<rparr>"] by auto
    with 4(2) show ?thesis using send_append_entries_to_kept keptD(1) kept_trans by blast
  qed
qed

lemma install_response_kept:
  fixes st :: "('l, 's) raft"
  assumes "node_ok V inv st" "on_install_snapshot_response_async V r st = Inr (x, st')"
  shows "kept V inv st st'"
proof -
  let ?upd = "\<lambda>f s. s\<lparr>peer_set := peer_update (ir_peer_id r) f (peer_set s)\<rparr> :: ('l, 's) raft"
  let ?st1 = "?upd (\<lambda>p. p\<lparr>latest_epoch := ir_epoch r\<rparr>) st"
  let ?f = "\<lambda>p. p\<lparr>match_index := last_included_index (context_of st),
    next_index := last_included_index (context_of st) + 1\<rparr> :: peer"
  have k1: "kept V inv st ?st1" by (rule peer_update_kept [OF assms(1)]) simp
  have "kept V inv ?st1 (?upd ?f ?st1)" by (rule peer_update_kept [OF keptD(1) [OF k1]]) simp
  then have k2: "kept V inv st (?upd ?f ?st1)" by (rule kept_trans [OF k1])
  consider "c_term (context_of st) < ir_term r" "st' = step_down V (ir_term r) (ir_peer_id r) st" | "st' = ?st1"
    | "try_advance_commit V (?upd ?f ?st1) = Inr (x, st')"
    using assms(2)
    by (auto simp: on_install_snapshot_response_async_def Let_def split: option.splits if_splits)
  then show ?thesis
  proof cases
    case 1
    then show ?thesis using step_down_kept [OF assms(1)] by simp
  next
    case 2
    then show ?thesis using k1 by simp
  next
    case 3
    then show ?thesis using try_advance_commit_kept keptD(1) [OF k2] kept_trans [OF k2] by blast
  qed
qed

subsection \<open>The periodic thread\<close>

lemma main_thread_check_kept:
  assumes "node_ok V inv st" "main_thread_check now st = (a, st')"
  shows "kept V inv st st'"
  using assms
  by (intro kept_frame) (auto simp: main_thread_check_def same_cfg_def sends_def Let_def split: role.splits prod.splits)

lemma main_thread_act_kept:
  assumes "node_ok V inv st" "c_term (context_of st) \<noteq> - 1" "main_thread_act V S now a st = Inr st'"
  shows "node_ok V inv st' \<and> same_cfg st st' \<and> sends st st' \<and>
    (quiet (context_of st) (context_of st') \<or> elected (context_of st) (context_of st'))"
proof (cases a)
  case Heartbeat
  then obtain st1 where s: "send_append_entries_all V S (peer_set st) st = Inr st1"
      "st' = st1\<lparr>heartbeat_timer := schedule now (heartbeat_timer st1)\<rparr>"
    using assms(3) by (auto simp: main_thread_act_def send_append_entries_def res_bind_Inr_iff)
  have k: "kept V inv st st1" by (rule send_append_entries_kept [OF assms(1) s(1)])
  have "kept V inv st1 st'"
    using keptD(1) [OF k] by (intro kept_frame) (simp_all add: s(2) same_cfg_def sends_def)
  with k have "kept V inv st st'" by (rule kept_trans)
  then show ?thesis by (simp add: kept_def)
next
  case Campaign
  let ?c = "become_candidate V (context_of st) (rlog st)"
  let ?cand = "set_ctx_log ?c st"
  have st': "st' = (send_request_vote V ?cand)\<lparr>election_timer := schedule now (election_timer (send_request_vote V ?cand))\<rparr>"
    using assms(3) Campaign by (simp add: main_thread_act_def Let_def)
  have "node_ok V inv ?cand"
    using become_candidate_saved [of "rlog st" "context_of st"] assms(1) by (simp add: node_ok_def set_ctx_log_def)
  moreover have "c_term (context_of st) < c_term (fst ?c)"
    using assms(2) by (simp add: ctx_simps idx_order unat_inc)
  moreover have "sends st st'"
    using send_request_vote_frame [of V ?cand] st' by (auto simp: sends_def set_ctx_log_def ctx_simps)
  ultimately show ?thesis
    using send_request_vote_frame [of V ?cand] st'
    by (auto simp: node_ok_def same_cfg_def elected_def set_ctx_log_def ctx_simps)
qed

subsection \<open>Client operations and the apply thread\<close>

lemma modify_append_kept:
  assumes "node_ok V inv st" "log_room V 1 st" "modify_append V e st = (x, st')"
  shows "kept V inv st st'"
proof -
  have "inv (rlog st)" using assms(1) by (simp add: node_ok_def)
  then have "inv (snd (append V (rlog st) [e]))" "meta_data V (snd (append V (rlog st) [e])) = meta_data V (rlog st)"
    using append_spec [of "rlog st" "[e]"] assms(2) by (auto simp: log_room_def)
  then show ?thesis
    using assms(1,3)
    by (intro keptI) (auto simp: modify_append_def Let_def node_ok_def vote_saved_def same_cfg_def)
qed

lemma query_begin_kept:
  assumes "node_ok V inv st" "query_begin cmd st = (x, st')"
  shows "kept V inv st st'"
  using assms by (intro kept_frame) (auto simp: query_begin_def inc_epoch_def same_cfg_def sends_def split: if_splits)

lemma modify_finish_kept:
  assumes "node_ok V inv st" "modify_finish P i st = (x, st')"
  shows "kept V inv st st'"
  using assms
  by (intro kept_frame) (auto simp: modify_finish_def same_cfg_def sends_def split: if_splits prod.splits)

lemma snapshot_create_kept:
  assumes "node_ok V inv st" "snapshot_create V S st = (x, st')"
  shows "kept V inv st st'"
  using assms
  by (intro kept_frame) (auto simp: snapshot_create_def same_cfg_def sends_def Let_def split: prod.splits)

lemma snapshot_trim_kept:
  assumes "node_ok V inv st"
  shows "kept V inv st (snapshot_trim V idx trm st)"
proof -
  have "inv (rlog st)" using assms by (simp add: node_ok_def)
  then show ?thesis
    using assms by (intro keptI) (simp_all add: snapshot_trim_def node_ok_def vote_saved_def same_cfg_def quiet_def)
qed

lemma apply_step_kept:
  assumes "node_ok V inv st" "state_machine_loop_step V S P st = Inr (x, st')"
  shows "kept V inv st st'"
proof -
  have I: "inv (rlog st)" using assms(1) by (simp add: node_ok_def)
  obtain c sm l kv where run: "sm_step V S P (machine st) (rlog st) (kv_store st) = Inr (c, sm, l, kv)"
    and st': "st' = st\<lparr>machine := sm, rlog := l, kv_store := kv\<rparr>"
    using assms(2) by (auto simp: state_machine_loop_step_def res_bind_Inr_iff)
  have "l = rlog st \<or> (\<exists>i. l = snd (set_meta_apply_index V (rlog st) i))"
    using run by (auto simp: sm_step_def Let_def res_bind_Inr_iff split: if_splits)
  then show ?thesis
    using I assms(1) by (intro keptI) (auto simp: st' node_ok_def vote_saved_def same_cfg_def)
qed

subsection \<open>Restart\<close>

lemma init_running:
  assumes "inv l" "RaftConsensus_init V now rnd o0 l kv = Inr (Running st)"
  shows "node_ok V inv st" "context_of st = (load_context V (o_id o0) l)"
    "o_id (opt st) = o_id o0" "o_members (opt st) = o_members o0"
    "map (\<lambda>(k, p). (k, p_id p)) (peer_set st) = map (\<lambda>m. (fst m, fst m)) (o_members o0)"
    "outbox st = []"
proof -
  obtain o2 :: raft_option and sm c' l2 where st: "context_of st = c'" "rlog st = l2" "opt st = o2" "outbox st = []"
      "peer_set st = map (\<lambda>(i, addr, port). (i, Peer i addr port)) (o_members o2)"
    and o2: "o_id o2 = o_id o0" "o_members o2 = o_members o0"
    and cl: "(c', l2) = become_follower V (c_term (load_context V (o_id o0) l)) (load_context V (o_id o0) l)
        (update_meta V (load_context V (o_id o0) l) l)"
    using assms(2)
    by (auto simp: RaftConsensus_init_def Let_def split: if_splits prod.splits)
  have role: "role (load_context V (o_id o0) l) = kFollower"
    by (simp add: load_context_def Let_def Context_def)
  then have c: "c' = load_context V (o_id o0) l" "l2 = update_meta V (load_context V (o_id o0) l) l"
    using cl by (simp_all add: become_follower_def)
  show "node_ok V inv st" using assms(1) by (simp add: node_ok_def st c)
  show "context_of st = (load_context V (o_id o0) l)"
    "o_id (opt st) = o_id o0" "o_members (opt st) = o_members o0" "outbox st = []"
    by (simp_all add: st c o2)
  show "map (\<lambda>(k, p). (k, p_id p)) (peer_set st) = map (\<lambda>m. (fst m, fst m)) (o_members o0)"
    by (simp add: st o2 Peer_def split_beta)
qed

lemma init_starts:
  assumes "inv l" "validate (o0\<lparr>o_withhold_votes_ms := o_election_timeout_ms o0\<rparr>)" "\<not> o_bootstrap o0"
    and "meta_apply_index V l \<le> meta_commit_index V l"
  shows "\<exists>st. RaftConsensus_init V now rnd o0 l kv = Inr (Running st)"
proof -
  have "\<not> meta_commit_index V (update_meta V c l) < meta_apply_index V (update_meta V c l)" for c
    using assms(1,4) by (simp add: commit_of_meta apply_of_meta not_less)
  then show ?thesis
    using assms(2,3) by (simp add: RaftConsensus_init_def Let_def StateMachine_init_def split_beta)
qed

lemma init_running_ents:
  assumes "inv l" "RaftConsensus_init V now rnd o0 l kv = Inr (Running st)"
  shows "ents (rlog st) = ents l"
proof -
  have role: "role (load_context V (o_id o0) l) = kFollower"
    by (simp add: load_context_def Let_def Context_def)
  have "rlog st = snd (become_follower V (c_term (load_context V (o_id o0) l)) (load_context V (o_id o0) l)
      (update_meta V (load_context V (o_id o0) l) l))"
    using assms(2) by (auto simp: RaftConsensus_init_def Let_def split: if_splits prod.splits)
  then have "rlog st = update_meta V (load_context V (o_id o0) l) l"
    by (simp add: become_follower_def)
  with assms(1) show ?thesis by simp
qed

text \<open>
  A node that comes up again on the log it wrote is where it was: same term, same vote, and it is a
  follower.
\<close>

lemma restart_quiet:
  assumes "node_ok V inv st" "o_id o0 = c_id (context_of st)"
    and "inv l" "meta_data V l = meta_data V (rlog st)" "RaftConsensus_init V now rnd o0 l kv = Inr (Running st')"
  shows "node_ok V inv st'" "quiet (context_of st) (context_of st')" "outbox st' = []"
proof -
  note I = init_running [OF assms(3,5)]
  show "node_ok V inv st'" "outbox st' = []" using I by simp_all
  have "vote_saved V (context_of st) l" using assms(1,4) by (simp add: node_ok_def vote_saved_def)
  then show "quiet (context_of st) (context_of st')"
    using assms(2) I(2) by (auto simp: quiet_def load_context_def Let_def vote_saved_def Context_def)
qed

end

end
