(* ===== verification/Majority.thy ===== *)
theory Majority
  imports Consensus_Ops
begin

text \<open>
  The order statistic behind \<^verbatim>\<open>advance_commit_index\<close> and \<^verbatim>\<open>advance_epoch\<close>: the element in the middle of
  the sorted values is the largest value that more than half of them reach.
\<close>

lemma sorted_nth_count:
  "sorted xs \<Longrightarrow> i < length xs \<Longrightarrow> m \<le> xs ! i \<longleftrightarrow> length (filter (\<lambda>x. x < m) xs) \<le> i"
proof (induction xs arbitrary: i)
  case (Cons x xs)
  show ?case
  proof (cases "x < m")
    case True
    with Cons show ?thesis by (cases i) auto
  next
    case False
    then have "filter (\<lambda>x. x < m) (x # xs) = []" using Cons.prems(1) by (auto simp: filter_empty_conv)
    moreover have "x \<le> (x # xs) ! i" using Cons.prems by (cases i) auto
    ultimately show ?thesis using False by auto
  qed
qed simp

lemma middle_majority:
  fixes xs :: "'a :: linorder list"
  assumes "xs \<noteq> []"
  shows "m \<le> sort xs ! ((length xs - 1) div 2) \<longleftrightarrow> length (filter (\<lambda>x. m \<le> x) xs) > length xs div 2"
proof -
  let ?n = "length xs" and ?i = "(length xs - 1) div 2"
  have n: "0 < ?n" using assms by simp
  have "length (filter (\<lambda>x. x < m) (sort xs)) = length (filter (\<lambda>x. x < m) xs)"
    by (simp add: filter_sort)
  moreover have "?i < length (sort xs)" using n by (simp only: length_sort)
  ultimately have "m \<le> sort xs ! ?i \<longleftrightarrow> length (filter (\<lambda>x. x < m) xs) \<le> ?i"
    using sorted_nth_count [of "sort xs" ?i m] by simp
  moreover have "length (filter (\<lambda>x. m \<le> x) xs) + length (filter (\<lambda>x. x < m) xs) = ?n"
    using sum_length_filter_compl [of "\<lambda>x. m \<le> x" xs] by (simp add: not_le)
  ultimately show ?thesis using n by linarith
qed

lemma middle_at:
  fixes xs :: "'a :: linorder list"
  assumes "length xs = Suc k"
  shows "\<exists>n. vec_at (sort xs) ((k + 1 - 1) div 2) = Inr n \<and>
    (\<forall>m. m \<le> n \<longleftrightarrow> length (filter (\<lambda>x. m \<le> x) xs) > (k + 1) div 2)"
proof -
  have ne: "xs \<noteq> []" using assms by auto
  have "vec_at (sort xs) ((k + 1 - 1) div 2) = Inr (sort xs ! (k div 2))" using assms by (simp add: vec_at_def)
  moreover have "m \<le> sort xs ! (k div 2) \<longleftrightarrow> length (filter (\<lambda>x. m \<le> x) xs) > (k + 1) div 2" for m
    using middle_majority [OF ne, of m] assms by simp
  ultimately show ?thesis by blast
qed

text \<open>Two majorities of the members share a member.\<close>

lemma majorities_meet:
  assumes "finite M" "A \<subseteq> M" "B \<subseteq> M" "card A > card M div 2" "card B > card M div 2"
  shows "A \<inter> B \<noteq> {}"
proof
  assume "A \<inter> B = {}"
  then have "card A + card B = card (A \<union> B)"
    using assms by (metis card_Un_disjoint finite_subset)
  also have "\<dots> \<le> card M" using assms by (simp add: card_mono)
  finally show False using assms(4,5) by linarith
qed

end
