(* ===== verification/Cluster.thy ===== *)
theory Cluster
  imports Node_Steps Majority
begin

text \<open>
  A cluster of nodes that exchange messages. A request or response that was sent can be delivered
  any number of times, in any order, or never; a response goes to the node whose request it
  answers. A step is one locked section of one node: the handling of a message, a part of the
  periodic thread or of a client operation, a pass of its apply thread, or a stop at any
  point followed by a start on the log that was written (\<open>reopen\<close>). What a thread has decided
  without the lock and will do under it is kept in \<open>pending\<close>, so that other steps may come in
  between. A handler that ends in a fault stops the node, so
  it makes no step, and the node may start again. The guards keep terms and indices below the
  largest 64-bit value.
\<close>

datatype pending_op = PTick tick_action | PAppend entry | PTrim u64 u64

record ('l, 's) cluster =
  nodes :: "u64 \<Rightarrow> ('l, 's) raft"
  requests :: "(u64 \<times> u64 \<times> raft_request) set"
  responses :: "(u64 \<times> raft_response) set"
  pending :: "(u64 \<times> pending_op) list"

definition set_node :: "u64 \<Rightarrow> ('l, 's) raft \<Rightarrow> ('l, 's) cluster \<Rightarrow> ('l, 's) cluster" where
  "set_node i st cl =
     cl\<lparr>nodes := (nodes cl)(i := st), requests := requests cl \<union> (\<lambda>(k, m). (i, k, m)) ` set (outbox st)\<rparr>"

definition add_response :: "u64 \<Rightarrow> raft_response \<Rightarrow> ('l, 's) cluster \<Rightarrow> ('l, 's) cluster" where
  "add_response j r cl = cl\<lparr>responses := insert (j, r) (responses cl)\<rparr>"

definition add_pending :: "u64 \<Rightarrow> pending_op option \<Rightarrow> ('l, 's) cluster \<Rightarrow> ('l, 's) cluster" where
  "add_pending i a cl = (case a of None \<Rightarrow> cl | Some op \<Rightarrow> cl\<lparr>pending := pending cl @ [(i, op)]\<rparr>)"

definition del_pending :: "u64 \<Rightarrow> pending_op \<Rightarrow> ('l, 's) cluster \<Rightarrow> ('l, 's) cluster" where
  "del_pending i a cl = cl\<lparr>pending := remove1 (i, a) (pending cl)\<rparr>"

definition drop_pending :: "u64 \<Rightarrow> ('l, 's) cluster \<Rightarrow> ('l, 's) cluster" where
  "drop_pending i cl = cl\<lparr>pending := filter (\<lambda>p. fst p \<noteq> i) (pending cl)\<rparr>"

text \<open>What a step does; the step relation carries it with the node that takes the step.\<close>

datatype event =
    ECheck | ETick tick_action | EVoteRequest | EAppendRequest | EInstallRequest
  | EVoteResponse | EAppendResponse append_response | EInstallResponse
  | EModifyBegin | EModifyAppend entry | EModifyFinish | EQueryBegin | ESnapshot | ETrim | EApply | ERestart

text \<open>The number whose bytes spell \<^verbatim>\<open>META_\<close>; a log is reopened below this index.\<close>

definition reopen_limit :: nat where
  "reopen_limit = 0x4D4554415F"

inductive cluster_step ::
    "'l LogIf \<Rightarrow> 's StoreIf \<Rightarrow> proto \<Rightarrow> ('l \<Rightarrow> 'l res) \<Rightarrow> u64 set \<Rightarrow> u64 \<Rightarrow> event \<Rightarrow>
       ('l, 's) cluster \<Rightarrow> ('l, 's) cluster \<Rightarrow> bool"
  for V :: "'l LogIf" and S :: "'s StoreIf" and P :: proto and reopen :: "'l \<Rightarrow> 'l res" and M :: "u64 set" where
  step_check: "i \<in> M \<Longrightarrow> main_thread_check now (nodes cl i) = (a, st) \<Longrightarrow>
     cluster_step V S P reopen M i ECheck cl (add_pending i (map_option PTick a) (set_node i st cl))"
| step_tick: "i \<in> M \<Longrightarrow> (i, PTick a) \<in> set (pending cl) \<Longrightarrow> c_term (context_of (nodes cl i)) \<noteq> - 1 \<Longrightarrow>
     main_thread_act V S now a (nodes cl i) = Inr st \<Longrightarrow>
     cluster_step V S P reopen M i (ETick a) cl (del_pending i (PTick a) (set_node i st cl))"
| step_vote_request: "i \<in> M \<Longrightarrow> (j, i, RequestVote q) \<in> requests cl \<Longrightarrow>
     on_request_vote_request V now q (nodes cl i) = (r, st) \<Longrightarrow>
     cluster_step V S P reopen M i EVoteRequest cl (add_response j (RequestVoteRsp r) (set_node i st cl))"
| step_append_request: "i \<in> M \<Longrightarrow> (j, i, AppendEntries q) \<in> requests cl \<Longrightarrow>
     log_room V (length (aq_entries q)) (nodes cl i) \<Longrightarrow>
     on_append_entries_request V now q (nodes cl i) = Inr (r, st) \<Longrightarrow>
     cluster_step V S P reopen M i EAppendRequest cl (add_response j (AppendEntriesRsp r) (set_node i st cl))"
| step_install_request: "i \<in> M \<Longrightarrow> (j, i, InstallSnapshot q) \<in> requests cl \<Longrightarrow>
     on_install_snapshot_request V S P now q (nodes cl i) = (ret, r, st) \<Longrightarrow>
     cluster_step V S P reopen M i EInstallRequest cl
       (if ret = 0 then add_response j (InstallSnapshotRsp r) (set_node i st cl) else set_node i st cl)"
| step_vote_response: "i \<in> M \<Longrightarrow> (i, RequestVoteRsp r) \<in> responses cl \<Longrightarrow> log_room V 1 (nodes cl i) \<Longrightarrow>
     on_request_vote_response_async V now r (nodes cl i) = Inr (x, st) \<Longrightarrow>
     cluster_step V S P reopen M i EVoteResponse cl (set_node i st cl)"
| step_append_response: "i \<in> M \<Longrightarrow> (i, AppendEntriesRsp r) \<in> responses cl \<Longrightarrow>
     on_append_entries_response_async V S r (nodes cl i) = Inr (x, st) \<Longrightarrow>
     cluster_step V S P reopen M i (EAppendResponse r) cl (set_node i st cl)"
| step_install_response: "i \<in> M \<Longrightarrow> (i, InstallSnapshotRsp r) \<in> responses cl \<Longrightarrow>
     on_install_snapshot_response_async V r (nodes cl i) = Inr (x, st) \<Longrightarrow>
     cluster_step V S P reopen M i EInstallResponse cl (set_node i st cl)"
| step_modify_begin: "i \<in> M \<Longrightarrow> modify_begin cmd (nodes cl i) = Some e \<Longrightarrow>
     cluster_step V S P reopen M i EModifyBegin cl (add_pending i (Some (PAppend e)) cl)"
| step_modify_append: "i \<in> M \<Longrightarrow> (i, PAppend e) \<in> set (pending cl) \<Longrightarrow> log_room V 1 (nodes cl i) \<Longrightarrow>
     modify_append V e (nodes cl i) = (aim, st) \<Longrightarrow>
     cluster_step V S P reopen M i (EModifyAppend e) cl (del_pending i (PAppend e) (set_node i st cl))"
| step_modify_finish: "i \<in> M \<Longrightarrow> modify_finish P aim_index (nodes cl i) = (out, st) \<Longrightarrow>
     cluster_step V S P reopen M i EModifyFinish cl (set_node i st cl)"
| step_query_begin: "i \<in> M \<Longrightarrow> query_begin cmd (nodes cl i) = (aim_epoch, st) \<Longrightarrow>
     cluster_step V S P reopen M i EQueryBegin cl (set_node i st cl)"
| step_snapshot: "i \<in> M \<Longrightarrow> snapshot_create V S (nodes cl i) = (it, st) \<Longrightarrow>
     cluster_step V S P reopen M i ESnapshot cl (add_pending i (map_option (\<lambda>(idx, trm). PTrim idx trm) it) (set_node i st cl))"
| step_trim: "i \<in> M \<Longrightarrow> (i, PTrim idx trm) \<in> set (pending cl) \<Longrightarrow> st = snapshot_trim V idx trm (nodes cl i) \<Longrightarrow>
     cluster_step V S P reopen M i ETrim cl (del_pending i (PTrim idx trm) (set_node i st cl))"
| step_apply: "i \<in> M \<Longrightarrow> state_machine_loop_step V S P (nodes cl i) = Inr (ctl, st) \<Longrightarrow>
     cluster_step V S P reopen M i EApply cl (set_node i st cl)"
| step_restart: "i \<in> M \<Longrightarrow> unat (last_index V (rlog (nodes cl i))) < reopen_limit \<Longrightarrow>
     reopen (rlog (nodes cl i)) = Inr l \<Longrightarrow>
     o_id o0 = o_id (opt (nodes cl i)) \<Longrightarrow> o_members o0 = o_members (opt (nodes cl i)) \<Longrightarrow>
     RaftConsensus_init V now rnd o0 l (kv_store (nodes cl i)) = Inr (Running st) \<Longrightarrow>
     cluster_step V S P reopen M i ERestart cl (drop_pending i (set_node i st cl))"

text \<open>
  A cluster starts with no message under way and with every node just initialised, each with the
  other members as its peers. \<open>linv\<close> is the representation invariant of the log.
\<close>

definition node_start :: "'l LogIf \<Rightarrow> ('l \<Rightarrow> bool) \<Rightarrow> u64 set \<Rightarrow> u64 \<Rightarrow> ('l, 's) raft \<Rightarrow> bool" where
  "node_start V linv M i st \<longleftrightarrow>
     (\<exists>now rnd o0 l kv. linv l \<and> o_id o0 = i \<and> distinct (map fst (o_members o0)) \<and>
        fst ` set (o_members o0) = M - {i} \<and> RaftConsensus_init V now rnd o0 l kv = Inr (Running st))"

definition cluster_start :: "'l LogIf \<Rightarrow> ('l \<Rightarrow> bool) \<Rightarrow> u64 set \<Rightarrow> ('l, 's) cluster \<Rightarrow> bool" where
  "cluster_start V linv M cl \<longleftrightarrow>
     finite M \<and> 0 \<notin> M \<and> requests cl = {} \<and> responses cl = {} \<and> pending cl = [] \<and>
     (\<forall>i\<in>M. node_start V linv M i (nodes cl i))"

inductive cluster_reach ::
    "'l LogIf \<Rightarrow> ('l \<Rightarrow> bool) \<Rightarrow> 's StoreIf \<Rightarrow> proto \<Rightarrow> ('l \<Rightarrow> 'l res) \<Rightarrow> u64 set \<Rightarrow> ('l, 's) cluster \<Rightarrow> bool"
  for V linv S P reopen M where
  reach_start: "cluster_start V linv M cl \<Longrightarrow> cluster_reach V linv S P reopen M cl"
| reach_step: "cluster_reach V linv S P reopen M cl \<Longrightarrow> cluster_step V S P reopen M i ev cl cl' \<Longrightarrow>
     cluster_reach V linv S P reopen M cl'"

subsection \<open>Invariants\<close>

text \<open>Node \<open>i\<close> knows itself and has exactly the other members as peers.\<close>

definition cfg_ok :: "u64 set \<Rightarrow> u64 \<Rightarrow> ('l, 's) raft \<Rightarrow> bool" where
  "cfg_ok M i st \<longleftrightarrow>
     c_id (context_of st) = i \<and> o_id (opt st) = i \<and> distinct (map fst (o_members (opt st))) \<and>
     fst ` set (o_members (opt st)) = M - {i} \<and>
     map (\<lambda>(k, p). (k, p_id p)) (peer_set st) = map (\<lambda>m. (fst m, fst m)) (o_members (opt st))"

text \<open>
  A granted vote is bound to its voter: the voter has not gone back behind its term, and in that
  term its vote is the one it granted. Two votes of one voter in one term are for the same
  candidate.
\<close>

definition granted :: "('l, 's) cluster \<Rightarrow> u64 \<Rightarrow> u64 \<Rightarrow> u64 \<Rightarrow> bool" where
  "granted cl c p t \<longleftrightarrow>
     (\<exists>r. (c, RequestVoteRsp r) \<in> responses cl \<and> vr_vote_granted r \<and> vr_peer_id r = p \<and> vr_term r = t)"

definition votes_bound :: "u64 set \<Rightarrow> ('l, 's) cluster \<Rightarrow> bool" where
  "votes_bound M cl \<longleftrightarrow>
     (\<forall>c p t. granted cl c p t \<longrightarrow> c \<in> M \<and> p \<in> M \<and> t \<le> c_term (context_of (nodes cl p)) \<and>
        (t = c_term (context_of (nodes cl p)) \<longrightarrow> voted_for (context_of (nodes cl p)) = c)) \<and>
     (\<forall>c c' p t. granted cl c p t \<longrightarrow> granted cl c' p t \<longrightarrow> c = c')"

definition own_votes :: "u64 \<Rightarrow> ('l, 's) raft \<Rightarrow> bool" where
  "own_votes i st \<longleftrightarrow> (\<forall>k q. (k, RequestVote q) \<in> set (outbox st) \<longrightarrow> vq_candidate_id q = i)"

definition requests_own :: "u64 set \<Rightarrow> ('l, 's) cluster \<Rightarrow> bool" where
  "requests_own M cl \<longleftrightarrow>
     (\<forall>i k q. (i, k, RequestVote q) \<in> requests cl \<longrightarrow> i \<in> M \<and> vq_candidate_id q = i) \<and>
     (\<forall>i\<in>M. own_votes i (nodes cl i))"

text \<open>
  A candidate or leader voted for itself, every other vote it counts was granted to it in its
  term, and a leader counts more than half of the members.
\<close>

definition votes_counted :: "u64 set \<Rightarrow> ('l, 's) cluster \<Rightarrow> bool" where
  "votes_counted M cl \<longleftrightarrow>
     (\<forall>i\<in>M. let c = context_of (nodes cl i) in role c \<noteq> kFollower \<longrightarrow>
        voted_for c = i \<and> quorum_granted c \<subseteq> M \<and>
        (\<forall>p\<in>quorum_granted c. p = i \<or> granted cl i p (c_term c)) \<and>
        (role c = kLeader \<longrightarrow> card (quorum_granted c) > card M div 2))"

definition cluster_inv :: "'l LogIf \<Rightarrow> ('l \<Rightarrow> bool) \<Rightarrow> u64 set \<Rightarrow> ('l, 's) cluster \<Rightarrow> bool" where
  "cluster_inv V linv M cl \<longleftrightarrow>
     finite M \<and> 0 \<notin> M \<and> (\<forall>i\<in>M. cfg_ok M i (nodes cl i) \<and> node_ok V linv (nodes cl i)) \<and>
     votes_bound M cl \<and> requests_own M cl \<and> votes_counted M cl"

lemma votes_boundD:
  assumes "votes_bound M cl" "granted cl c p t"
  shows "c \<in> M" "p \<in> M" "t \<le> c_term (context_of (nodes cl p))"
    "t = c_term (context_of (nodes cl p)) \<Longrightarrow> voted_for (context_of (nodes cl p)) = c"
    "granted cl c' p t \<Longrightarrow> c = c'"
  using assms unfolding votes_bound_def by blast+

lemma cluster_invD:
  assumes "cluster_inv V linv M cl"
  shows "finite M" "0 \<notin> M" "i \<in> M \<Longrightarrow> cfg_ok M i (nodes cl i)" "i \<in> M \<Longrightarrow> node_ok V linv (nodes cl i)"
    "votes_bound M cl" "requests_own M cl" "votes_counted M cl"
  using assms by (simp_all add: cluster_inv_def)

lemma set_node_simps [simp]:
  "nodes (set_node i st cl) = (nodes cl)(i := st)" "responses (set_node i st cl) = responses cl"
  "requests (set_node i st cl) = requests cl \<union> (\<lambda>(k, m). (i, k, m)) ` set (outbox st)"
  "granted (set_node i st cl) = granted cl"
  by (simp_all add: set_node_def granted_def fun_eq_iff)

lemma add_response_simps [simp]:
  "nodes (add_response j r cl) = nodes cl" "requests (add_response j r cl) = requests cl"
  by (simp_all add: add_response_def)

lemma pending_simps [simp]:
  "nodes (add_pending i a cl) = nodes cl" "requests (add_pending i a cl) = requests cl"
  "responses (add_pending i a cl) = responses cl" "nodes (del_pending i b cl) = nodes cl"
  "requests (del_pending i b cl) = requests cl" "responses (del_pending i b cl) = responses cl"
  "nodes (drop_pending i cl) = nodes cl" "requests (drop_pending i cl) = requests cl"
  "responses (drop_pending i cl) = responses cl" "pending (set_node i st cl) = pending cl"
  by (simp_all add: add_pending_def del_pending_def drop_pending_def set_node_def split: option.splits)

lemma cluster_inv_pending [simp]:
  "cluster_inv V linv M (add_pending i a cl) = cluster_inv V linv M cl"
  "cluster_inv V linv M (del_pending i b cl) = cluster_inv V linv M cl"
  "cluster_inv V linv M (drop_pending i cl) = cluster_inv V linv M cl"
  by (simp_all add: cluster_inv_def votes_bound_def requests_own_def votes_counted_def granted_def)

lemma granted_add:
  "granted (add_response j r cl) c p t \<longleftrightarrow> granted cl c p t \<or>
     (\<exists>v. r = RequestVoteRsp v \<and> c = j \<and> vr_vote_granted v \<and> vr_peer_id v = p \<and> vr_term v = t)"
  by (auto simp: granted_def add_response_def)

lemma cfg_ok_same: "cfg_ok M i st \<Longrightarrow> same_cfg st st' \<Longrightarrow> c_id (context_of st') = c_id (context_of st) \<Longrightarrow> cfg_ok M i st'"
  by (simp add: cfg_ok_def same_cfg_def)

lemma own_votes_sends:
  "own_votes i st \<Longrightarrow> sends st st' \<Longrightarrow> c_id (context_of st) = i \<Longrightarrow> own_votes i st'"
  by (auto simp: own_votes_def sends_def)

lemma cfg_ok_card:
  assumes "cfg_ok M i st" "finite M" "i \<in> M"
  shows "card M = length (o_members (opt st)) + 1"
proof -
  have "card (M - {i}) = length (o_members (opt st))"
    using assms(1) distinct_card [of "map fst (o_members (opt st))"] by (simp add: cfg_ok_def)
  with assms(2,3) show ?thesis by (metis Suc_eq_plus1 card.remove)
qed

lemma cfg_ok_peer:
  assumes "cfg_ok M i st" "map_of (peer_set st) k = Some p"
  shows "p_id p = k" "k \<in> M" "k \<noteq> i"
proof -
  have ids: "map (\<lambda>(k, p). (k, p_id p)) (peer_set st) = map (\<lambda>m. (fst m, fst m)) (o_members (opt st))"
    using assms(1) by (simp add: cfg_ok_def)
  have "(k, p_id p) \<in> set (map (\<lambda>(k, p). (k, p_id p)) (peer_set st))"
    using map_of_SomeD [OF assms(2)] by (force simp: image_iff)
  then have "(k, p_id p) \<in> set (map (\<lambda>m. (fst m, fst m)) (o_members (opt st)))"
    unfolding ids .
  with assms(1) show "p_id p = k" "k \<in> M" "k \<noteq> i" by (auto simp: cfg_ok_def)
qed

text \<open>A vote granted is not taken back by a quiet step or by the start of an election.\<close>

lemma votes_bound_step:
  assumes "votes_bound M cl" "0 \<notin> M"
    and "quiet (context_of (nodes cl i)) (context_of st) \<or> elected (context_of (nodes cl i)) (context_of st)
      \<or> c_term (context_of st) = c_term (context_of (nodes cl i)) \<and> voted_for (context_of st) = voted_for (context_of (nodes cl i))"
  shows "votes_bound M (set_node i st cl)"
proof -
  have "t \<le> c_term (context_of st) \<and> (t = c_term (context_of st) \<longrightarrow> voted_for (context_of st) = c)"
    if g: "granted cl c i t" for c t
  proof -
    have b: "c \<noteq> 0" "t \<le> c_term (context_of (nodes cl i))"
      "t = c_term (context_of (nodes cl i)) \<longrightarrow> voted_for (context_of (nodes cl i)) = c"
      using assms(1,2) g unfolding votes_bound_def by blast+
    from assms(3) show ?thesis
    proof (elim disjE)
      assume "quiet (context_of (nodes cl i)) (context_of st)"
      with b show ?thesis by (auto simp: quiet_def)
    next
      assume "elected (context_of (nodes cl i)) (context_of st)"
      with b show ?thesis by (auto simp: elected_def)
    qed (use b in simp)
  qed
  with assms(1) show ?thesis by (simp add: votes_bound_def)
qed

lemma requests_own_step:
  assumes "requests_own M cl" "i \<in> M" "own_votes i st"
  shows "requests_own M (set_node i st cl)"
  using assms by (auto simp: requests_own_def own_votes_def)

lemma votes_counted_step:
  assumes "votes_counted M cl"
    and "role (context_of st) \<noteq> kFollower \<Longrightarrow> voted_for (context_of st) = i \<and> quorum_granted (context_of st) \<subseteq> M \<and>
        (\<forall>p\<in>quorum_granted (context_of st). p = i \<or> granted cl i p (c_term (context_of st))) \<and>
        (role (context_of st) = kLeader \<longrightarrow> card (quorum_granted (context_of st)) > card M div 2)"
  shows "votes_counted M (set_node i st cl)"
  using assms by (auto simp: votes_counted_def Let_def)

text \<open>One step of a node, by kind.\<close>

lemma quiet_inv:
  assumes "cluster_inv V linv M cl" "i \<in> M" "node_ok V linv st" "cfg_ok M i st" "own_votes i st"
    and "quiet (context_of (nodes cl i)) (context_of st)"
  shows "cluster_inv V linv M (set_node i st cl)"
proof -
  have "votes_counted M (set_node i st cl)"
    by (rule votes_counted_step) (use assms in \<open>auto simp: cluster_inv_def votes_counted_def quiet_def Let_def\<close>)
  with assms show ?thesis
    by (auto simp: cluster_inv_def intro: votes_bound_step requests_own_step)
qed

lemma kept_inv:
  assumes "cluster_inv V linv M cl" "i \<in> M" "kept V linv (nodes cl i) st"
  shows "cluster_inv V linv M (set_node i st cl)"
proof (rule quiet_inv [OF assms(1,2)])
  note K = keptD [OF assms(3)]
  have C: "cfg_ok M i (nodes cl i)" "own_votes i (nodes cl i)"
    using assms(1,2) by (simp_all add: cluster_inv_def requests_own_def)
  show "node_ok V linv st" "quiet (context_of (nodes cl i)) (context_of st)" using K by simp_all
  show "cfg_ok M i st" using cfg_ok_same [OF C(1) K(2)] K(4) by (simp add: quiet_def)
  show "own_votes i st" by (rule own_votes_sends [OF C(2) K(3)]) (use C(1) in \<open>simp add: cfg_ok_def\<close>)
qed

lemma elected_inv:
  assumes "cluster_inv V linv M cl" "i \<in> M" "node_ok V linv st" "same_cfg (nodes cl i) st" "sends (nodes cl i) st"
    and "elected (context_of (nodes cl i)) (context_of st)"
  shows "cluster_inv V linv M (set_node i st cl)"
proof -
  have C: "cfg_ok M i (nodes cl i)" "own_votes i (nodes cl i)"
    using assms(1,2) by (simp_all add: cluster_inv_def requests_own_def)
  have id: "c_id (context_of (nodes cl i)) = i" using C(1) by (simp add: cfg_ok_def)
  have "votes_counted M (set_node i st cl)"
    by (rule votes_counted_step) (use assms id in \<open>auto simp: cluster_inv_def elected_def\<close>)
  moreover have "cfg_ok M i st"
    by (rule cfg_ok_same [OF C(1) assms(4)]) (use assms(6) in \<open>simp add: elected_def\<close>)
  moreover have "own_votes i st" by (rule own_votes_sends [OF C(2) assms(5) id])
  ultimately show ?thesis
    using assms by (auto simp: cluster_inv_def intro: votes_bound_step requests_own_step)
qed

lemma counted_inv:
  assumes "cluster_inv V linv M cl" "i \<in> M" "node_ok V linv st" "same_cfg (nodes cl i) st"
    "outbox st = outbox (nodes cl i)" "counted r (nodes cl i) st" "(i, RequestVoteRsp r) \<in> responses cl"
  shows "cluster_inv V linv M (set_node i st cl)"
proof -
  let ?c = "context_of (nodes cl i)" and ?c' = "context_of st"
  have C: "cfg_ok M i (nodes cl i)" "own_votes i (nodes cl i)" "finite M" "votes_counted M cl"
    using assms(1,2) by (simp_all add: cluster_inv_def requests_own_def)
  obtain p where p: "map_of (peer_set (nodes cl i)) (vr_peer_id r) = Some p"
    "quorum_granted ?c' = insert (p_id p) (quorum_granted ?c)"
    using assms(6) by (auto simp: counted_def Let_def)
  note P = cfg_ok_peer [OF C(1) p(1)]
  have g: "granted cl i (vr_peer_id r) (c_term ?c')"
    using assms(6,7) by (auto simp: granted_def counted_def Let_def)
  have "votes_counted M (set_node i st cl)"
    by (rule votes_counted_step [OF C(4)])
      (use assms(2,6) C(4) p(2) P g cfg_ok_card [OF C(1,3) assms(2)] in
        \<open>auto simp: votes_counted_def counted_def Let_def\<close>)
  moreover have "votes_bound M (set_node i st cl)"
    by (rule votes_bound_step) (use assms(1,6) in \<open>auto simp: cluster_inv_def counted_def Let_def\<close>)
  moreover have "cfg_ok M i st"
    by (rule cfg_ok_same [OF C(1) assms(4)]) (use assms(6) in \<open>simp add: counted_def Let_def\<close>)
  moreover have "own_votes i st" using C(2) assms(5) by (simp add: own_votes_def)
  ultimately show ?thesis
    using assms by (auto simp: cluster_inv_def intro: requests_own_step)
qed

lemma add_response_inv:
  assumes "cluster_inv V linv M cl"
    and "\<And>v. r = RequestVoteRsp v \<Longrightarrow> vr_vote_granted v \<Longrightarrow> j \<in> M \<and> vr_peer_id v \<in> M \<and>
      vr_term v = c_term (context_of (nodes cl (vr_peer_id v))) \<and> voted_for (context_of (nodes cl (vr_peer_id v))) = j"
  shows "cluster_inv V linv M (add_response j r cl)"
proof -
  have B: "votes_bound M cl" using assms(1) by (simp add: cluster_inv_def)
  then have "votes_bound M (add_response j r cl)"
    using assms(2) unfolding votes_bound_def granted_add by (auto; metis)
  with assms(1) show ?thesis
    by (auto simp: cluster_inv_def requests_own_def votes_counted_def Let_def granted_add)
qed

subsection \<open>Every step keeps the invariant\<close>

text \<open>The log interface with the reopening of a log.\<close>

locale cluster_env = log_if V ents inv
  for V :: "'l LogIf" and ents :: "'l \<Rightarrow> entry list" and inv :: "'l \<Rightarrow> bool" +
  fixes reopen :: "'l \<Rightarrow> 'l res"
  assumes reopen_spec: "inv l \<Longrightarrow> unat (last_index V l) < reopen_limit \<Longrightarrow> reopen l = Inr l' \<Longrightarrow>
    inv l' \<and> meta_data V l' = meta_data V l \<and> ents l' = ents l \<and>
    start_index V l' = (if ents l = [] then 1 else start_index V l)"
begin

lemma vote_request_inv:
  assumes "cluster_inv V inv M cl" "i \<in> M" "(j, i, RequestVote q) \<in> requests cl"
    and "on_request_vote_request V now q (nodes cl i) = (r, st)"
  shows "cluster_inv V inv M (add_response j (RequestVoteRsp r) (set_node i st cl))"
proof (rule add_response_inv)
  have C: "cfg_ok M i (nodes cl i)" "node_ok V inv (nodes cl i)" "requests_own M cl"
    using assms(1,2) by (simp_all add: cluster_inv_def)
  show "cluster_inv V inv M (set_node i st cl)"
    by (rule kept_inv [OF assms(1,2) vote_request_kept [OF C(2) assms(4)]])
  fix v assume v: "RequestVoteRsp r = RequestVoteRsp v" "vr_vote_granted v"
  have "j \<in> M" "vq_candidate_id q = j" using C(3) assms(3) by (auto simp: requests_own_def)
  with v request_vote_ok(5,6) [OF C(2) assms(4)] C(1) assms(2)
  show "j \<in> M \<and> vr_peer_id v \<in> M \<and>
      vr_term v = c_term (context_of (nodes (set_node i st cl) (vr_peer_id v))) \<and>
      voted_for (context_of (nodes (set_node i st cl) (vr_peer_id v))) = j"
    by (auto simp: cfg_ok_def)
qed

lemma tick_inv:
  assumes "cluster_inv V inv M cl" "i \<in> M" "c_term (context_of (nodes cl i)) \<noteq> - 1"
    and "main_thread_act V S now a (nodes cl i) = Inr st"
  shows "cluster_inv V inv M (set_node i st cl)"
proof -
  have "node_ok V inv (nodes cl i)" using assms(1,2) by (simp add: cluster_inv_def)
  from main_thread_act_kept [OF this assms(3,4)] show ?thesis
    using kept_inv [OF assms(1,2)] elected_inv [OF assms(1,2)] by (auto simp: kept_def)
qed

lemma vote_response_inv:
  assumes "cluster_inv V inv M cl" "i \<in> M" "(i, RequestVoteRsp r) \<in> responses cl" "log_room V 1 (nodes cl i)"
    and "on_request_vote_response_async V now r (nodes cl i) = Inr (x, st)"
  shows "cluster_inv V inv M (set_node i st cl)"
proof -
  have "node_ok V inv (nodes cl i)" using assms(1,2) by (simp add: cluster_inv_def)
  from vote_response_kept [OF this assms(4,5)] show ?thesis
    using kept_inv [OF assms(1,2)] counted_inv [OF assms(1,2) _ _ _ _ assms(3)] by (auto simp: kept_def sends_same)
qed

lemma restart_inv:
  assumes "cluster_inv V inv M cl" "i \<in> M" "unat (last_index V (rlog (nodes cl i))) < reopen_limit"
    and "reopen (rlog (nodes cl i)) = Inr l" "o_id o0 = o_id (opt (nodes cl i))"
    and "o_members o0 = o_members (opt (nodes cl i))" "RaftConsensus_init V now rnd o0 l kv = Inr (Running st)"
  shows "cluster_inv V inv M (set_node i st cl)"
proof (rule quiet_inv [OF assms(1,2)])
  have C: "cfg_ok M i (nodes cl i)" "node_ok V inv (nodes cl i)" using assms(1,2) by (simp_all add: cluster_inv_def)
  have L: "inv l" "meta_data V l = meta_data V (rlog (nodes cl i))"
    using reopen_spec [OF _ assms(3,4)] C(2) by (simp_all add: node_ok_def)
  have "o_id o0 = c_id (context_of (nodes cl i))" using C(1) assms(5) by (simp add: cfg_ok_def)
  note R = restart_quiet [OF C(2) this L assms(7)] and I = init_running [OF L(1) assms(7)]
  show "node_ok V inv st" "quiet (context_of (nodes cl i)) (context_of st)" by (fact R)+
  show "own_votes i st" by (simp add: own_votes_def R(3))
  show "cfg_ok M i st"
    using C(1) I assms(5,6) R(2) by (simp add: cfg_ok_def quiet_def)
qed

theorem step_inv:
  assumes "cluster_inv V inv M cl" "cluster_step V S P reopen M i ev cl cl'"
  shows "cluster_inv V inv M cl'"
proof -
  have ok: "node_ok V inv (nodes cl i)" if "i \<in> M" for i using that assms(1) by (simp add: cluster_inv_def)
  note K = kept_inv [OF assms(1)]
  from assms(2) show ?thesis
  proof cases
    case step_check
    then show ?thesis using K main_thread_check_kept [OF ok] by simp
  next
    case step_tick
    then show ?thesis using tick_inv [OF assms(1)] by simp
  next
    case step_vote_request
    then show ?thesis using vote_request_inv [OF assms(1)] by simp
  next
    case step_append_request
    then show ?thesis using K append_request_kept [OF ok] by (auto intro!: add_response_inv)
  next
    case step_install_request
    then show ?thesis using K install_request_kept [OF ok] by (auto intro!: add_response_inv)
  next
    case step_vote_response
    then show ?thesis using vote_response_inv [OF assms(1)] by simp
  next
    case step_append_response
    then show ?thesis using K append_response_kept [OF ok] by simp
  next
    case step_install_response
    then show ?thesis using K install_response_kept [OF ok] by simp
  next
    case step_modify_begin
    then show ?thesis using assms(1) by simp
  next
    case step_modify_append
    then show ?thesis using K modify_append_kept [OF ok] by simp
  next
    case step_modify_finish
    then show ?thesis using K modify_finish_kept [OF ok] by simp
  next
    case step_query_begin
    then show ?thesis using K query_begin_kept [OF ok] by simp
  next
    case step_snapshot
    then show ?thesis using K snapshot_create_kept [OF ok] by simp
  next
    case step_trim
    then show ?thesis using K snapshot_trim_kept [OF ok] by simp
  next
    case step_apply
    then show ?thesis using K apply_step_kept [OF ok] by simp
  next
    case step_restart
    then show ?thesis using restart_inv [OF assms(1)] by simp
  qed
qed

lemma node_start_ok:
  assumes "node_start V inv M i st"
  shows "node_ok V inv st" "cfg_ok M i st" "role (context_of st) = kFollower" "outbox st = []"
proof -
  from assms obtain now rnd o0 l kv where o0: "inv l" "o_id o0 = i" "distinct (map fst (o_members o0))"
      "fst ` set (o_members o0) = M - {i}" "RaftConsensus_init V now rnd o0 l kv = Inr (Running st)"
    unfolding node_start_def by (elim exE conjE)
  note I = init_running [OF o0(1,5)]
  have "c_id (load_context V (o_id o0) l) = i" "role (load_context V (o_id o0) l) = kFollower"
    using o0(2) by (simp_all add: load_context_def Let_def Context_def)
  then show "node_ok V inv st" "cfg_ok M i st" "role (context_of st) = kFollower" "outbox st = []"
    unfolding cfg_ok_def I(2-5) using I(1,6) o0(2-4) by simp_all
qed

lemma start_inv:
  assumes "cluster_start V inv M cl"
  shows "cluster_inv V inv M cl"
proof -
  have "node_start V inv M i (nodes cl i)" if "i \<in> M" for i using assms that by (simp add: cluster_start_def)
  note N = node_start_ok [OF this]
  with assms show ?thesis
    by (simp add: cluster_inv_def cluster_start_def votes_bound_def granted_def requests_own_def own_votes_def
        votes_counted_def Let_def)
qed

theorem reach_inv: "cluster_reach V inv S P reopen M cl \<Longrightarrow> cluster_inv V inv M cl"
  by (induction rule: cluster_reach.induct) (auto intro: start_inv step_inv)

end

subsection \<open>Election safety\<close>

lemma inv_one_leader:
  assumes "cluster_inv V linv M cl" "i \<in> M" "j \<in> M"
    and "role (context_of (nodes cl i)) = kLeader" "role (context_of (nodes cl j)) = kLeader"
    and "c_term (context_of (nodes cl i)) = c_term (context_of (nodes cl j))"
  shows "i = j"
proof -
  let ?A = "quorum_granted (context_of (nodes cl i))" and ?B = "quorum_granted (context_of (nodes cl j))"
  have I: "finite M" "votes_bound M cl" "votes_counted M cl" using assms(1) by (simp_all add: cluster_inv_def)
  have A: "voted_for (context_of (nodes cl i)) = i" "?A \<subseteq> M" "card ?A > card M div 2"
      "\<And>p. p \<in> ?A \<Longrightarrow> p = i \<or> granted cl i p (c_term (context_of (nodes cl i)))"
    using I(3) assms(2,4) by (auto simp: votes_counted_def Let_def)
  have B: "voted_for (context_of (nodes cl j)) = j" "?B \<subseteq> M" "card ?B > card M div 2"
      "\<And>p. p \<in> ?B \<Longrightarrow> p = j \<or> granted cl j p (c_term (context_of (nodes cl j)))"
    using I(3) assms(3,5) by (auto simp: votes_counted_def Let_def)
  obtain p where p: "p \<in> ?A" "p \<in> ?B" using majorities_meet [OF I(1) A(2) B(2) A(3) B(3)] by blast
  show ?thesis
    using A(4) [OF p(1)] B(4) [OF p(2)] A(1) B(1) votes_boundD(4,5) [OF I(2)] assms(6) by metis
qed

end
