(* ===== verification/Coherent.thy ===== *)
theory Coherent
  imports Append_Results "HOL-Library.Sublist"
begin

text \<open>
  The list theory behind log matching. \<open>can t\<close> is the log the leader of term \<open>t\<close> had made when it
  last appended. A log is coherent with \<open>can\<close> when each entry it holds stands in the log of the
  leader of the entry's term at the same place, after the same entries.
\<close>

definition coherent :: "(u64 \<Rightarrow> entry list) \<Rightarrow> entry list \<Rightarrow> bool" where
  "coherent can xs \<longleftrightarrow> (\<forall>k < length xs. prefix (take (Suc k) xs) (can (e_term (xs ! k))))"

text \<open>A request carries a piece of the log \<open>xs\<close>, with the term of the entry before the piece.\<close>

definition slice_of :: "entry list \<Rightarrow> append_request \<Rightarrow> bool" where
  "slice_of xs q \<longleftrightarrow>
     unat (aq_prev_log_index q) \<le> length xs \<and>
     prefix (aq_entries q) (drop (unat (aq_prev_log_index q)) xs) \<and>
     (aq_prev_log_index q \<noteq> 0 \<longrightarrow> aq_prev_log_term q = e_term (xs ! (unat (aq_prev_log_index q) - 1)))"

lemma coherentD: "coherent can xs \<Longrightarrow> k < length xs \<Longrightarrow> prefix (take (Suc k) xs) (can (e_term (xs ! k)))"
  by (simp add: coherent_def)

lemma coherent_Nil [simp]: "coherent can []"
  by (simp add: coherent_def)

lemma coherent_take: "coherent can xs \<Longrightarrow> coherent can (take n xs)"
  by (simp add: coherent_def min_def)

lemma coherent_mono:
  "coherent can xs \<Longrightarrow> (\<And>t. prefix (can t) (can' t)) \<Longrightarrow> coherent can' xs"
  unfolding coherent_def using prefix_order.order_trans by blast

lemma coherent_snoc:
  assumes "coherent can xs" "prefix (xs @ [e]) (can (e_term e))"
  shows "coherent can (xs @ [e])"
  using assms by (auto simp: coherent_def nth_append less_Suc_eq)

lemma prefix_length_eq: "prefix xs ys \<Longrightarrow> length xs = length ys \<Longrightarrow> xs = ys"
  by (auto simp: prefix_def)

text \<open>Two coherent logs that have an entry of one term at one place are the same up to there.\<close>

lemma coherent_agree:
  assumes "coherent can xs" "coherent can ys" "k < length xs" "k < length ys" "e_term (xs ! k) = e_term (ys ! k)"
  shows "take (Suc k) xs = take (Suc k) ys"
proof -
  have "prefix (take (Suc k) xs) (can (e_term (xs ! k)))" "prefix (take (Suc k) ys) (can (e_term (xs ! k)))"
    using coherentD [OF assms(1,3)] coherentD [OF assms(2,4)] assms(5) by simp_all
  then have "prefix (take (Suc k) xs) (take (Suc k) ys) \<or> prefix (take (Suc k) ys) (take (Suc k) xs)"
    by (rule prefix_same_cases)
  moreover have "length (take (Suc k) xs) = length (take (Suc k) ys)" using assms(3,4) by simp
  ultimately show ?thesis by (metis prefix_length_eq)
qed

lemma slice_mono:
  assumes "slice_of xs q" "prefix xs ys"
  shows "slice_of ys q"
proof -
  obtain zs where "ys = xs @ zs" using assms(2) by (rule prefixE)
  moreover have "unat (aq_prev_log_index q) - 1 < length xs" if "aq_prev_log_index q \<noteq> 0"
    using that assms(1) unat_gt_0 [of "aq_prev_log_index q"] by (auto simp: slice_of_def simp del: unat_gt_0)
  ultimately show ?thesis using assms(1) by (auto simp: slice_of_def nth_append)
qed

text \<open>
  Laying a piece of \<open>ys\<close> over a log that agrees with \<open>ys\<close> up to the piece leaves the log or gives
  \<open>ys\<close> up to the end of the piece.
\<close>

lemma merge_coherent:
  assumes "coherent can xs" "coherent can ys" "take p xs = take p ys" "p \<le> length xs" "p \<le> length ys"
    and "prefix es (drop p ys)"
  shows "take p xs @ merge_ents (drop p xs) es \<in> {xs, take (p + length es) ys}"
  using assms(3-)
proof (induction es arbitrary: p)
  case Nil
  then show ?case by (metis append_take_drop_id insertI1 merge_ents.simps(1))
next
  case (Cons e es)
  obtain zs where zs: "drop p ys = e # es @ zs" using Cons.prems(4) by (auto simp: prefix_def)
  then have p: "p < length ys" by (metis drop_eq_Nil2 leI list.distinct(1))
  with zs have py: "p < length ys" "ys ! p = e" "prefix es (drop (Suc p) ys)"
    by (metis p, metis hd_drop_conv_nth list.sel(1), metis drop_Suc list.sel(3) prefixI tl_drop)
  then have ty: "take (Suc p) ys = take p ys @ [e]" by (simp add: take_Suc_conv_app_nth)
  have all: "take p ys @ e # es = take (p + length (e # es)) ys"
    using zs take_add [of p "length (e # es)" ys] by simp
  show ?case
  proof (cases "p < length xs \<and> e_term (xs ! p) = e_term e")
    case True
    then have eq: "take (Suc p) xs = take (Suc p) ys"
      using coherent_agree [OF assms(1,2)] py by simp
    with True py ty have x: "xs ! p = e" "drop p xs = e # drop (Suc p) xs" "take (Suc p) xs = take p xs @ [e]"
      by (metis append_eq_append_conv last_snoc length_take take_Suc_conv_app_nth, 
          metis Cons_nth_drop_Suc eq nth_take lessI, metis Cons.prems(1))
    have "take (Suc p) xs @ merge_ents (drop (Suc p) xs) es \<in> {xs, take (Suc p + length es) ys}"
      by (rule Cons.IH [OF eq]) (use True py in auto)
    with x show ?thesis by simp
  next
    case False
    then have "merge_ents (drop p xs) (e # es) = e # es"
      using Cons.prems(2) by (cases "p < length xs") (auto simp: Cons_nth_drop_Suc [symmetric])
    with all Cons.prems(1) show ?thesis by simp
  qed
qed

end
