(* ===== verification/Log_Steps.thy ===== *)
theory Log_Steps
  imports Node_Steps Coherent
begin

text \<open>
  What every operation of a node does to its log and to the requests it sends, for a log that has
  not been compacted: most operations leave the entries alone, and a request to append carries a
  piece of the sender's own log.
\<close>

text \<open>Entries and start of the log stay, and every new request \<open>m\<close> to a node \<open>k\<close> satisfies \<open>P k m\<close>.\<close>

definition steady ::
    "'l LogIf \<Rightarrow> ('l \<Rightarrow> entry list) \<Rightarrow> (u64 \<Rightarrow> raft_request \<Rightarrow> bool) \<Rightarrow> ('l, 's) raft \<Rightarrow> ('l, 's) raft \<Rightarrow> bool" where
  "steady V ents P st st' \<longleftrightarrow>
     ents (rlog st') = ents (rlog st) \<and> start_index V (rlog st') = start_index V (rlog st) \<and>
     (\<forall>k m. (k, m) \<in> set (outbox st') \<longrightarrow> (k, m) \<in> set (outbox st) \<or> P k m)"

text \<open>
  A request to append that a node with the context \<open>c\<close>, the log \<open>xs\<close> and the peers \<open>ps\<close> sends to \<open>k\<close>: it
  carries a piece of \<open>xs\<close> from the peer's next index on.
\<close>

fun carries :: "ctx \<Rightarrow> entry list \<Rightarrow> peers \<Rightarrow> u64 \<Rightarrow> raft_request \<Rightarrow> bool" where
  "carries c xs ps k (AppendEntries q) = (aq_term q = c_term c \<and> slice_of xs q \<and>
     (\<exists>p\<in>snd ` set ps. k = p_id p \<and> aq_prev_log_index q = next_index p - 1) \<and>
     aq_leader_commit q \<le> commit_index c \<and> unat (aq_leader_commit q) \<le> unat (aq_prev_log_index q) + length (aq_entries q))"
| "carries c xs ps k _ = False"

text \<open>A request for votes in the current term, with the last term and index of the log.\<close>

fun asks :: "ctx \<Rightarrow> entry list \<Rightarrow> u64 \<Rightarrow> raft_request \<Rightarrow> bool" where
  "asks c xs k (RequestVote q) = (vq_term q = c_term c \<and>
     vq_last_log_term q = (if xs = [] then 0 else e_term (last xs)) \<and> unat (vq_last_log_index q) = length xs)"
| "asks c xs k _ = False"

lemma steady_refl [simp]: "steady V ents P st st"
  by (simp add: steady_def)

lemma steady_same: "rlog st' = rlog st \<Longrightarrow> outbox st' = outbox st \<Longrightarrow> steady V ents P st st'"
  by (simp add: steady_def)

lemma steady_trans: "steady V ents P a b \<Longrightarrow> steady V ents P b c \<Longrightarrow> steady V ents P a c"
  unfolding steady_def by metis

lemma steady_weaken: "steady V ents P st st' \<Longrightarrow> (\<And>k m. P k m \<Longrightarrow> Q k m) \<Longrightarrow> steady V ents Q st st'"
  unfolding steady_def by blast

lemma one_le_iff: "(1 :: u64) \<le> x \<longleftrightarrow> x \<noteq> 0"
  using unat_gt_0 [of x] by (simp add: idx_order Suc_le_eq del: unat_gt_0)

lemma send_request_vote_outbox:
  assumes "(k, m) \<in> set (outbox (send_request_vote V st))"
  shows "(k, m) \<in> set (outbox st) \<or> (\<exists>q. m = RequestVote q \<and> vq_term q = c_term (context_of st) \<and>
    (vq_last_log_term q, vq_last_log_index q) = last_term_and_index V (rlog st))"
proof -
  have "outbox (fold (\<lambda>(k, p). send_raft_RPC (p_id p) (RequestVote q)) ps s) =
      outbox s @ map (\<lambda>(k, p). (p_id p, RequestVote q)) ps" for q and ps :: peers and s :: "('a, 'b) raft"
    by (induction ps arbitrary: s) (auto simp: send_raft_RPC_def)
  with assms show ?thesis by (auto simp: send_request_vote_def split_beta Let_def)
qed

lemma unat_add_le: "unat (a + b :: u64) \<le> unat a + unat b"
  by (simp add: unat_word_ariths)

lemma unat_of_nat_le: "unat (of_nat n :: u64) \<le> n"
  by (simp add: unat_of_nat)

context log_if
begin

text \<open>A log that starts at index 1 never needs a snapshot to find the entry before a request.\<close>

lemma prev_log_term_start:
  assumes "inv (rlog st)" "start_index V (rlog st) = 1"
  shows "prev_log_term V st prev =
    (if prev = 0 then Some (Some 0)
     else if prev \<le> last_index V (rlog st) then Some (Some (e_term (ents (rlog st) ! (unat prev - 1)))) else None)"
  using assms(2) entry_ents [OF assms(1), of prev] entry_None [OF assms(1), of prev]
  by (auto simp: prev_log_term_def one_le_iff not_le)

lemma send_append_entries_to_carries:
  assumes "inv (rlog st)" "start_index V (rlog st) = 1" "send_append_entries_to V S p st = Inr (x, st')"
  shows "st' = st \<or> (\<exists>q. st' = send_raft_RPC (p_id p) (AppendEntries q) st \<and>
    carries (context_of st) (ents (rlog st)) [(k, p)] (p_id p) (AppendEntries q))"
proof (cases "prev_log_term V st (next_index p - 1)")
  case None
  then show ?thesis using assms(3) by (simp add: send_append_entries_to_def)
next
  case (Some o)
  let ?prev = "next_index p - 1" and ?l = "rlog st"
  have len: "unat (last_index V ?l) = length (ents ?l)" using last_eq [OF assms(1)] assms(2) by simp
  obtain pt where pt: "prev_log_term V st ?prev = Some (Some pt)" and le: "?prev \<le> last_index V ?l"
    and t: "?prev \<noteq> 0 \<Longrightarrow> pt = e_term (ents ?l ! (unat ?prev - 1))"
    using Some unfolding prev_log_term_start [OF assms(1,2)] by (auto split: if_splits)
  have "next_index p \<noteq> 0"
  proof
    assume "next_index p = 0"
    with le last_bound [OF assms(1)] show False by (simp add: idx_order unat_max_u64)
  qed
  then have "unat (next_index p) - 1 = unat ?prev" by (simp add: unat_dec)
  then obtain es where es: "entries V ?l (next_index p) (o_log_trans_count (opt st)) = Inr (True, es)"
      "prefix es (drop (unat ?prev) (ents ?l))"
    using entries_spec [OF assms(1), of "next_index p" "o_log_trans_count (opt st)"] assms(2)
    by (auto simp: Let_def take_is_prefix)
  let ?q = "\<lparr>aq_term = c_term (context_of st), aq_leader_id = c_id (context_of st), aq_prev_log_index = ?prev,
    aq_prev_log_term = pt, aq_entries = es, aq_leader_commit = min (commit_index (context_of st)) (?prev + of_nat (length es)),
    aq_epoch = epoch (context_of st)\<rparr>"
  have "st' = send_raft_RPC (p_id p) (AppendEntries ?q) st"
    using pt es(1) assms(3) by (simp add: send_append_entries_to_def Let_def)
  moreover have "unat (min a (?prev + of_nat n)) \<le> unat ?prev + n" for a :: u64 and n
    using unat_add_le [of ?prev "of_nat n"] unat_of_nat_le [of n] by (simp add: min_def idx_order)
  moreover have "unat ?prev \<le> length (ents ?l)" using le len by (simp add: idx_order)
  ultimately have "st' = send_raft_RPC (p_id p) (AppendEntries ?q) st"
    "carries (context_of st) (ents ?l) [(k, p)] (p_id p) (AppendEntries ?q)"
    using t es(2) by (simp_all add: slice_of_def)
  then show ?thesis by blast
qed

lemma carries_peers: "carries c xs ps k m \<Longrightarrow> set ps \<subseteq> set qs \<Longrightarrow> carries c xs qs k m"
  by (cases m) auto

lemma send_append_entries_steady:
  assumes "node_ok V inv st" "start_index V (rlog st) = 1" "send_append_entries_all V S ps st = Inr st'"
  shows "steady V ents (carries (context_of st) (ents (rlog st)) ps) st st' \<and> context_of st' = context_of st \<and>
    peer_set st' = peer_set st \<and> rlog st' = rlog st"
  using assms
proof (induction ps arbitrary: st)
  case (Cons kp ps)
  obtain k p where kp: "kp = (k, p)" by (cases kp)
  with Cons.prems obtain x s where s: "send_append_entries_to V S p st = Inr (x, s)"
      "send_append_entries_all V S ps s = Inr st'"
    by (auto simp: res_bind_Inr_iff)
  have I: "inv (rlog st)" using Cons.prems(1) by (simp add: node_ok_def)
  have f: "rlog s = rlog st" "context_of s = context_of st" "peer_set s = peer_set st"
      "steady V ents (carries (context_of st) (ents (rlog st)) [(k, p)]) st s"
    using send_append_entries_to_carries [OF I Cons.prems(2) s(1)] by (auto simp: steady_def)
  have "node_ok V inv s" using Cons.prems(1) f by (simp add: node_ok_def)
  note r = Cons.IH [OF this _ s(2)]
  let ?P = "carries (context_of st) (ents (rlog st)) (kp # ps)"
  have "steady V ents ?P st s" "steady V ents ?P s st'"
    using f(4) r f(1,2) Cons.prems(2) by (auto simp: kp elim!: steady_weaken carries_peers)
  then show ?case using r f Cons.prems(2) by (auto intro: steady_trans)
qed simp

subsection \<open>Operations that leave the entries alone\<close>

lemma vote_request_steady:
  assumes "node_ok V inv st" "on_request_vote_request V now q st = (r, st')"
  shows "steady V ents P st st'"
  using assms
  by (auto simp: steady_def on_request_vote_request_def Let_def split_beta node_ok_def set_ctx_log_def become_follower_def
      split: if_splits)

lemma step_down_steady: "node_ok V inv st \<Longrightarrow> steady V ents P st (step_down V t k st)"
  by (auto simp: steady_def step_down_def Let_def set_ctx_log_def become_follower_def node_ok_def)

lemma try_advance_commit_steady:
  assumes "node_ok V inv st" "try_advance_commit V st = Inr (x, st')"
  shows "steady V ents P st st'"
  using assms
  by (auto simp: steady_def try_advance_commit_def node_ok_def res_bind_Inr_iff split: if_splits)

lemma main_thread_check_steady: "main_thread_check now st = (a, st') \<Longrightarrow> steady V ents P st st'"
  by (auto simp: main_thread_check_def Let_def intro: steady_same split: role.splits prod.splits)

lemma install_response_steady:
  assumes "node_ok V inv st" "on_install_snapshot_response_async V r st = Inr (x, st')"
  shows "steady V ents P st st'"
proof -
  have ok: "node_ok V inv (st\<lparr>peer_set := ps\<rparr>)" for ps using assms(1) by (simp add: node_ok_def)
  consider "st' = step_down V (ir_term r) (ir_peer_id r) st" | ps where "st' = st\<lparr>peer_set := ps\<rparr>"
    | ps where "try_advance_commit V (st\<lparr>peer_set := ps\<rparr>) = Inr (x, st')"
    using assms(2) by (auto simp: on_install_snapshot_response_async_def Let_def split: option.splits if_splits)
  then show ?thesis
    using step_down_steady [OF assms(1)] try_advance_commit_steady [OF ok]
    by cases (auto simp: steady_def)
qed

lemma append_response_steady:
  assumes "node_ok V inv st" "start_index V (rlog st) = 1" "on_append_entries_response_async V S r st = Inr (x, st')"
  shows "steady V ents (\<lambda>_ _. False) st st' \<or>
    ar_term r = c_term (context_of st) \<and> \<not> ar_success r \<and> context_of st' = context_of st \<and>
    steady V ents (carries (context_of st) (ents (rlog st)) (peer_set st')) st st'"
proof -
  have ok: "node_ok V inv (st\<lparr>peer_set := ps\<rparr>)" for ps using assms(1) by (simp add: node_ok_def)
  have I: "inv (rlog (st\<lparr>peer_set := ps\<rparr>))" for ps using assms(1) by (simp add: node_ok_def)
  consider "st' = step_down V (ar_term r) (ar_peer_id r) st" | "st' = st"
    | ps where "try_advance_commit V (st\<lparr>peer_set := ps\<rparr>) = Inr (x, st')"
    | ps p y where "ar_term r = c_term (context_of st)" "\<not> ar_success r" "map_of ps (ar_peer_id r) = Some p"
        "send_append_entries_to V S p (st\<lparr>peer_set := ps\<rparr>) = Inr (y, st')"
    using assms(3)
    by (auto simp: on_append_entries_response_async_def Let_def res_bind_Inr_iff split: option.splits if_splits)
  then show ?thesis
  proof cases
    case 3
    with try_advance_commit_steady [OF ok, of ps x st' "\<lambda>_ _. False"] show ?thesis by (auto simp: steady_def)
  next
    case 4
    with send_append_entries_to_carries [OF I _ 4(4), of "ar_peer_id r"] assms(2) show ?thesis
      using map_of_SomeD [OF 4(3)] carries_peers [of _ _ "[(ar_peer_id r, p)]" _ _ ps]
      by (auto simp: steady_def simp del: carries.simps)
  qed (use step_down_steady [OF assms(1)] in auto)
qed

lemma apply_step_steady:
  assumes "node_ok V inv st" "state_machine_loop_step V S P st = Inr (x, st')"
  shows "steady V ents Q st st'"
  using assms
  by (auto simp: steady_def state_machine_loop_step_def sm_step_def node_ok_def Let_def res_bind_Inr_iff split: if_splits)

lemma campaign_steady:
  assumes "node_ok V inv st" "start_index V (rlog st) = 1" "main_thread_act V S now Campaign st = Inr st'"
  shows "steady V ents (asks (context_of st') (ents (rlog st))) st st'"
proof -
  let ?c = "set_ctx_log (become_candidate V (context_of st) (rlog st)) st"
  let ?P = "asks (context_of ?c) (ents (rlog st))"
  have c: "inv (rlog ?c)" "ents (rlog ?c) = ents (rlog st)" "start_index V (rlog ?c) = start_index V (rlog st)" "outbox ?c = outbox st"
    using assms(1) by (simp_all add: set_ctx_log_def become_candidate_def Let_def node_ok_def)
  have "unat (last_index V (rlog ?c)) = length (ents (rlog st))" using last_eq [OF c(1)] c(2,3) assms(2) by simp
  with c(2) have "asks (context_of ?c) (ents (rlog st)) k (RequestVote q)"
    if "vq_term q = c_term (context_of ?c)" "(vq_last_log_term q, vq_last_log_index q) = last_term_and_index V (rlog ?c)" for q k
    using that unfolding last_term [OF c(1)] by simp
  then have "steady V ents ?P ?c (send_request_vote V ?c)"
    using send_request_vote_frame [of V ?c] send_request_vote_outbox [where st = ?c] by (fastforce simp: steady_def)
  moreover have "steady V ents ?P st ?c" using c by (simp add: steady_def)
  ultimately have "steady V ents ?P st (send_request_vote V ?c)" by (rule steady_trans [rotated])
  moreover have "rlog st' = rlog (send_request_vote V ?c)" "outbox st' = outbox (send_request_vote V ?c)"
    "context_of st' = context_of (send_request_vote V ?c)"
    using assms(3) by (auto simp: main_thread_act_def Let_def)
  ultimately show ?thesis using send_request_vote_frame [of V ?c] by (simp add: steady_def)
qed

lemma heartbeat_steady:
  assumes "node_ok V inv st" "start_index V (rlog st) = 1" "main_thread_act V S now Heartbeat st = Inr st'"
  shows "steady V ents (carries (context_of st) (ents (rlog st)) (peer_set st)) st st' \<and> context_of st' = context_of st \<and>
    peer_set st' = peer_set st \<and> rlog st' = rlog st"
proof -
  obtain st1 where s: "send_append_entries_all V S (peer_set st) st = Inr st1"
      "st' = st1\<lparr>heartbeat_timer := schedule now (heartbeat_timer st1)\<rparr>"
    using assms(3) by (auto simp: main_thread_act_def send_append_entries_def res_bind_Inr_iff)
  with send_append_entries_steady [OF assms(1,2) s(1)] show ?thesis by (simp add: steady_def)
qed

lemma restart_steady:
  assumes "inv l" "RaftConsensus_init V now rnd o0 l kv = Inr (Running st)"
  shows "ents (rlog st) = ents l" "start_index V (rlog st) = start_index V l" "outbox st = []"
    "role (context_of st) = kFollower"
proof -
  have "rlog st = snd (become_follower V (c_term (load_context V (o_id o0) l)) (load_context V (o_id o0) l)
      (update_meta V (load_context V (o_id o0) l) l))"
    using assms(2) by (auto simp: RaftConsensus_init_def Let_def split: if_splits prod.splits)
  then show "start_index V (rlog st) = start_index V l" using assms(1) by (simp add: become_follower_def Let_def)
  show "ents (rlog st) = ents l" "outbox st = []" "role (context_of st) = kFollower"
    using init_running [OF assms] init_running_ents [OF assms] by (simp_all add: load_context_def Let_def Context_def)
qed

subsection \<open>Operations that change the entries\<close>

lemma vote_response_log:
  assumes "node_ok V inv st" "log_room V 1 st" "on_request_vote_response_async V now r st = Inr (x, st')"
  shows "steady V ents (\<lambda>_ _. False) st st' \<and> (role (context_of st') = kLeader \<longrightarrow> role (context_of st) = kLeader) \<or>
    role (context_of st) = kCandidate \<and> role (context_of st') = kLeader \<and>
    c_term (context_of st') = c_term (context_of st) \<and>
    ents (rlog st') = ents (rlog st) @ [noop_entry (c_term (context_of st))] \<and>
    start_index V (rlog st') = start_index V (rlog st) \<and> outbox st' = outbox st"
proof -
  have I: "inv (rlog st)" using assms(1) by (simp add: node_ok_def)
  note A = appendD [OF I, of "[_]"]
  consider "st' = step_down V (vr_term r) (vr_peer_id r) st" "c_term (context_of st) < vr_term r" | "st' = st"
    | ps where "st' = st\<lparr>peer_set := ps\<rparr>" | ps c where "st' = st\<lparr>peer_set := ps, context_of := c\<rparr>" "role c = kCandidate"
    | "role (context_of st) = kCandidate" "role (context_of st') = kLeader" "c_term (context_of st') = c_term (context_of st)"
      "rlog st' = snd (append V (rlog st) [noop_entry (c_term (context_of st))])" "outbox st' = outbox st"
    using assms(3)
    by (auto simp: on_request_vote_response_async_def Let_def become_leader_def split: option.splits if_splits)
  then show ?thesis
  proof cases
    case 1
    have "role (context_of st') = kFollower"
      using 1 by (simp add: step_down_def set_ctx_log_def become_follower_def Let_def)
    with 1 step_down_steady [OF assms(1)] show ?thesis by simp
  next
    case 5
    with A assms(2) show ?thesis by (simp add: log_room_def)
  qed (auto simp: steady_def)
qed

lemma modify_append_log:
  assumes "node_ok V inv st" "log_room V 1 st" "modify_append V e st = (x, st')"
  shows "ents (rlog st') = ents (rlog st) @ [e]" "start_index V (rlog st') = start_index V (rlog st)"
    "outbox st' = outbox st" "context_of st' = context_of st"
  using assms appendD [of "rlog st" "[e]"] by (auto simp: modify_append_def Let_def node_ok_def log_room_def)

lemma append_request_coherent:
  assumes "node_ok V inv st" "log_room V (length (aq_entries q)) st" "on_append_entries_request V now q st = Inr (r, st')"
    and "start_index V (rlog st) = 1" "coherent can (ents (rlog st))" "coherent can ys" "slice_of ys q"
  shows "coherent can (ents (rlog st'))" "start_index V (rlog st') = 1" "outbox st' = outbox st"
    "role (context_of st') = kLeader \<Longrightarrow> st' = st"
proof -
  let ?xs = "ents (rlog st)" and ?p = "unat (aq_prev_log_index q)"
  have len: "unat (last_index V (rlog st)) = length ?xs"
    using last_eq [of "rlog st"] assms(1,4) by (simp add: node_ok_def)
  have "coherent can (ents (rlog st')) \<and> start_index V (rlog st') = 1 \<and> outbox st' = outbox st \<and>
    (role (context_of st') = kLeader \<longrightarrow> st' = st)"
    using assms(1,2)
  proof (cases rule: append_request_cases [where now = now])
    case stale
    with assms show ?thesis by simp
  next
    case gap
    with assms hear_leader_ok [OF assms(1) gap(1), of now "aq_leader_id q"] show ?thesis by simp
  next
    case (mismatch r' l')
    note H = hear_leader_ok [OF assms(1) mismatch(1), of now "aq_leader_id q"]
    then have "inv (rlog (hear_leader V now (aq_term q) (aq_leader_id q) st))" by (simp add: node_ok_def)
    with mismatch H assms show ?thesis by (auto intro: coherent_take)
  next
    case (success r' l' st1)
    note H = hear_leader_ok [OF assms(1) success(1), of now "aq_leader_id q", folded success(4)]
    have I: "inv (rlog st1)" using H(1) by (simp add: node_ok_def)
    have p: "?p \<le> length ?xs" using success(2) len by (simp add: idx_order)
    have l': "inv l'" "start_index V l' = 1" "ents l' = take ?p ?xs @ merge_ents (drop ?p ?xs) (aq_entries q)"
      using append_loop_merge [OF I, of "aq_prev_log_index q" "aq_entries q"] success(2,5) H assms(2,4)
      by (auto simp: idx_order log_room_def)
    have "take ?p ?xs = take ?p ys"
    proof (cases "aq_prev_log_index q = 0")
      case False
      then have "1 \<le> ?p" "start_index V (rlog st) \<le> aq_prev_log_index q"
        using assms(4) unat_gt_0 [of "aq_prev_log_index q"] by (simp_all add: one_le_iff Suc_le_eq del: unat_gt_0)
      moreover from this(1) p assms(7) have "?p - 1 < length ?xs" "?p - 1 < length ys" by (auto simp: slice_of_def)
      ultimately show ?thesis
        using coherent_agree [OF assms(5,6), of "?p - 1"] success(3) assms(4,7) False by (simp add: slice_of_def)
    qed simp
    from merge_coherent [OF assms(5,6) this p] assms(7) l'(3)
    have "ents l' \<in> {?xs, take (?p + length (aq_entries q)) ys}" by (simp add: slice_of_def)
    then have "coherent can (ents l')" using assms(5,6) by (auto intro: coherent_take)
    with success(6) l' H assms(3) show ?thesis by auto
  qed
  then show "coherent can (ents (rlog st'))" "start_index V (rlog st') = 1" "outbox st' = outbox st"
    "role (context_of st') = kLeader \<Longrightarrow> st' = st" by simp_all
qed

end

end
