(* ===== verification/Log_Match.thy ===== *)
theory Log_Match
  imports Cluster Log_Steps
begin

text \<open>
  Log matching for a cluster. The sources do not look at the role of a node again when it acts on
  an old decision: a heartbeat decided before the lock was taken, the answer to an append that arrives
  after the node has lost its leadership, or a client update whose entry was made before. The runs considered
  here (\<open>led\<close>) are those in which these three happen only while the node still leads, and in
  which no log is compacted.
\<close>

fun led :: "('l, 's) raft \<Rightarrow> event \<Rightarrow> bool" where
  "led st (ETick Heartbeat) = (role (context_of st) = kLeader)"
| "led st (EAppendResponse r) =
     (ar_term r = c_term (context_of st) \<longrightarrow> role (context_of st) = kLeader)"
| "led st (EModifyAppend e) = (role (context_of st) = kLeader \<and> e_term e = c_term (context_of st))"
| "led st ETrim = False"
| "led st _ = True"

text \<open>The cluster starts with logs that are prefixes of one log, and no node is behind the terms of its entries.\<close>

definition common_start :: "'l LogIf \<Rightarrow> ('l \<Rightarrow> entry list) \<Rightarrow> u64 set \<Rightarrow> ('l, 's) cluster \<Rightarrow> bool" where
  "common_start V ents M cl \<longleftrightarrow>
     (\<exists>xs. \<forall>i\<in>M. start_index V (rlog (nodes cl i)) = 1 \<and> prefix (ents (rlog (nodes cl i))) xs \<and>
        (\<forall>e\<in>set xs. e_term e \<le> c_term (context_of (nodes cl i))))"

inductive led_reach ::
    "'l LogIf \<Rightarrow> ('l \<Rightarrow> entry list) \<Rightarrow> ('l \<Rightarrow> bool) \<Rightarrow> 's StoreIf \<Rightarrow> proto \<Rightarrow> ('l \<Rightarrow> 'l res) \<Rightarrow> u64 set \<Rightarrow> ('l, 's) cluster \<Rightarrow> bool"
  for V ents linv S P reopen M where
  led_start: "cluster_start V linv M cl \<Longrightarrow> common_start V ents M cl \<Longrightarrow> led_reach V ents linv S P reopen M cl"
| led_step: "led_reach V ents linv S P reopen M cl \<Longrightarrow> cluster_step V S P reopen M i ev cl cl' \<Longrightarrow> led (nodes cl i) ev \<Longrightarrow>
     led_reach V ents linv S P reopen M cl'"

lemma led_reach_reach: "led_reach V ents linv S P reopen M cl \<Longrightarrow> cluster_reach V linv S P reopen M cl"
  by (induction rule: led_reach.induct) (auto intro: cluster_reach.intros)

subsection \<open>Terms that have had their election\<close>

text \<open>
  A node has passed a term when it can no longer be elected in it. A term is settled when a node
  that was elected in it has passed it, or when all nodes have.
\<close>

definition passed :: "ctx \<Rightarrow> u64 \<Rightarrow> bool" where
  "passed c t \<longleftrightarrow> t < c_term c \<or> t = c_term c \<and> role c \<noteq> kCandidate"

definition settled :: "u64 set \<Rightarrow> ('l, 's) cluster \<Rightarrow> u64 \<Rightarrow> bool" where
  "settled M cl t \<longleftrightarrow>
     (\<exists>i\<in>M. \<exists>Q\<subseteq>M. card Q > card M div 2 \<and> (\<forall>p\<in>Q. p = i \<or> granted cl i p t) \<and> (\<forall>c. granted cl c i t \<longrightarrow> c = i) \<and>
        passed (context_of (nodes cl i)) t \<and> (c_term (context_of (nodes cl i)) = t \<longrightarrow> voted_for (context_of (nodes cl i)) = i)) \<or>
     (\<forall>i\<in>M. passed (context_of (nodes cl i)) t)"

text \<open>How the context of a node moves in one step.\<close>

definition moves :: "ctx \<Rightarrow> ctx \<Rightarrow> bool" where
  "moves c c' \<longleftrightarrow> quiet c c' \<or> elected c c' \<or>
     c_term c' = c_term c \<and> voted_for c' = voted_for c \<and> role c = kCandidate"

lemma moves_passed: "moves c c' \<Longrightarrow> passed c t \<Longrightarrow> passed c' t"
  by (auto simp: moves_def passed_def quiet_def elected_def)

lemma moves_vote: "moves c c' \<Longrightarrow> passed c t \<Longrightarrow> c_term c' = t \<Longrightarrow> c_term c = t \<longrightarrow> voted_for c = i \<Longrightarrow> i \<noteq> 0 \<Longrightarrow> voted_for c' = i"
  by (auto simp: moves_def passed_def quiet_def elected_def)

lemma settled_node:
  assumes "settled M cl t" "moves (context_of (nodes cl i)) (context_of st)" "0 \<notin> M"
  shows "settled M (set_node i st cl) t"
proof -
  have pass: "passed (context_of (nodes cl j)) t \<Longrightarrow> passed (context_of (((nodes cl)(i := st)) j)) t" for j
    using moves_passed [OF assms(2)] by (cases "j = i") simp_all
  from assms(1) consider "\<forall>j\<in>M. passed (context_of (nodes cl j)) t"
    | j Q where "j \<in> M" "Q \<subseteq> M" "card Q > card M div 2" "\<forall>p\<in>Q. p = j \<or> granted cl j p t" "\<forall>c. granted cl c j t \<longrightarrow> c = j"
        "passed (context_of (nodes cl j)) t" "c_term (context_of (nodes cl j)) = t \<longrightarrow> voted_for (context_of (nodes cl j)) = j"
    unfolding settled_def by blast
  then show ?thesis
  proof cases
    case 1
    then show ?thesis using pass by (simp add: settled_def del: fun_upd_apply)
  next
    case 2
    have "j \<noteq> 0" using 2(1) assms(3) by blast
    then have "c_term (context_of (((nodes cl)(i := st)) j)) = t \<longrightarrow> voted_for (context_of (((nodes cl)(i := st)) j)) = j"
      using 2(6,7) moves_vote [OF assms(2), of t j] by (cases "j = i") simp_all
    then show ?thesis
      using 2 pass [OF 2(6)] unfolding settled_def set_node_simps by blast
  qed
qed

lemma settled_response:
  assumes "settled M cl t"
    and "\<And>v. r = RequestVoteRsp v \<Longrightarrow> vr_vote_granted v \<Longrightarrow>
      vr_term v = c_term (context_of (nodes cl (vr_peer_id v))) \<and> voted_for (context_of (nodes cl (vr_peer_id v))) = j"
  shows "settled M (add_response j r cl) t"
proof -
  have new: "granted (add_response j r cl) c p t \<Longrightarrow> granted cl c p t \<or>
      c = j \<and> c_term (context_of (nodes cl p)) = t \<and> voted_for (context_of (nodes cl p)) = j" for c p
    using assms(2) by (auto simp: granted_add)
  have old: "granted cl c p t \<Longrightarrow> granted (add_response j r cl) c p t" for c p by (simp add: granted_add)
  from assms(1) show ?thesis
    unfolding settled_def add_response_simps
  proof (elim disjE bexE exE conjE)
    fix i Q assume i: "i \<in> M" "Q \<subseteq> M" "card M div 2 < card Q" "\<forall>p\<in>Q. p = i \<or> granted cl i p t" "\<forall>c. granted cl c i t \<longrightarrow> c = i"
      "passed (context_of (nodes cl i)) t" "c_term (context_of (nodes cl i)) = t \<longrightarrow> voted_for (context_of (nodes cl i)) = i"
    then have "\<forall>c. granted (add_response j r cl) c i t \<longrightarrow> c = i" using new by blast
    with i old show "(\<exists>i\<in>M. \<exists>Q\<subseteq>M. card M div 2 < card Q \<and> (\<forall>p\<in>Q. p = i \<or> granted (add_response j r cl) i p t) \<and>
        (\<forall>c. granted (add_response j r cl) c i t \<longrightarrow> c = i) \<and> passed (context_of (nodes cl i)) t \<and>
        (c_term (context_of (nodes cl i)) = t \<longrightarrow> voted_for (context_of (nodes cl i)) = i)) \<or>
      (\<forall>i\<in>M. passed (context_of (nodes cl i)) t)" by blast
  qed blast
qed

text \<open>Nobody is elected in a settled term.\<close>

lemma settled_no_majority:
  assumes "settled M cl t" "cluster_inv V linv M cl" "i \<in> M" "role (context_of (nodes cl i)) = kCandidate"
    and "c_term (context_of (nodes cl i)) = t" "Q \<subseteq> M" "card Q > card M div 2" "\<forall>p\<in>Q. p = i \<or> granted cl i p t"
  shows False
proof -
  have np: "\<not> passed (context_of (nodes cl i)) t" using assms(4,5) by (simp add: passed_def)
  then obtain j Q' where j: "j \<in> M" "Q' \<subseteq> M" "card Q' > card M div 2" "\<forall>p\<in>Q'. p = j \<or> granted cl j p t"
      "\<forall>c. granted cl c j t \<longrightarrow> c = j" "passed (context_of (nodes cl j)) t"
    using assms(1,3) unfolding settled_def by blast
  have self: "voted_for (context_of (nodes cl i)) = i"
    using cluster_invD(7) [OF assms(2)] assms(3,4) by (auto simp: votes_counted_def Let_def)
  obtain p where p: "p \<in> Q" "p \<in> Q'" using majorities_meet [OF cluster_invD(1) [OF assms(2)] assms(6) j(2) assms(7) j(3)] by blast
  note B = votes_boundD [OF cluster_invD(5) [OF assms(2)]]
  have "i = j"
    using assms(8) j(4,5) p self B(4,5) assms(5) by metis
  with np j(6) show False by simp
qed

subsection \<open>The invariant\<close>

fun request_ok :: "(u64 \<Rightarrow> entry list) \<Rightarrow> raft_request \<Rightarrow> bool" where
  "request_ok can (RequestVote q) = True"
| "request_ok can (AppendEntries q) = slice_of (can (aq_term q)) q"
| "request_ok can (InstallSnapshot q) = False"

definition match_node :: "'l LogIf \<Rightarrow> ('l \<Rightarrow> entry list) \<Rightarrow> (u64 \<Rightarrow> entry list) \<Rightarrow> ('l, 's) raft \<Rightarrow> bool" where
  "match_node V ents can st \<longleftrightarrow>
     start_index V (rlog st) = 1 \<and> coherent can (ents (rlog st)) \<and>
     (role (context_of st) = kLeader \<longrightarrow> can (c_term (context_of st)) = ents (rlog st) \<and> ents (rlog st) \<noteq> []) \<and>
     (\<forall>k m. (k, m) \<in> set (outbox st) \<longrightarrow> request_ok can m)"

definition match_inv ::
    "'l LogIf \<Rightarrow> ('l \<Rightarrow> entry list) \<Rightarrow> u64 set \<Rightarrow> (u64 \<Rightarrow> entry list) \<Rightarrow> ('l, 's) cluster \<Rightarrow> bool" where
  "match_inv V ents M can cl \<longleftrightarrow>
     (\<forall>t. coherent can (can t)) \<and> (\<forall>t. can t \<noteq> [] \<longrightarrow> settled M cl t) \<and>
     (\<forall>i\<in>M. match_node V ents can (nodes cl i)) \<and>
     (\<forall>i k m. (i, k, m) \<in> requests cl \<longrightarrow> request_ok can m)"

lemma match_invD:
  assumes "match_inv V ents M can cl"
  shows "coherent can (can t)" "can t \<noteq> [] \<Longrightarrow> settled M cl t" "i \<in> M \<Longrightarrow> match_node V ents can (nodes cl i)"
    "(i, k, m) \<in> requests cl \<Longrightarrow> request_ok can m"
  using assms unfolding match_inv_def by blast+

lemma settled_pending [simp]:
  "settled M (add_pending i a cl) t = settled M cl t" "settled M (del_pending i b cl) t = settled M cl t"
  "settled M (drop_pending i cl) t = settled M cl t"
  by (simp_all add: settled_def granted_def)

lemma match_inv_pending [simp]:
  "match_inv V ents M can (add_pending i a cl) = match_inv V ents M can cl"
  "match_inv V ents M can (del_pending i b cl) = match_inv V ents M can cl"
  "match_inv V ents M can (drop_pending i cl) = match_inv V ents M can cl"
  by (simp_all add: match_inv_def)

lemma request_ok_mono:
  "request_ok can m \<Longrightarrow> (\<And>t. prefix (can t) (can' t)) \<Longrightarrow> request_ok can' m"
  by (cases m) (auto intro: slice_mono)

text \<open>One node moves and its term's log may grow.\<close>

lemma match_inv_node:
  assumes "match_inv V ents M can cl" "0 \<notin> M" "moves (context_of (nodes cl i)) (context_of st)"
    and "\<And>t. prefix (can t) (can' t)" "\<And>t. can' t \<noteq> can t \<Longrightarrow> coherent can' (can' t) \<and> settled M (set_node i st cl) t \<and>
      (\<forall>j\<in>M. j \<noteq> i \<longrightarrow> role (context_of (nodes cl j)) = kLeader \<longrightarrow> c_term (context_of (nodes cl j)) \<noteq> t)"
    and "match_node V ents can' st"
  shows "match_inv V ents M can' (set_node i st cl)"
proof -
  note D = match_invD [OF assms(1)]
  have "coherent can' (can' t)" for t
    using assms(5) [of t] coherent_mono [OF D(1) assms(4)] by (cases "can' t = can t") auto
  moreover have "settled M (set_node i st cl) t" if "can' t \<noteq> []" for t
    using assms(5) [of t] D(2) that settled_node [OF _ assms(3,2)] by (cases "can' t = can t") auto
  moreover have "match_node V ents can' (nodes (set_node i st cl) j)" if "j \<in> M" for j
  proof (cases "j = i")
    case False
    have mono: "coherent can xs \<Longrightarrow> coherent can' xs" "request_ok can m \<Longrightarrow> request_ok can' m" for xs m
      using coherent_mono assms(4) request_ok_mono assms(4) by blast+
    have "can' (c_term (context_of (nodes cl j))) = can (c_term (context_of (nodes cl j)))"
      if "role (context_of (nodes cl j)) = kLeader"
      using that assms(5) \<open>j \<in> M\<close> False by blast
    with False D(3) [OF that] mono show ?thesis by (auto simp: match_node_def)
  qed (use assms(6) in simp)
  moreover have "request_ok can' m" if "(j, k, m) \<in> requests (set_node i st cl)" for j k m
    using that assms(6) request_ok_mono [OF D(4) assms(4)] by (auto simp: match_node_def)
  ultimately show ?thesis unfolding match_inv_def by blast
qed

text \<open>A step that leaves all logs of leaders as they are.\<close>

lemma match_inv_keep:
  assumes "match_inv V ents M can cl" "0 \<notin> M" "moves (context_of (nodes cl i)) (context_of st)" "match_node V ents can st"
  shows "match_inv V ents M can (set_node i st cl)"
  using match_inv_node [OF assms(1-3) _ _ assms(4)] by simp

lemma match_inv_response:
  assumes "match_inv V ents M can cl"
    and "\<And>v. r = RequestVoteRsp v \<Longrightarrow> vr_vote_granted v \<Longrightarrow>
      vr_term v = c_term (context_of (nodes cl (vr_peer_id v))) \<and> voted_for (context_of (nodes cl (vr_peer_id v))) = j"
  shows "match_inv V ents M can (add_response j r cl)"
  using assms(1) settled_response [OF _ assms(2)] by (auto simp: match_inv_def)

text \<open>A step that leaves the node's log alone and sends only pieces of the logs of leaders.\<close>

lemma match_inv_steady:
  assumes "match_inv V ents M can cl" "0 \<notin> M" "i \<in> M" "quiet (context_of (nodes cl i)) (context_of st) \<or> elected (context_of (nodes cl i)) (context_of st)"
    and "steady V ents (\<lambda>_. request_ok can) (nodes cl i) st"
  shows "match_inv V ents M can (set_node i st cl)"
proof (rule match_inv_keep [OF assms(1,2)])
  show "moves (context_of (nodes cl i)) (context_of st)" using assms(4) by (auto simp: moves_def)
  show "match_node V ents can st"
    using match_invD(3) [OF assms(1,3)] assms(4,5)
    by (auto simp: match_node_def steady_def quiet_def elected_def)
qed

lemma leader_votes:
  assumes "cluster_inv V linv M cl" "i \<in> M" "role (context_of (nodes cl i)) = kLeader"
  defines "Q \<equiv> quorum_granted (context_of (nodes cl i))"
  shows "voted_for (context_of (nodes cl i)) = i" "Q \<subseteq> M" "card Q > card M div 2"
    "\<forall>p\<in>Q. p = i \<or> granted cl i p (c_term (context_of (nodes cl i)))"
  using cluster_invD(7) [OF assms(1)] assms(2,3) unfolding Q_def votes_counted_def Let_def by auto

text \<open>The log of a term grows with the log of its leader.\<close>

definition grown :: "('l \<Rightarrow> entry list) \<Rightarrow> (u64 \<Rightarrow> entry list) \<Rightarrow> ('l, 's) raft \<Rightarrow> u64 \<Rightarrow> entry list" where
  "grown ents can st = (if role (context_of st) = kLeader then can(c_term (context_of st) := ents (rlog st)) else can)"

lemma grown_same: "match_inv V ents M can cl \<Longrightarrow> i \<in> M \<Longrightarrow> grown ents can (nodes cl i) = can"
  using match_invD(3) [of V ents M can cl i] by (auto simp: grown_def match_node_def)

text \<open>The logs of a common start: the log of a term is the common log up to its last entry of the term.\<close>

definition up_to :: "entry list \<Rightarrow> u64 \<Rightarrow> entry list" where
  "up_to xs t = rev (dropWhile (\<lambda>e. e_term e \<noteq> t) (rev xs))"

lemma up_to_snoc [simp]: "up_to [] t = []" "up_to (xs @ [e]) t = (if e_term e = t then xs @ [e] else up_to xs t)"
  by (simp_all add: up_to_def)

lemma up_to_prefix: "prefix (up_to xs t) xs"
  by (induction xs rule: rev_induct) auto

lemma up_to_covers: "k < length xs \<Longrightarrow> prefix (take (Suc k) xs) (up_to xs (e_term (xs ! k)))"
proof (induction xs rule: rev_induct)
  case (snoc e xs)
  show ?case
  proof (cases "k = length xs")
    case False
    with snoc show ?thesis by (simp add: nth_append take_is_prefix)
  qed simp
qed simp

lemma up_to_coherent:
  assumes "prefix ys xs"
  shows "coherent (up_to xs) ys"
  unfolding coherent_def
proof (intro allI impI)
  fix k assume k: "k < length ys"
  obtain zs where xs: "xs = ys @ zs" using assms by (rule prefixE)
  from k up_to_covers [of k xs] show "prefix (take (Suc k) ys) (up_to xs (e_term (ys ! k)))"
    by (simp add: xs nth_append append_prefixD)
qed

lemma up_to_empty: "up_to xs t \<noteq> [] \<Longrightarrow> \<exists>e\<in>set xs. e_term e = t"
  by (induction xs rule: rev_induct) (auto split: if_splits)

subsection \<open>Every step of a led run keeps the invariant\<close>

context cluster_env
begin

text \<open>A leader appends an entry of its term, right after its election or for a client.\<close>

lemma leader_append_match:
  assumes "match_inv V ents M can cl" "cluster_inv V inv M cl" "cluster_inv V inv M (set_node i st cl)" "i \<in> M"
    and "moves (context_of (nodes cl i)) (context_of st)" "role (context_of st) = kLeader"
    and "c_term (context_of st) = t" "e_term e = t" "prefix (can t) (ents (rlog (nodes cl i)))"
    and "ents (rlog st) = ents (rlog (nodes cl i)) @ [e]" "start_index V (rlog st) = 1" "outbox st = outbox (nodes cl i)"
  shows "match_inv V ents M (grown ents can st) (set_node i st cl)"
proof -
  let ?xs = "ents (rlog (nodes cl i)) @ [e]" and ?cl = "set_node i st cl"
  let ?can = "can(t := ?xs)" and ?Q = "quorum_granted (context_of st)"
  note N = match_invD(3) [OF assms(1,4)]
  have pre: "prefix (can u) (?can u)" for u using assms(9) by simp
  have mono: "coherent can ys \<Longrightarrow> coherent ?can ys" for ys by (rule coherent_mono [OF _ pre])
  have req: "request_ok can m \<Longrightarrow> request_ok ?can m" for m by (rule request_ok_mono [OF _ pre])
  have xs: "coherent ?can ?xs"
    using mono N assms(8) by (intro coherent_snoc) (simp_all add: match_node_def)
  have lead: "voted_for (context_of st) = i" "?Q \<subseteq> M" "\<forall>p\<in>?Q. p = i \<or> granted ?cl i p t" "card ?Q > card M div 2"
    using leader_votes [OF assms(3,4)] assms(6,7) by simp_all
  have only: "\<forall>c. granted ?cl c i t \<longrightarrow> c = i"
    using votes_boundD(4) [OF cluster_invD(5) [OF assms(3)]] lead(1) assms(7) by fastforce
  have node: "match_node V ents ?can st"
    using N xs assms(6,7,10-12) req by (auto simp: match_node_def)
  have "settled M ?cl t"
    unfolding settled_def using lead only assms(4,6,7) by (intro disjI1 bexI [of _ i] exI [of _ ?Q]) (auto simp: passed_def)
  moreover have "c_term (context_of (nodes cl j)) \<noteq> t" if "j \<in> M" "j \<noteq> i" "role (context_of (nodes cl j)) = kLeader" for j
    using inv_one_leader [OF assms(3) that(1) assms(4)] that assms(6,7) by auto
  ultimately have "?can u \<noteq> can u \<Longrightarrow> coherent ?can (?can u) \<and> settled M ?cl u \<and>
      (\<forall>j\<in>M. j \<noteq> i \<longrightarrow> role (context_of (nodes cl j)) = kLeader \<longrightarrow> c_term (context_of (nodes cl j)) \<noteq> u)" for u
    using xs by (cases "u = t") simp_all
  from match_inv_node [OF assms(1) cluster_invD(2) [OF assms(2)] assms(5) pre this node]
  show ?thesis using assms(6,7,10) by (simp add: grown_def)
qed

lemma elect_match:
  assumes "match_inv V ents M can cl" "cluster_inv V inv M cl" "i \<in> M" "(i, RequestVoteRsp r) \<in> responses cl"
    and "log_room V 1 (nodes cl i)" "on_request_vote_response_async V now r (nodes cl i) = Inr (x, st)"
  shows "match_inv V ents M (grown ents can st) (set_node i st cl)"
proof -
  let ?c = "context_of (nodes cl i)" and ?c' = "context_of st"
  have ok: "node_ok V inv (nodes cl i)" using cluster_invD(4) [OF assms(2,3)] .
  have inv': "cluster_inv V inv M (set_node i st cl)" by (rule vote_response_inv [OF assms(2-6)])
  have m: "moves ?c ?c'"
    using vote_response_kept [OF ok assms(5,6)] by (auto simp: moves_def counted_def Let_def)
  note N = match_invD(3) [OF assms(1,3)]
  from vote_response_log [OF ok assms(5,6)] show ?thesis
  proof (elim disjE conjE)
    assume s: "steady V ents (\<lambda>_ _. False) (nodes cl i) st" "role ?c' = kLeader \<longrightarrow> role ?c = kLeader"
    have "role ?c' = kLeader \<Longrightarrow> c_term ?c' = c_term ?c"
      using s(2) m by (auto simp: moves_def quiet_def elected_def)
    with s N have "match_node V ents can st"
      unfolding match_node_def steady_def by metis
    with match_inv_keep [OF assms(1) cluster_invD(2) [OF assms(2)] m] have k: "match_inv V ents M can (set_node i st cl)" .
    from grown_same [OF this assms(3)] k show ?thesis by simp
  next
    assume e: "role ?c = kCandidate" "role ?c' = kLeader" "c_term ?c' = c_term ?c"
      "ents (rlog st) = ents (rlog (nodes cl i)) @ [noop_entry (c_term ?c)]"
      "start_index V (rlog st) = start_index V (rlog (nodes cl i))" "outbox st = outbox (nodes cl i)"
    let ?Q = "quorum_granted ?c'"
    have "?Q \<subseteq> M" "card ?Q > card M div 2" "\<forall>p\<in>?Q. p = i \<or> granted cl i p (c_term ?c)"
      using leader_votes [OF inv' assms(3)] e(2,3) by simp_all
    with settled_no_majority [OF _ assms(2,3) e(1) refl] match_invD(2) [OF assms(1)]
    have "can (c_term ?c) = []" by blast
    then show ?thesis
      using leader_append_match [OF assms(1,2) inv' assms(3) m e(2,3) _ _ e(4)] e(5,6) N
      by (simp add: noop_entry_def match_node_def)
  qed
qed

lemma modify_append_match:
  assumes "match_inv V ents M can cl" "cluster_inv V inv M cl" "i \<in> M" "log_room V 1 (nodes cl i)"
    and "modify_append V e (nodes cl i) = (x, st)" "led (nodes cl i) (EModifyAppend e)"
  shows "match_inv V ents M (grown ents can st) (set_node i st cl)"
proof -
  have ok: "node_ok V inv (nodes cl i)" using cluster_invD(4) [OF assms(2,3)] .
  note L = modify_append_log [OF ok assms(4,5)] and N = match_invD(3) [OF assms(1,3)]
  have "cluster_inv V inv M (set_node i st cl)" by (rule kept_inv [OF assms(2,3) modify_append_kept [OF ok assms(4,5)]])
  then show ?thesis
    using leader_append_match [OF assms(1,2) _ assms(3), of st _ e] L N assms(6)
    by (simp add: match_node_def moves_def)
qed

lemma append_request_match:
  assumes "match_inv V ents M can cl" "cluster_inv V inv M cl" "i \<in> M" "(j, i, AppendEntries q) \<in> requests cl"
    and "log_room V (length (aq_entries q)) (nodes cl i)" "on_append_entries_request V now q (nodes cl i) = Inr (r, st)"
  shows "match_inv V ents M can (set_node i st cl)"
proof (rule match_inv_keep [OF assms(1) cluster_invD(2) [OF assms(2)]])
  have ok: "node_ok V inv (nodes cl i)" using cluster_invD(4) [OF assms(2,3)] .
  note N = match_invD(3) [OF assms(1,3)]
  show "moves (context_of (nodes cl i)) (context_of st)"
    using append_request_kept [OF ok assms(5,6)] by (simp add: moves_def kept_def)
  have "start_index V (rlog (nodes cl i)) = 1" "coherent can (ents (rlog (nodes cl i)))" "slice_of (can (aq_term q)) q"
    using N match_invD(4) [OF assms(1,4)] by (simp_all add: match_node_def)
  note C = append_request_coherent [OF ok assms(5,6) this(1,2) match_invD(1) [OF assms(1)] this(3)]
  show "match_node V ents can st"
  proof (cases "role (context_of st) = kLeader")
    case True
    then show ?thesis using C(4) N by simp
  next
    case False
    with C(1-3) N show ?thesis by (simp add: match_node_def)
  qed
qed

lemma restart_match:
  assumes "match_inv V ents M can cl" "cluster_inv V inv M cl" "i \<in> M" "unat (last_index V (rlog (nodes cl i))) < reopen_limit"
    and "reopen (rlog (nodes cl i)) = Inr l" "o_id o0 = o_id (opt (nodes cl i))"
    and "RaftConsensus_init V now rnd o0 l kv = Inr (Running st)"
  shows "match_inv V ents M can (set_node i st cl)"
proof (rule match_inv_keep [OF assms(1) cluster_invD(2) [OF assms(2)]])
  have ok: "node_ok V inv (nodes cl i)" "cfg_ok M i (nodes cl i)" using cluster_invD(4,3) [OF assms(2,3)] .
  have L: "inv l" "meta_data V l = meta_data V (rlog (nodes cl i))" "ents l = ents (rlog (nodes cl i))"
      "start_index V l = (if ents (rlog (nodes cl i)) = [] then 1 else start_index V (rlog (nodes cl i)))"
    using reopen_spec [OF _ assms(4,5)] ok by (simp_all add: node_ok_def)
  have "o_id o0 = c_id (context_of (nodes cl i))" using ok(2) assms(6) by (simp add: cfg_ok_def)
  then show "moves (context_of (nodes cl i)) (context_of st)"
    using restart_quiet(2) [OF ok(1) _ L(1,2) assms(7)] by (simp add: moves_def)
  show "match_node V ents can st"
    using restart_steady [OF L(1) assms(7)] L(3,4) match_invD(3) [OF assms(1,3)] by (simp add: match_node_def)
qed

lemma step_match:
  assumes "match_inv V ents M can cl" "cluster_inv V inv M cl" "cluster_step V S P reopen M i ev cl cl'" "led (nodes cl i) ev"
  shows "match_inv V ents M (grown ents can (nodes cl' i)) cl'"
proof -
  have i: "i \<in> M" using assms(3) by cases simp_all
  have keep: "match_inv V ents M (grown ents can (nodes cl' i)) cl'" if "match_inv V ents M can cl'"
    using that grown_same [OF that i] by simp
  note Z = cluster_invD(2) [OF assms(2)]
  have ok: "node_ok V inv (nodes cl i)" if "i \<in> M" using cluster_invD(4) [OF assms(2) that] .
  have start: "start_index V (rlog (nodes cl i)) = 1" if "i \<in> M"
    using match_invD(3) [OF assms(1) that] by (simp add: match_node_def)
  have own: "request_ok can m" if "i \<in> M" "role (context_of (nodes cl i)) = kLeader"
      "carries (context_of (nodes cl i)) (ents (rlog (nodes cl i))) ps k m" for m ps k
    using match_invD(3) [OF assms(1) that(1)] that(2,3) by (cases m) (auto simp: match_node_def)
  have steady: "match_inv V ents M can (set_node i st cl)"
    if "i \<in> M" "kept V inv (nodes cl i) st" "steady V ents (\<lambda>_. request_ok can) (nodes cl i) st" for st
    using match_inv_steady [OF assms(1) Z that(1) _ that(3)] that(2) by (simp add: kept_def)
  from assms(3) show ?thesis
  proof cases
    case (step_check now a st)
    then show ?thesis
      using steady main_thread_check_kept [OF ok] main_thread_check_steady keep by (metis match_inv_pending(1))
  next
    case (step_tick a now st)
    show ?thesis
    proof (cases a)
      case Heartbeat
      then have "steady V ents (\<lambda>_. request_ok can) (nodes cl i) st" "context_of st = context_of (nodes cl i)"
        using step_tick assms(4) heartbeat_steady [OF ok start, of S now st] own by (auto elim: steady_weaken)
      then show ?thesis
        using step_tick match_inv_steady [OF assms(1) Z, of i st] keep by auto
    next
      case Campaign
      have "asks c xs k m \<Longrightarrow> request_ok can m" for c xs k m by (cases m) simp_all
      with Campaign have "steady V ents (\<lambda>_. request_ok can) (nodes cl i) st"
        using step_tick campaign_steady [OF ok start, of S now st] by (auto elim: steady_weaken)
      with Campaign show ?thesis
        using step_tick main_thread_act_kept [OF ok, of S now a st] match_inv_steady [OF assms(1) Z, of i st] keep by auto
    qed
  next
    case (step_vote_request j q now r st)
    have "match_inv V ents M can (set_node i st cl)"
      using step_vote_request steady vote_request_kept [OF ok] vote_request_steady [OF ok] by blast
    moreover have "vq_candidate_id q = j"
      using cluster_invD(6) [OF assms(2)] step_vote_request(4) by (auto simp: requests_own_def)
    ultimately show ?thesis
      using request_vote_ok(5,6) [OF ok step_vote_request(5)] step_vote_request cluster_invD(3) [OF assms(2), of i]
      by (intro keep) (auto simp: cfg_ok_def intro!: match_inv_response)
  next
    case step_append_request
    then show ?thesis using append_request_match [OF assms(1,2)] by (intro keep) (auto intro!: match_inv_response)
  next
    case step_install_request
    then show ?thesis using match_invD(4) [OF assms(1)] by fastforce
  next
    case step_vote_response
    then show ?thesis using elect_match [OF assms(1,2)] by simp
  next
    case (step_append_response r x st)
    from append_response_steady [OF ok start step_append_response(5)] step_append_response(3)
    have "steady V ents (\<lambda>_. request_ok can) (nodes cl i) st"
      using own assms(4) step_append_response(1,3) by (auto elim: steady_weaken)
    with step_append_response steady append_response_kept [OF ok] show ?thesis by (intro keep) blast
  next
    case step_install_response
    then show ?thesis using steady install_response_kept [OF ok] install_response_steady [OF ok] by (intro keep) blast
  next
    case step_modify_begin
    then show ?thesis using assms(1) by (intro keep) simp
  next
    case step_modify_append
    then show ?thesis using modify_append_match [OF assms(1,2)] assms(4) by simp
  next
    case (step_modify_finish aim out st)
    then have "rlog st = rlog (nodes cl i)" "outbox st = outbox (nodes cl i)"
      by (auto simp: modify_finish_def split: if_splits prod.splits)
    with step_modify_finish show ?thesis using steady modify_finish_kept [OF ok] steady_same by (intro keep) blast
  next
    case (step_query_begin cmd aim st)
    then have "rlog st = rlog (nodes cl i)" "outbox st = outbox (nodes cl i)"
      by (auto simp: query_begin_def split: if_splits prod.splits)
    with step_query_begin show ?thesis using steady query_begin_kept [OF ok] steady_same by (intro keep) blast
  next
    case (step_snapshot it st)
    then have "rlog st = rlog (nodes cl i)" "outbox st = outbox (nodes cl i)"
      by (auto simp: snapshot_create_def Let_def split: prod.splits)
    with step_snapshot have "match_inv V ents M can (set_node i st cl)"
      using steady snapshot_create_kept [OF ok] steady_same by blast
    with step_snapshot show ?thesis by (intro keep) simp
  next
    case step_trim
    then show ?thesis using assms(4) by simp
  next
    case step_apply
    then show ?thesis using steady apply_step_kept [OF ok] apply_step_steady [OF ok] by (intro keep) blast
  next
    case step_restart
    from restart_match [OF assms(1,2) step_restart(3-6,8)] step_restart(2) show ?thesis by (intro keep) simp
  qed
qed

lemma start_match:
  assumes "cluster_start V inv M cl" "common_start V ents M cl"
  shows "\<exists>can. match_inv V ents M can cl"
proof -
  obtain xs where xs: "start_index V (rlog (nodes cl i)) = 1" "prefix (ents (rlog (nodes cl i))) xs"
      "e \<in> set xs \<Longrightarrow> e_term e \<le> c_term (context_of (nodes cl i))" if "i \<in> M" for i e
    using assms(2) unfolding common_start_def by blast
  have N: "role (context_of (nodes cl i)) = kFollower" "outbox (nodes cl i) = []" if "i \<in> M" for i
    using node_start_ok(3,4) [of M i "nodes cl i"] assms(1) that by (simp_all add: cluster_start_def)
  have "settled M cl t" if "up_to xs t \<noteq> []" for t
    using up_to_empty [OF that] xs(3) N(1) unfolding settled_def passed_def
    by (metis order_le_less role.distinct(1))
  then have "match_inv V ents M (up_to xs) cl"
    using assms(1) xs N up_to_coherent up_to_prefix
    by (auto simp: match_inv_def match_node_def cluster_start_def)
  then show ?thesis by blast
qed

theorem led_reach_match: "led_reach V ents inv S P reopen M cl \<Longrightarrow> \<exists>can. match_inv V ents M can cl"
proof (induction rule: led_reach.induct)
  case (led_step cl i ev cl')
  then show ?case using step_match reach_inv [OF led_reach_reach] by blast
qed (rule start_match)

theorem led_log_matching:
  assumes "led_reach V ents inv S P reopen M cl" "i \<in> M" "j \<in> M"
    and "k < length (ents (rlog (nodes cl i)))" "k < length (ents (rlog (nodes cl j)))"
    and "e_term (ents (rlog (nodes cl i)) ! k) = e_term (ents (rlog (nodes cl j)) ! k)"
  shows "take (Suc k) (ents (rlog (nodes cl i))) = take (Suc k) (ents (rlog (nodes cl j)))"
proof -
  obtain can where m: "match_inv V ents M can cl" using led_reach_match [OF assms(1)] ..
  have "coherent can (ents (rlog (nodes cl n)))" if "n \<in> M" for n
    using match_invD(3) [OF m that] by (simp add: match_node_def)
  then show ?thesis using coherent_agree assms(2-) by blast
qed

end

end
