(* ===== verification/Commit_Steps.thy ===== *)
theory Commit_Steps
  imports Log_Match
begin

text \<open>
  What the operations of a node do to its commit index, in memory and on disk, and to what it
  knows of the logs of its peers.
\<close>

definition progress :: "('l, 's) raft \<Rightarrow> (u64 \<times> u64 \<times> u64) list" where
  "progress st = map (\<lambda>(k, p). (p_id p, next_index p, match_index p)) (peer_set st)"

definition calm :: "'l LogIf \<Rightarrow> ('l, 's) raft \<Rightarrow> ('l, 's) raft \<Rightarrow> bool" where
  "calm V st st' \<longleftrightarrow>
     commit_index (context_of st') = commit_index (context_of st) \<and>
     m_commit_index (meta_data V (rlog st')) = m_commit_index (meta_data V (rlog st)) \<and>
     (role (context_of st') = kLeader \<longrightarrow> progress st' = progress st)"

lemma calm_same:
  "rlog st' = rlog st \<Longrightarrow> peer_set st' = peer_set st \<Longrightarrow> commit_index (context_of st') = commit_index (context_of st) \<Longrightarrow>
     calm V st st'"
  by (simp add: calm_def progress_def)

lemma progress_update:
  assumes "\<And>p. p_id (f p) = p_id p \<and> next_index (f p) = next_index p \<and> match_index (f p) = match_index p"
  shows "progress (st\<lparr>peer_set := peer_update k f ps\<rparr>) = map (\<lambda>(k, p). (p_id p, next_index p, match_index p)) ps"
  using assms by (induction ps) (auto simp: progress_def peer_update_def)

lemma main_thread_check_calm: "main_thread_check now st = (a, st') \<Longrightarrow> calm V st st' \<and> context_of st' = context_of st"
  by (auto simp: main_thread_check_def Let_def intro: calm_same split: role.splits prod.splits)

lemma client_calm:
  "modify_finish P aim st = (x, st') \<Longrightarrow> calm V st st'"
  "query_begin cmd st = (y, st') \<Longrightarrow> calm V st st'"
  "snapshot_create V S st = (z, st') \<Longrightarrow> calm V st st'"
  by (auto simp: modify_finish_def query_begin_def snapshot_create_def inc_epoch_def Let_def intro!: calm_same
      split: if_splits prod.splits)

context log_if
begin

lemma step_down_calm:
  assumes "node_ok V inv st" "c_term (context_of st) < t"
  shows "calm V st (step_down V t k st)"
  using assms by (simp add: calm_def step_down_def Let_def set_ctx_log_def become_follower_def node_ok_def meta_empty_def)

lemma vote_request_calm:
  assumes "node_ok V inv st" "on_request_vote_request V now q st = (r, st')"
  shows "calm V st st'"
  using assms
  by (auto simp: calm_def progress_def on_request_vote_request_def Let_def split_beta node_ok_def set_ctx_log_def become_follower_def
      split: if_splits)

lemma hear_leader_calm:
  assumes "node_ok V inv st" "c_term (context_of st) \<le> t"
  shows "calm V st (hear_leader V now t lid st)"
  using assms by (auto simp: calm_def hear_leader_def Let_def node_ok_def set_ctx_log_def become_follower_def)

lemma campaign_calm:
  assumes "node_ok V inv st" "main_thread_act V S now Campaign st = Inr st'"
  shows "calm V st st'"
proof -
  let ?c = "set_ctx_log (become_candidate V (context_of st) (rlog st)) st"
  have "context_of st' = context_of ?c" "rlog st' = rlog ?c"
    using assms(2) send_request_vote_frame [of V ?c] by (auto simp: main_thread_act_def Let_def)
  then show ?thesis
    using assms(1) by (simp add: calm_def set_ctx_log_def become_candidate_def Let_def node_ok_def)
qed

lemma apply_step_calm:
  assumes "node_ok V inv st" "state_machine_loop_step V S P st = Inr (x, st')"
  shows "calm V st st'"
  using assms
  by (auto simp: calm_def progress_def state_machine_loop_step_def sm_step_def node_ok_def Let_def res_bind_Inr_iff split: if_splits)

lemma modify_append_calm:
  assumes "node_ok V inv st" "log_room V 1 st" "modify_append V e st = (x, st')"
  shows "calm V st st'"
  using assms appendD(5) [of "rlog st" "[e]"]
  by (auto simp: calm_def progress_def modify_append_def Let_def node_ok_def log_room_def)

lemma vote_response_calm:
  assumes "node_ok V inv st" "log_room V 1 st" "on_request_vote_response_async V now r st = Inr (x, st')"
  shows "calm V st st' \<and> (role (context_of st') = kLeader \<longrightarrow> role (context_of st) = kLeader) \<or>
    role (context_of st) = kCandidate \<and> role (context_of st') = kLeader \<and>
    commit_index (context_of st') = commit_index (context_of st) \<and> meta_data V (rlog st') = meta_data V (rlog st) \<and>
    (\<forall>(k, n, m)\<in>set (progress st'). n = last_index V (rlog st') + 1 \<and> m = 0)"
proof -
  let ?ps = "peer_update (vr_peer_id r) (\<lambda>p. p\<lparr>latest_epoch := vr_epoch r\<rparr>) (peer_set st)"
  note A = appendD(5) [of "rlog st" "[noop_entry (c_term (context_of st))]"]
  have pr: "progress (s\<lparr>peer_set := ?ps\<rparr>) = progress st" for s :: "('l, 'a) raft"
    using progress_update [of "\<lambda>p. p\<lparr>latest_epoch := vr_epoch r\<rparr>"] by (simp add: progress_def)
  consider "c_term (context_of st) < vr_term r" "st' = step_down V (vr_term r) (vr_peer_id r) st" | "st' = st"
    | "st' = st\<lparr>peer_set := ?ps\<rparr>" | c where "st' = st\<lparr>peer_set := ?ps, context_of := c\<rparr>" "commit_index c = commit_index (context_of st)" "role c = kCandidate"
    | "role (context_of st) = kCandidate" "role (context_of st') = kLeader" "commit_index (context_of st') = commit_index (context_of st)"
      "rlog st' = snd (append V (rlog st) [noop_entry (c_term (context_of st))])"
      "peer_set st' = map (\<lambda>(k, p). (k, p\<lparr>next_index := last_index V (rlog st') + 1, match_index := 0\<rparr>)) ?ps"
    using assms(3)
    by (auto simp: on_request_vote_response_async_def Let_def become_leader_def split: option.splits if_splits)
  then show ?thesis
  proof cases
    case 3
    then show ?thesis using pr [of st] by (simp add: calm_def)
  next
    case 4
    then have "progress st' = progress st" using pr [of st] by (simp add: progress_def)
    with 4 show ?thesis by (simp add: calm_def)
  next
    case 5
    with A assms(1,2) show ?thesis by (auto simp: log_room_def node_ok_def progress_def)
  next
    case 1
    then have "role (context_of st') = kFollower" by (simp add: step_down_def set_ctx_log_def become_follower_def Let_def)
    with 1 step_down_calm [OF assms(1)] show ?thesis by simp
  qed (auto simp: calm_def)
qed

text \<open>The answer to an append that a leader acts on.\<close>

lemma append_response_cases:
  fixes st :: "('l, 's) raft"
  assumes "node_ok V inv st" "start_index V (rlog st) = 1" "on_append_entries_response_async V S r st = Inr (x, st')"
  obtains (down) "c_term (context_of st) < ar_term r" "st' = step_down V (ar_term r) (ar_peer_id r) st"
  | (old) "st' = st"
  | (stored) st1 where "ar_term r = c_term (context_of st)" "ar_success r" "rlog st1 = rlog st" "context_of st1 = context_of st"
      "outbox st1 = outbox st" "opt st1 = opt st" "try_advance_commit V st1 = Inr (x, st')"
      "peer_set st1 = peer_update (ar_peer_id r) (\<lambda>p. p\<lparr>latest_epoch := ar_epoch r,
         match_index := ar_last_log_index r, next_index := ar_last_log_index r + 1\<rparr>) (peer_set st)"
  | (failed) f where "ar_term r = c_term (context_of st)" "\<not> ar_success r" "context_of st' = context_of st" "rlog st' = rlog st"
      "peer_set st' = peer_update (ar_peer_id r) f (peer_set st)"
      "\<And>p. p_id (f p) = p_id p \<and> match_index (f p) = match_index p \<and>
         (next_index (f p) = next_index p \<or> next_index (f p) = ar_last_log_index r + 1)"
proof (cases "ar_term r = c_term (context_of st)")
  case False
  then consider "c_term (context_of st) < ar_term r" | "ar_term r < c_term (context_of st)" "\<not> c_term (context_of st) < ar_term r"
    by fastforce
  then show thesis
  proof cases
    case 1
    then show thesis by (intro down) (use assms(3) in \<open>simp_all add: on_append_entries_response_async_def\<close>)
  next
    case 2
    then show thesis by (intro old) (use assms(3) in \<open>simp add: on_append_entries_response_async_def\<close>)
  qed
next
  case True
  let ?upd = "\<lambda>f. st\<lparr>peer_set := peer_update (ar_peer_id r) f (peer_set st)\<rparr>"
  let ?e = "\<lambda>p. p\<lparr>latest_epoch := ar_epoch r\<rparr>" and ?i = "ar_last_log_index r"
  have two: "peer_update k f (peer_update k g ps) = peer_update k (\<lambda>p. f (g p)) ps" for k f g and ps :: peers
    by (simp add: peer_update_def split_beta comp_def)
  show thesis
  proof (cases "ar_success r")
    case ok: True
    let ?st1 = "?upd (\<lambda>p. p\<lparr>latest_epoch := ar_epoch r, match_index := ?i, next_index := ?i + 1\<rparr>)"
    have "try_advance_commit V ?st1 = Inr (x, st')"
      using assms(3) True ok by (auto simp: on_append_entries_response_async_def Let_def two split: option.splits)
    from stored [OF True ok _ _ _ _ this] show thesis by simp
  next
    case no: False
    define g where "g = (\<lambda>p. if next_index (the (map_of (peer_set st) (ar_peer_id r))) > ?i + 1
      then p\<lparr>latest_epoch := ar_epoch r, next_index := ?i + 1\<rparr> else p\<lparr>latest_epoch := ar_epoch r\<rparr> :: peer)"
    obtain p y where "send_append_entries_to V S p (?upd g) = Inr (y, st')"
      using assms(3) True no
      by (auto simp: on_append_entries_response_async_def Let_def two res_bind_Inr_iff g_def split: option.splits if_splits)
    moreover have "inv (rlog (?upd g))" "start_index V (rlog (?upd g)) = 1" using assms(1,2) by (simp_all add: node_ok_def)
    ultimately have "st' = ?upd g \<or> (\<exists>q. st' = send_raft_RPC (p_id p) (AppendEntries q) (?upd g))"
      using send_append_entries_to_carries by blast
    then show thesis by (intro failed [OF True no, of g]) (auto simp: g_def)
  qed
qed

lemma try_advance_commit_cases:
  assumes "try_advance_commit V st = Inr (x, st')"
  obtains "st' = st" | n e where "advance_commit_index V st = Inr n" "n \<noteq> 0" "entry V (rlog st) n = Some e" "e_term e = c_term (context_of st)"
    "st' = st\<lparr>context_of := (context_of st)\<lparr>commit_index := n\<rparr>, rlog := snd (set_meta_commit_index V (rlog st) n)\<rparr>"
proof -
  have "n \<noteq> 0" if "\<not> n \<le> c" for n c :: u64 using that by auto
  with assms that show thesis
    by (auto simp: try_advance_commit_def res_bind_Inr_iff of_option_def split: if_splits option.splits)
qed

lemma restart_commit:
  assumes "inv l" "RaftConsensus_init V now rnd o0 l kv = Inr (Running st)"
  shows "commit_index (context_of st) = opt_u64 (m_commit_index (meta_data V l))"
    "m_commit_index (meta_data V (rlog st)) = m_commit_index (meta_data V l)"
proof -
  have "rlog st = snd (become_follower V (c_term (load_context V (o_id o0) l)) (load_context V (o_id o0) l)
      (update_meta V (load_context V (o_id o0) l) l))"
    using assms(2) by (auto simp: RaftConsensus_init_def Let_def split: if_splits prod.splits)
  then show "m_commit_index (meta_data V (rlog st)) = m_commit_index (meta_data V l)"
    using assms(1) by (simp add: become_follower_def Let_def)
  show "commit_index (context_of st) = opt_u64 (m_commit_index (meta_data V l))"
    by (simp add: init_running(2) [OF assms] load_context_def Let_def Context_def opt_u64_def split: option.splits)
qed

end

end
