(* ===== verification/Commit_Core.thy ===== *)
theory Commit_Core
  imports Coherent
begin

text \<open>
  The argument for committed entries on lists and sets alone. \<open>tm\<close>, \<open>lg\<close> and \<open>cd\<close> give the term, the
  log and the candidacy of a node, \<open>gr c p t\<close> says that \<open>p\<close> has voted for \<open>c\<close> in term \<open>t\<close>, and \<open>ak q t x\<close> that
  \<open>q\<close> has reported in term \<open>t\<close> to hold \<open>x\<close> entries. For a term that has had its election, \<open>can t\<close> is the
  log of its leader, \<open>ld t\<close> the leader and \<open>vq t\<close> the nodes that elected it.
\<close>

subsection \<open>Terms along a log\<close>

definition can_ok :: "(u64 \<Rightarrow> entry list) \<Rightarrow> bool" where
  "can_ok can \<longleftrightarrow> (\<forall>t. coherent can (can t) \<and> sorted (map e_term (can t)) \<and> (can t \<noteq> [] \<longrightarrow> e_term (last (can t)) = t))"

lemma can_okD:
  assumes "can_ok can"
  shows "coherent can (can t)" "sorted (map e_term (can t))" "can t \<noteq> [] \<Longrightarrow> e_term (last (can t)) = t"
  using assms by (auto simp: can_ok_def)

lemma sorted_prefix: "prefix xs ys \<Longrightarrow> sorted (map e_term ys) \<Longrightarrow> sorted (map e_term xs)"
  by (auto simp: prefix_def sorted_append)

lemma coherent_last:
  assumes "coherent can xs" "xs \<noteq> []"
  shows "prefix xs (can (e_term (last xs)))"
  using coherentD [OF assms(1), of "length xs - 1"] assms(2) by (simp add: last_conv_nth)

lemma coherent_sorted:
  assumes "can_ok can" "coherent can xs"
  shows "sorted (map e_term xs)"
proof (cases "xs = []")
  case False
  show ?thesis by (rule sorted_prefix [OF coherent_last [OF assms(2) False] can_okD(2) [OF assms(1)]])
qed simp

lemma coherent_term:
  assumes "can_ok can" "coherent can xs" "e \<in> set xs"
  shows "can (e_term e) \<noteq> []"
proof -
  obtain k where "k < length xs" "xs ! k = e" using assms(3) by (auto simp: in_set_conv_nth)
  with coherentD [OF assms(2), of k] show ?thesis by auto
qed

lemma last_term_max: "sorted (map e_term xs) \<Longrightarrow> e \<in> set xs \<Longrightarrow> e_term e \<le> e_term (last xs)"
  by (induction xs rule: rev_induct) (auto simp: sorted_append)

lemma can_term_le: "can_ok can \<Longrightarrow> e \<in> set (can t) \<Longrightarrow> e_term e \<le> t"
  using last_term_max [OF can_okD(2), of can e t] can_okD(3) [of can t] by fastforce

text \<open>The leader's log grows by one entry of its term, at its election or later.\<close>

lemma can_ok_grow:
  assumes "can_ok can" "coherent can xs" "prefix (can t) xs" "\<forall>e\<in>set xs. e_term e \<le> t" "e_term e = t"
  shows "can_ok (can(t := xs @ [e]))" "coherent can ys \<Longrightarrow> coherent (can(t := xs @ [e])) ys"
proof -
  let ?can = "can(t := xs @ [e])"
  have pre: "prefix (can u) (?can u)" for u using assms(3) by simp
  have mono: "coherent can ys \<Longrightarrow> coherent ?can ys" for ys by (rule coherent_mono [OF _ pre])
  show "coherent can ys \<Longrightarrow> coherent ?can ys" by (rule mono)
  have "coherent ?can (xs @ [e])" using mono [OF assms(2)] assms(5) by (intro coherent_snoc) simp_all
  moreover have "sorted (map e_term (xs @ [e]))"
    using coherent_sorted [OF assms(1,2)] assms(4,5) by (simp add: sorted_append)
  ultimately show "can_ok ?can"
    using mono can_okD [OF assms(1)] assms(5) by (simp add: can_ok_def)
qed

text \<open>A cut \<open>take n (can t)\<close> that ends in an entry of term \<open>t\<close> holds no later term.\<close>

definition cut_at :: "(u64 \<Rightarrow> entry list) \<Rightarrow> u64 \<Rightarrow> nat \<Rightarrow> bool" where
  "cut_at can t n \<longleftrightarrow> 0 < n \<and> n \<le> length (can t) \<and> e_term (can t ! (n - 1)) = t"

lemma cut_last:
  assumes "cut_at can t n"
  shows "take n (can t) \<noteq> []" "e_term (last (take n (can t))) = t"
proof -
  have "can t \<noteq> []" "0 < n" "n \<le> length (can t)" using assms by (auto simp: cut_at_def)
  then show "take n (can t) \<noteq> []" by simp
  then show "e_term (last (take n (can t))) = t" using assms by (simp add: last_conv_nth cut_at_def)
qed

lemma cut_terms:
  assumes "can_ok can" "cut_at can t n" "e \<in> set (take n (can t))"
  shows "e_term e \<le> t"
proof -
  have "sorted (map e_term (take n (can t)))" by (rule sorted_prefix [OF take_is_prefix can_okD(2) [OF assms(1)]])
  from last_term_max [OF this assms(3)] cut_last(2) [OF assms(2)] show ?thesis by simp
qed

lemma cut_at_grow:
  assumes "prefix (can t) (can' t)" "n \<le> length (can t)"
  shows "take n (can' t) = take n (can t)" "cut_at can' t n = cut_at can t n"
proof -
  obtain zs where zs: "can' t = can t @ zs" using assms(1) by (rule prefixE)
  with assms(2) show "take n (can' t) = take n (can t)" by simp
  have "n - 1 < length (can t)" if "0 < n" using that assms(2) by simp
  with zs assms(2) show "cut_at can' t n = cut_at can t n" by (auto simp: cut_at_def nth_append)
qed

text \<open>Two prefixes of one log: the one that ends in a later term is the longer one.\<close>

lemma cut_prefix:
  assumes "can_ok can" "cut_at can t n" "prefix (take n (can t)) zs" "prefix ys zs" "ys \<noteq> []" "t < e_term (last ys)"
  shows "prefix (take n (can t)) ys"
proof (rule ccontr)
  assume "\<not> prefix (take n (can t)) ys"
  then have "prefix ys (take n (can t))" using prefix_same_cases [OF assms(3,4)] by blast
  then have "last ys \<in> set (take n (can t))" using assms(5) by (auto simp: prefix_def)
  from cut_terms [OF assms(1,2) this] assms(6) show False by simp
qed

subsection \<open>Logs that carry a cut\<close>

definition carried :: "(u64 \<Rightarrow> entry list) \<Rightarrow> u64 \<Rightarrow> nat \<Rightarrow> u64 set \<Rightarrow> bool" where
  "carried can t n U \<longleftrightarrow> (\<forall>u\<in>U. t < u \<longrightarrow> can u \<noteq> [] \<longrightarrow> prefix (take n (can t)) (can u))"

lemma carried_mono: "carried can t n U \<Longrightarrow> W \<subseteq> U \<Longrightarrow> carried can t n W"
  by (auto simp: carried_def)

text \<open>
  A log that is at least as up to date as one that holds a cut holds the cut, if the leaders
  between hold it: the comparison made for a vote.
\<close>

definition last_term_of :: "entry list \<Rightarrow> u64" where
  "last_term_of xs = (if xs = [] then 0 else e_term (last xs))"

lemma up_to_date_cut:
  assumes ok: "can_ok can" "cut_at can t n" and xs: "coherent can xs" "prefix (take n (can t)) xs"
    and ys: "coherent can ys" "\<forall>e\<in>set ys. e_term e \<le> b"
    and cmp: "last_term_of xs < last_term_of ys \<or> last_term_of ys = last_term_of xs \<and> length xs \<le> length ys"
    and "carried can t n {..b}"
  shows "prefix (take n (can t)) ys"
proof -
  have x: "xs \<noteq> []" using cut_last(1) [OF ok(2)] xs(2) by auto
  have "last (take n (can t)) \<in> set xs" using cut_last(1) [OF ok(2)] set_mono_prefix [OF xs(2)] last_in_set by blast
  from last_term_max [OF coherent_sorted [OF ok(1) xs(1)] this] have lx: "t \<le> e_term (last xs)"
    using cut_last(2) [OF ok(2)] by simp
  have y: "ys \<noteq> []" using cmp x by (auto simp: last_term_of_def)
  note cx = coherent_last [OF xs(1) x] and cy = coherent_last [OF ys(1) y]
  show ?thesis
  proof (cases "e_term (last xs) < e_term (last ys)")
    case True
    with lx have gt: "t < e_term (last ys)" by simp
    moreover have "can (e_term (last ys)) \<noteq> []" using cy y by auto
    moreover have "e_term (last ys) \<le> b" using ys(2) y by simp
    ultimately have "prefix (take n (can t)) (can (e_term (last ys)))" using assms(8) by (simp add: carried_def)
    from cut_prefix [OF ok this cy y gt] show ?thesis .
  next
    case False
    with cmp x y have "e_term (last ys) = e_term (last xs)" "length xs \<le> length ys" by (auto simp: last_term_of_def)
    then have "prefix xs ys" using prefix_length_prefix [OF cx] cy by simp
    then show ?thesis using xs(2) prefix_order.order_trans by blast
  qed
qed

text \<open>Merging keeps every prefix the log shares with the merged one.\<close>

lemma merge_prefix:
  assumes "prefix ps xs" "prefix ps ys" "take p xs = take p ys" "p \<le> length xs" "prefix es (drop p ys)"
  shows "prefix ps (take p xs @ merge_ents (drop p xs) es)"
  using assms(3-)
proof (induction es arbitrary: p)
  case Nil
  then show ?case using assms(1) by (metis append_take_drop_id merge_ents.simps(1))
next
  case (Cons e es)
  let ?r = "take p xs @ merge_ents (drop p xs) (e # es)"
  obtain zs where zs: "drop p ys = e # es @ zs" using Cons.prems(3) by (auto simp: prefix_def)
  then have p: "p < length ys" "ys ! p = e" by (metis drop_eq_Nil2 leI list.distinct(1), metis hd_drop_conv_nth drop_eq_Nil2 leI list.distinct(1) list.sel(1))
  show ?case
  proof (cases "length ps \<le> p")
    case True
    then have "prefix ps (take p xs)" using assms(1) by (auto simp: prefix_def)
    then show ?thesis by simp
  next
    case False
    then have "xs ! p = ys ! p" "p < length xs" using assms(1,2) by (auto simp: prefix_def nth_append)
    then have d: "drop p xs = e # drop (Suc p) xs" "take (Suc p) xs = take p xs @ [e]"
      using p(2) Cons_nth_drop_Suc [of p xs] by (simp_all add: take_Suc_conv_app_nth)
    then have r: "?r = take (Suc p) xs @ merge_ents (drop (Suc p) xs) es" by simp
    have "prefix ps (take (Suc p) xs @ merge_ents (drop (Suc p) xs) es)"
    proof (rule Cons.IH)
      show "take (Suc p) xs = take (Suc p) ys" using d(2) p Cons.prems(1) by (simp add: take_Suc_conv_app_nth)
      show "Suc p \<le> length xs" using \<open>p < length xs\<close> by simp
      show "prefix es (drop (Suc p) ys)" using zs by (metis drop_Suc list.sel(3) prefixI tl_drop)
    qed
    with r show ?thesis by simp
  qed
qed

text \<open>A log that agrees with the leader at a place the leader may send from holds only the leader's entries.\<close>

lemma reach_prefix:
  assumes "can_ok can" "coherent can xs" "\<forall>e\<in>set xs. e_term e \<le> t" "cut_at can t p" "p \<le> length xs" "e_term (xs ! (p - 1)) = t"
  shows "prefix xs (can t)"
proof -
  have p: "0 < p" using assms(4) by (simp add: cut_at_def)
  then have ne: "xs \<noteq> []" using assms(5) by auto
  have "xs ! (p - 1) \<in> set xs" using p assms(5) by simp
  from last_term_max [OF coherent_sorted [OF assms(1,2)] this] assms(3,6) ne
  have "e_term (last xs) = t" by (auto intro: antisym)
  with coherent_last [OF assms(2) ne] show ?thesis by simp
qed

end
