(* ===== verification/Commit_Spec.thy ===== *)
theory Commit_Spec
  imports Commit_Core Majority
begin

text \<open>
  An abstract machine for replication: what elections, appends, merges and acknowledgements do to terms
  and logs, with the history of votes and acknowledgements as part of the state. Its invariant gives
  leader completeness: an entry of the leader's term that a majority has acknowledged is in the
  log of every later leader.
\<close>

record hist =
  h_tm :: "u64 \<Rightarrow> u64"
  h_lg :: "u64 \<Rightarrow> entry list"
  h_cd :: "u64 \<Rightarrow> bool"
  h_gr :: "u64 \<Rightarrow> u64 \<Rightarrow> u64 \<Rightarrow> bool"
  h_ak :: "u64 \<Rightarrow> u64 \<Rightarrow> nat \<Rightarrow> bool"
  h_can :: "u64 \<Rightarrow> entry list"
  h_ld :: "u64 \<Rightarrow> u64"
  h_vq :: "u64 \<Rightarrow> u64 set"

text \<open>The log \<open>ys\<close> is at least as up to date as \<open>xs\<close>.\<close>

definition as_new :: "entry list \<Rightarrow> entry list \<Rightarrow> bool" where
  "as_new xs ys \<longleftrightarrow> last_term_of xs < last_term_of ys \<or> last_term_of ys = last_term_of xs \<and> length xs \<le> length ys"

inductive hist_step :: "u64 set \<Rightarrow> hist \<Rightarrow> hist \<Rightarrow> bool" for M where
  hist_idle: "h_tm h i \<le> t \<Longrightarrow> (b \<Longrightarrow> h_cd h i \<and> t = h_tm h i \<or> h_tm h i < t) \<Longrightarrow>
     hist_step M h (h\<lparr>h_tm := (h_tm h)(i := t), h_cd := (h_cd h)(i := b)\<rparr>)"
| hist_grant: "i \<in> M \<Longrightarrow> c \<in> M \<Longrightarrow> h_tm h i \<le> h_tm h c \<Longrightarrow>
     (h_tm h c = h_tm h i \<Longrightarrow> h_cd h c \<Longrightarrow> as_new (h_lg h i) (h_lg h c)) \<Longrightarrow>
     hist_step M h (h\<lparr>h_gr := (\<lambda>c' p t. h_gr h c' p t \<or> c' = c \<and> p = i \<and> t = h_tm h i)\<rparr>)"
| hist_merge: "i \<in> M \<Longrightarrow> \<not> h_cd h i \<Longrightarrow> h_can h (h_tm h i) \<noteq> [] \<Longrightarrow> prefix zs (h_lg h i) \<or> prefix zs (h_can h (h_tm h i)) \<Longrightarrow>
     (\<And>ps. prefix ps (h_lg h i) \<Longrightarrow> prefix ps (h_can h (h_tm h i)) \<Longrightarrow> prefix ps zs) \<Longrightarrow>
     hist_step M h (h\<lparr>h_lg := (h_lg h)(i := zs)\<rparr>)"
| hist_ack: "i \<in> M \<Longrightarrow> prefix (h_lg h i) (h_can h (h_tm h i)) \<Longrightarrow>
     hist_step M h (h\<lparr>h_ak := (\<lambda>q t x. h_ak h q t x \<or> q = i \<and> t = h_tm h i \<and> x = length (h_lg h i))\<rparr>)"
| hist_append: "i \<in> M \<Longrightarrow> \<not> h_cd h i \<Longrightarrow> h_ld h (h_tm h i) = i \<Longrightarrow> h_can h (h_tm h i) = h_lg h i \<Longrightarrow> h_lg h i \<noteq> [] \<Longrightarrow> e_term e = h_tm h i \<Longrightarrow>
     hist_step M h (h\<lparr>h_lg := (h_lg h)(i := h_lg h i @ [e]), h_can := (h_can h)(h_tm h i := h_lg h i @ [e])\<rparr>)"
| hist_elect: "i \<in> M \<Longrightarrow> h_cd h i \<Longrightarrow> h_can h (h_tm h i) = [] \<Longrightarrow> Q \<subseteq> M \<Longrightarrow> card Q > card M div 2 \<Longrightarrow>
     (\<forall>p\<in>Q. p = i \<or> h_gr h i p (h_tm h i)) \<Longrightarrow> e_term e = h_tm h i \<Longrightarrow>
     hist_step M h (h\<lparr>h_lg := (h_lg h)(i := h_lg h i @ [e]), h_can := (h_can h)(h_tm h i := h_lg h i @ [e]), h_ld := (h_ld h)(h_tm h i := i),
       h_vq := (h_vq h)(h_tm h i := Q), h_cd := (h_cd h)(i := False)\<rparr>)"

definition hist_start :: "hist \<Rightarrow> bool" where
  "hist_start h \<longleftrightarrow> h_lg h = (\<lambda>_. []) \<and> h_can h = (\<lambda>_. []) \<and> h_cd h = (\<lambda>_. False) \<and>
     h_gr h = (\<lambda>_ _ _. False) \<and> h_ak h = (\<lambda>_ _ _. False)"

subsection \<open>Acknowledged and chosen\<close>

text \<open>A leader acknowledges its own log.\<close>

definition acked :: "hist \<Rightarrow> u64 \<Rightarrow> u64 \<Rightarrow> nat \<Rightarrow> bool" where
  "acked h q t x \<longleftrightarrow> h_ak h q t x \<or> h_ld h t = q \<and> h_can h t \<noteq> [] \<and> x \<le> length (h_can h t)"

definition chosen :: "u64 set \<Rightarrow> hist \<Rightarrow> u64 \<Rightarrow> nat \<Rightarrow> bool" where
  "chosen M h t n \<longleftrightarrow> cut_at (h_can h) t n \<and>
     (\<exists>Q\<subseteq>M. card Q > card M div 2 \<and> (\<forall>q\<in>Q. \<exists>x\<ge>n. acked h q t x))"

definition hist_ok :: "u64 set \<Rightarrow> hist \<Rightarrow> bool" where
  "hist_ok M h \<longleftrightarrow> can_ok (h_can h) \<and>
     (\<forall>q. coherent (h_can h) (h_lg h q) \<and> (\<forall>e\<in>set (h_lg h q). e_term e \<le> h_tm h q)) \<and>
     (\<forall>c p t. h_gr h c p t \<longrightarrow> t \<le> h_tm h p \<and> t \<le> h_tm h c) \<and>
     (\<forall>t. h_can h t \<noteq> [] \<longrightarrow> h_vq h t \<subseteq> M \<and> card (h_vq h t) > card M div 2 \<and> (\<forall>p\<in>h_vq h t. t \<le> h_tm h p)) \<and>
     (\<forall>q t x. acked h q t x \<longrightarrow> t \<le> h_tm h q \<and> x \<le> length (h_can h t) \<and> (h_tm h q = t \<longrightarrow> prefix (h_lg h q) (h_can h t)))"

definition keeps :: "hist \<Rightarrow> bool" where
  "keeps h \<longleftrightarrow>
     (\<forall>q t x n. acked h q t x \<longrightarrow> n \<le> x \<longrightarrow> cut_at (h_can h) t n \<longrightarrow> carried (h_can h) t n {..h_tm h q} \<longrightarrow>
        prefix (take n (h_can h t)) (h_lg h q)) \<and>
     (\<forall>q t x n c. acked h q t x \<longrightarrow> n \<le> x \<longrightarrow> cut_at (h_can h) t n \<longrightarrow> h_gr h c q (h_tm h c) \<longrightarrow> h_cd h c \<longrightarrow> t < h_tm h c \<longrightarrow>
        carried (h_can h) t n {..h_tm h c} \<longrightarrow> prefix (take n (h_can h t)) (h_lg h c)) \<and>
     (\<forall>q t x n u. acked h q t x \<longrightarrow> n \<le> x \<longrightarrow> cut_at (h_can h) t n \<longrightarrow> h_can h u \<noteq> [] \<longrightarrow> q \<in> h_vq h u \<longrightarrow> t < u \<longrightarrow>
        carried (h_can h) t n {..<u} \<longrightarrow> prefix (take n (h_can h t)) (h_can h u))"

lemma hist_okD:
  assumes "hist_ok M h"
  shows "can_ok (h_can h)" "coherent (h_can h) (h_lg h q)" "e \<in> set (h_lg h q) \<Longrightarrow> e_term e \<le> h_tm h q"
    "h_gr h c p t \<Longrightarrow> t \<le> h_tm h p" "h_gr h c p t \<Longrightarrow> t \<le> h_tm h c"
    "h_can h t \<noteq> [] \<Longrightarrow> h_vq h t \<subseteq> M" "h_can h t \<noteq> [] \<Longrightarrow> card (h_vq h t) > card M div 2" "h_can h t \<noteq> [] \<Longrightarrow> p \<in> h_vq h t \<Longrightarrow> t \<le> h_tm h p"
    "acked h q t x \<Longrightarrow> t \<le> h_tm h q" "acked h q t x \<Longrightarrow> x \<le> length (h_can h t)"
    "acked h q t x \<Longrightarrow> h_tm h q = t \<Longrightarrow> prefix (h_lg h q) (h_can h t)"
  using assms unfolding hist_ok_def by blast+

lemma keepsD:
  assumes "keeps h" "acked h q t x" "n \<le> x" "cut_at (h_can h) t n"
  shows "carried (h_can h) t n {..h_tm h q} \<Longrightarrow> prefix (take n (h_can h t)) (h_lg h q)"
    "h_gr h c q (h_tm h c) \<Longrightarrow> h_cd h c \<Longrightarrow> t < h_tm h c \<Longrightarrow> carried (h_can h) t n {..h_tm h c} \<Longrightarrow> prefix (take n (h_can h t)) (h_lg h c)"
    "h_can h u \<noteq> [] \<Longrightarrow> q \<in> h_vq h u \<Longrightarrow> t < u \<Longrightarrow> carried (h_can h) t n {..<u} \<Longrightarrow> prefix (take n (h_can h t)) (h_can h u)"
  using assms unfolding keeps_def by blast+

lemma hist_okI:
  assumes "can_ok (h_can h)" "\<And>q. coherent (h_can h) (h_lg h q)" "\<And>q e. e \<in> set (h_lg h q) \<Longrightarrow> e_term e \<le> h_tm h q"
    "\<And>c p t. h_gr h c p t \<Longrightarrow> t \<le> h_tm h p \<and> t \<le> h_tm h c"
    "\<And>t. h_can h t \<noteq> [] \<Longrightarrow> h_vq h t \<subseteq> M \<and> card (h_vq h t) > card M div 2" "\<And>t p. h_can h t \<noteq> [] \<Longrightarrow> p \<in> h_vq h t \<Longrightarrow> t \<le> h_tm h p"
    "\<And>q t x. acked h q t x \<Longrightarrow> t \<le> h_tm h q \<and> x \<le> length (h_can h t)"
    "\<And>q x. acked h q (h_tm h q) x \<Longrightarrow> prefix (h_lg h q) (h_can h (h_tm h q))"
  shows "hist_ok M h"
  using assms unfolding hist_ok_def by blast

lemma keepsI:
  assumes "\<And>q t x n. acked h q t x \<Longrightarrow> n \<le> x \<Longrightarrow> cut_at (h_can h) t n \<Longrightarrow> carried (h_can h) t n {..h_tm h q} \<Longrightarrow>
      prefix (take n (h_can h t)) (h_lg h q)"
    "\<And>q t x n c. acked h q t x \<Longrightarrow> n \<le> x \<Longrightarrow> cut_at (h_can h) t n \<Longrightarrow> h_gr h c q (h_tm h c) \<Longrightarrow> h_cd h c \<Longrightarrow> t < h_tm h c \<Longrightarrow>
      carried (h_can h) t n {..h_tm h c} \<Longrightarrow> prefix (take n (h_can h t)) (h_lg h c)"
    "\<And>q t x n u. acked h q t x \<Longrightarrow> n \<le> x \<Longrightarrow> cut_at (h_can h) t n \<Longrightarrow> h_can h u \<noteq> [] \<Longrightarrow> q \<in> h_vq h u \<Longrightarrow> t < u \<Longrightarrow>
      carried (h_can h) t n {..<u} \<Longrightarrow> prefix (take n (h_can h t)) (h_can h u)"
  shows "keeps h"
  using assms unfolding keeps_def by blast

text \<open>Leader completeness, from the invariant.\<close>

lemma chosen_carried:
  assumes "hist_ok M h" "keeps h" "finite M" "chosen M h t n" "t < u" "h_can h u \<noteq> []"
  shows "prefix (take n (h_can h t)) (h_can h u)"
  using assms(5,6)
proof (induction "unat u" arbitrary: u rule: less_induct)
  case less
  obtain Q where Q: "cut_at (h_can h) t n" "Q \<subseteq> M" "card Q > card M div 2" "\<forall>q\<in>Q. \<exists>x\<ge>n. acked h q t x"
    using assms(4) by (auto simp: chosen_def)
  have "Q \<inter> h_vq h u \<noteq> {}"
    by (rule majorities_meet [OF assms(3) Q(2) hist_okD(6) [OF assms(1) less.prems(2)] Q(3) hist_okD(7) [OF assms(1) less.prems(2)]])
  then obtain q x where q: "q \<in> h_vq h u" "n \<le> x" "acked h q t x" using Q(4) by blast
  have "carried (h_can h) t n {..<u}" using less.hyps by (auto simp: carried_def idx_order)
  from keepsD(3) [OF assms(2) q(3,2) Q(1) less.prems(2) q(1) less.prems(1) this] show ?case .
qed

subsection \<open>Every step keeps the invariant\<close>

lemma hist_idle_ok:
  assumes "hist_ok M h" "keeps h" "h_tm h i \<le> t" "b \<Longrightarrow> h_cd h i \<and> t = h_tm h i \<or> h_tm h i < t"
  defines "h' \<equiv> h\<lparr>h_tm := (h_tm h)(i := t), h_cd := (h_cd h)(i := b)\<rparr>"
  shows "hist_ok M h'" "keeps h'"
proof -
  note D = hist_okD [OF assms(1)]
  have h_tm: "h_tm h q \<le> h_tm h' q" for q using assms(3) by (simp add: h'_def)
  have same: "h_lg h' = h_lg h" "h_can h' = h_can h" "h_gr h' = h_gr h" "acked h' = acked h" "h_vq h' = h_vq h"
    by (simp_all add: h'_def acked_def fun_eq_iff)
  have up: "carried (h_can h) u n {..h_tm h' q} \<Longrightarrow> carried (h_can h) u n {..h_tm h q}" for u n q
    using h_tm [of q] by (auto elim: carried_mono)
  have "acked h q u x \<Longrightarrow> h_tm h' q = u \<Longrightarrow> prefix (h_lg h q) (h_can h u)" for q u x
    using D(9) [of q u x] D(11) [of q u x] h_tm [of q] by auto
  then show "hist_ok M h'"
    by (intro hist_okI) (auto simp: same D(1,2,6,7,10) intro: order_trans [OF _ h_tm] D(3,4,5,8,9))
  have cand: "h_gr h c q (h_tm h' c) \<Longrightarrow> h_cd h' c \<Longrightarrow> h_cd h c \<and> h_tm h' c = h_tm h c" for c q
    using assms(4) D(5) [of c q] by (fastforce simp: h'_def split: if_splits)
  show "keeps h'"
  proof (rule keepsI; simp only: same)
    show "prefix (take n (h_can h u)) (h_lg h q)"
      if "acked h q u x" "n \<le> x" "cut_at (h_can h) u n" "carried (h_can h) u n {..h_tm h' q}" for q u x n
      using keepsD(1) [OF assms(2) that(1-3) up [OF that(4)]] .
    show "prefix (take n (h_can h u)) (h_lg h c)"
      if "acked h q u x" "n \<le> x" "cut_at (h_can h) u n" "h_gr h c q (h_tm h' c)" "h_cd h' c" "u < h_tm h' c" "carried (h_can h) u n {..h_tm h' c}" for q u x n c
      using keepsD(2) [OF assms(2) that(1-3)] cand [OF that(4,5)] that(4-7) by simp
  qed (rule keepsD(3) [OF assms(2)])
qed

lemma hist_grant_ok:
  assumes "hist_ok M h" "keeps h" "h_tm h i \<le> h_tm h c" "h_tm h c = h_tm h i \<Longrightarrow> h_cd h c \<Longrightarrow> as_new (h_lg h i) (h_lg h c)"
  defines "h' \<equiv> h\<lparr>h_gr := (\<lambda>c' p t. h_gr h c' p t \<or> c' = c \<and> p = i \<and> t = h_tm h i)\<rparr>"
  shows "hist_ok M h'" "keeps h'"
proof -
  note D = hist_okD [OF assms(1)]
  have same: "h_lg h' = h_lg h" "h_can h' = h_can h" "h_tm h' = h_tm h" "acked h' = acked h" "h_vq h' = h_vq h" "h_cd h' = h_cd h"
    by (simp_all add: h'_def acked_def fun_eq_iff)
  have h_gr: "h_gr h' c' p t \<longleftrightarrow> h_gr h c' p t \<or> c' = c \<and> p = i \<and> t = h_tm h i" for c' p t by (simp add: h'_def)
  show "hist_ok M h'"
    by (rule hist_okI) (auto simp: same h_gr D(1,2,6,7,10) assms(3) intro: D)
  have new: "prefix (take n (h_can h t)) (h_lg h c)"
    if a: "acked h i t x" "n \<le> x" "cut_at (h_can h) t n" "h_tm h c = h_tm h i" "h_cd h c" "carried (h_can h) t n {..h_tm h c}" for t x n
  proof -
    have "prefix (take n (h_can h t)) (h_lg h i)" using keepsD(1) [OF assms(2) a(1-3)] a(4,6) by simp
    from up_to_date_cut [OF D(1) a(3) D(2) this D(2) _ _ a(6)] assms(4) [OF a(4,5)] D(3) show ?thesis
      by (auto simp: as_new_def)
  qed
  show "keeps h'"
  proof (rule keepsI; simp only: same h_gr)
    show "prefix (take n (h_can h t)) (h_lg h d)"
      if "acked h q t x" "n \<le> x" "cut_at (h_can h) t n" "h_gr h d q (h_tm h d) \<or> d = c \<and> q = i \<and> h_tm h d = h_tm h i" "h_cd h d" "t < h_tm h d"
        "carried (h_can h) t n {..h_tm h d}" for q t x n d
      using that(4)
    proof (elim disjE conjE)
      assume "h_gr h d q (h_tm h d)"
      from keepsD(2) [OF assms(2) that(1-3) this that(5-7)] show ?thesis .
    next
      assume "d = c" "q = i" "h_tm h d = h_tm h i"
      with new that show ?thesis by blast
    qed
  qed (use keepsD [OF assms(2)] in blast)+
qed

lemma hist_merge_ok:
  assumes "hist_ok M h" "keeps h" "\<not> h_cd h i" "h_can h (h_tm h i) \<noteq> []" "prefix zs (h_lg h i) \<or> prefix zs (h_can h (h_tm h i))"
    and common: "\<And>ps. prefix ps (h_lg h i) \<Longrightarrow> prefix ps (h_can h (h_tm h i)) \<Longrightarrow> prefix ps zs"
  defines "h' \<equiv> h\<lparr>h_lg := (h_lg h)(i := zs)\<rparr>"
  shows "hist_ok M h'" "keeps h'"
proof -
  note D = hist_okD [OF assms(1)]
  have same: "h_can h' = h_can h" "h_tm h' = h_tm h" "acked h' = acked h" "h_vq h' = h_vq h" "h_cd h' = h_cd h" "h_gr h' = h_gr h"
    by (simp_all add: h'_def acked_def fun_eq_iff)
  have h_lg: "h_lg h' q = (if q = i then zs else h_lg h q)" for q by (simp add: h'_def)
  have coh: "coherent (h_can h) zs"
    using assms(5) D(2) can_okD(1) [OF D(1)] coherent_take unfolding prefix_def by (metis append_eq_conv_conj)
  have low: "\<forall>e\<in>set zs. e_term e \<le> h_tm h i" 
    using assms(5) D(3) can_term_le [OF D(1)] set_mono_prefix by (blast dest: subsetD)
  have "prefix (h_lg h i) (h_can h (h_tm h i)) \<Longrightarrow> prefix zs (h_can h (h_tm h i))"
    using assms(5) prefix_order.order_trans by blast
  with coh low show "hist_ok M h'"
    by (intro hist_okI; simp only: same h_lg; use D in \<open>auto split: if_splits\<close>)
  have "prefix (take n (h_can h t)) zs"
    if a: "acked h i t x" "n \<le> x" "cut_at (h_can h) t n" "carried (h_can h) t n {..h_tm h i}" for t x n
  proof (rule common)
    show "prefix (take n (h_can h t)) (h_lg h i)" by (rule keepsD(1) [OF assms(2) a])
    show "prefix (take n (h_can h t)) (h_can h (h_tm h i))"
    proof (cases "t = h_tm h i")
      case False
      with D(9) [OF a(1)] have "t < h_tm h i" by simp
      with a(4) assms(4) show ?thesis by (simp add: carried_def)
    qed (simp add: take_is_prefix)
  qed
  note new = this
  show "keeps h'"
  proof (rule keepsI; simp only: same h_lg)
    show "prefix (take n (h_can h t)) (if q = i then zs else h_lg h q)"
      if "acked h q t x" "n \<le> x" "cut_at (h_can h) t n" "carried (h_can h) t n {..h_tm h q}" for q t x n
      using new keepsD(1) [OF assms(2) that] that by (cases "q = i") simp_all
    show "prefix (take n (h_can h t)) (if c = i then zs else h_lg h c)"
      if "acked h q t x" "n \<le> x" "cut_at (h_can h) t n" "h_gr h c q (h_tm h c)" "h_cd h c" "t < h_tm h c" "carried (h_can h) t n {..h_tm h c}" for q t x n c
      using keepsD(2) [OF assms(2) that] that(5) assms(3) by (cases "c = i") simp_all
  qed (rule keepsD(3) [OF assms(2)])
qed

lemma hist_ack_ok:
  assumes "hist_ok M h" "keeps h" "prefix (h_lg h i) (h_can h (h_tm h i))"
  defines "h' \<equiv> h\<lparr>h_ak := (\<lambda>q t x. h_ak h q t x \<or> q = i \<and> t = h_tm h i \<and> x = length (h_lg h i))\<rparr>"
  shows "hist_ok M h'" "keeps h'"
proof -
  note D = hist_okD [OF assms(1)]
  have same: "h_can h' = h_can h" "h_tm h' = h_tm h" "h_vq h' = h_vq h" "h_cd h' = h_cd h" "h_gr h' = h_gr h" "h_lg h' = h_lg h" "h_ld h' = h_ld h"
    by (simp_all add: h'_def)
  have acked: "acked h' q t x \<longleftrightarrow> acked h q t x \<or> q = i \<and> t = h_tm h i \<and> x = length (h_lg h i)" for q t x
    by (auto simp: h'_def acked_def)
  show "hist_ok M h'"
    by (rule hist_okI) (auto simp: same acked D(1,2,6,7) assms(3) prefix_length_le [OF assms(3)] intro: D)
  have own: "prefix (take n (h_can h (h_tm h i))) (h_lg h i)" if "n \<le> length (h_lg h i)" for n
    using assms(3) that by (metis prefix_length_prefix take_is_prefix length_take min.cobounded2 order_trans)
  have late: "\<not> (h_gr h c i (h_tm h c) \<and> h_tm h i < h_tm h c)" "h_can h u \<noteq> [] \<Longrightarrow> i \<in> h_vq h u \<Longrightarrow> \<not> h_tm h i < u" for c u
    using D(4) D(8) by (auto simp: not_less)
  show "keeps h'"
    by (rule keepsI; simp only: same acked; use keepsD [OF assms(2)] own late in blast)
qed

text \<open>The step of a leader, at its election and later.\<close>

lemma hist_grow_ok:
  fixes h h' :: hist and i e
  defines "t0 \<equiv> h_tm h i" and "xs \<equiv> h_lg h i @ [e]"
  assumes "hist_ok M h" "keeps h" and pre: "prefix (h_can h t0) (h_lg h i)" and e: "e_term e = t0"
    and h': "h_lg h' = (h_lg h)(i := xs)" "h_can h' = (h_can h)(t0 := xs)" "h_tm h' = h_tm h" "h_gr h' = h_gr h" "h_ak h' = h_ak h"
      "\<And>q. h_cd h' q \<Longrightarrow> h_cd h q \<and> q \<noteq> i" "h_ld h' t0 = i" "\<And>u. u \<noteq> t0 \<Longrightarrow> h_ld h' u = h_ld h u \<and> h_vq h' u = h_vq h u"
    and old: "h_can h t0 \<noteq> [] \<Longrightarrow> h_ld h t0 = i"
    and h_vq: "h_vq h' t0 \<subseteq> M" "card (h_vq h' t0) > card M div 2" "\<And>p. p \<in> h_vq h' t0 \<Longrightarrow> t0 \<le> h_tm h p"
      "\<And>q t x n. acked h q t x \<Longrightarrow> n \<le> x \<Longrightarrow> cut_at (h_can h) t n \<Longrightarrow> q \<in> h_vq h' t0 \<Longrightarrow> t < t0 \<Longrightarrow>
        carried (h_can h) t n {..<t0} \<Longrightarrow> prefix (take n (h_can h t)) (h_lg h i)"
  shows "hist_ok M h'" "keeps h'"
proof -
  note D = hist_okD [OF assms(3)]
  have grow: "prefix (h_can h u) (h_can h' u)" for u using pre by (simp add: h'(2) xs_def)
  have low: "\<forall>e\<in>set (h_lg h i). e_term e \<le> t0" using D(3) by (auto simp: t0_def)
  have ok: "can_ok (h_can h')" and mono: "coherent (h_can h) ys \<Longrightarrow> coherent (h_can h') ys" for ys
    unfolding h'(2) xs_def using can_ok_grow [OF D(1,2) pre low e] by simp_all
  have own: "coherent (h_can h') xs"
    using mono [OF D(2)] e unfolding xs_def h'(2) by (intro coherent_snoc) simp_all
  have ack: "acked h' q t x \<Longrightarrow> acked h q t x \<or> q = i \<and> t = t0 \<and> x \<le> length xs" for q t x
    using h'(5,7,8) old by (cases "t = t0") (auto simp: acked_def h'(2))
  have same: "take n (h_can h' t) = take n (h_can h t)" "cut_at (h_can h') t n = cut_at (h_can h) t n" if "n \<le> length (h_can h t)" for n t
    using cut_at_grow [of "h_can h" t "h_can h'" n] grow that by simp_all
  have ungrow: "carried (h_can h) t n U" if c: "carried (h_can h') t n U" "n \<le> length (h_can h t)" "cut_at (h_can h) t n" for t n U
    unfolding carried_def
  proof (intro ballI impI)
    fix u assume u: "u \<in> U" "t < u" "h_can h u \<noteq> []"
    have p: "prefix (take n (h_can h t)) (h_can h' u)"
      using c(1) u grow [of u] same(1) [OF c(2)] by (auto simp: carried_def prefix_def)
    show "prefix (take n (h_can h t)) (h_can h u)"
    proof (cases "u = t0")
      case True
      show ?thesis
      proof (rule ccontr)
        assume no: "\<not> prefix (take n (h_can h t)) (h_can h u)"
        have "h_can h u \<noteq> [] \<Longrightarrow> e_term (last (h_can h u)) = u" by (rule can_okD(3) [OF D(1)])
        with u have l: "t < e_term (last (h_can h u))" by simp
        from cut_prefix [OF D(1) c(3) p grow u(3) l] no show False by simp
      qed
    qed (use p h'(2) in simp)
  qed
  show "hist_ok M h'"
  proof (rule hist_okI)
    show "coherent (h_can h') (h_lg h' q)" for q using own mono D(2) by (simp add: h'(1))
    show "e_term x \<le> h_tm h' q" if "x \<in> set (h_lg h' q)" for q x
      using that D(3) e by (auto simp: h'(1,3) xs_def t0_def split: if_splits)
    show "t \<le> h_tm h' q \<and> x \<le> length (h_can h' t)" if "acked h' q t x" for q t x
      using ack [OF that]
    proof
      assume "acked h q t x"
      then show ?thesis using D(9,10) prefix_length_le [OF grow, of t] order_trans unfolding h'(3) by blast
    qed (simp add: h'(2,3) t0_def)
    show "prefix (h_lg h' q) (h_can h' (h_tm h' q))" if "acked h' q (h_tm h' q) x" for q x
      using ack [OF that] D(11) [of q "h_tm h q" x] grow [of "h_tm h q"]
      by (auto simp: h'(1,2,3) t0_def xs_def intro: prefix_order.order_trans split: if_splits)
    show "h_vq h' t \<subseteq> M \<and> card (h_vq h' t) > card M div 2" if "h_can h' t \<noteq> []" for t
      using that D(6,7) h'(2,8) h_vq(1,2) by (cases "t = t0") auto
    show "t \<le> h_tm h' p" if "h_can h' t \<noteq> []" "p \<in> h_vq h' t" for t p
      using that D(8) h'(2,3,8) h_vq(3) by (cases "t = t0") auto
  qed (use ok D(4,5) in \<open>auto simp: h'(3,4)\<close>)
  have late: "\<not> (h_gr h c i (h_tm h c) \<and> t0 < h_tm h c)" "u \<noteq> t0 \<Longrightarrow> h_can h u \<noteq> [] \<Longrightarrow> i \<in> h_vq h u \<Longrightarrow> \<not> t0 < u" for c u
    using D(4) D(8) by (auto simp: not_less t0_def)
  have lgrow: "prefix (h_lg h q) (h_lg h' q)" for q by (simp add: h'(1) xs_def)
  show "keeps h'"
  proof (rule keepsI)
    fix q t x n assume a: "acked h' q t x" "n \<le> x" "cut_at (h_can h') t n" "carried (h_can h') t n {..h_tm h' q}"
    from ack [OF a(1)] show "prefix (take n (h_can h' t)) (h_lg h' q)"
    proof
      assume o: "acked h q t x"
      then have n: "n \<le> length (h_can h t)" using a(2) D(10) order_trans by blast
      have "prefix (take n (h_can h t)) (h_lg h q)"
        using keepsD(1) [OF assms(4) o a(2)] ungrow [OF a(4) n] a(3) same [OF n] by (simp add: h'(3))
      then show ?thesis using lgrow same(1) [OF n] prefix_order.order_trans by metis
    qed (simp add: h'(1,2) take_is_prefix)
  next
    fix q t x n c assume a: "acked h' q t x" "n \<le> x" "cut_at (h_can h') t n" "h_gr h' c q (h_tm h' c)" "h_cd h' c" "t < h_tm h' c"
      "carried (h_can h') t n {..h_tm h' c}"
    from ack [OF a(1)] late a(4,6) have o: "acked h q t x" by (auto simp: h'(3,4))
    then have n: "n \<le> length (h_can h t)" using a(2) D(10) order_trans by blast
    have "prefix (take n (h_can h t)) (h_lg h c)"
      using keepsD(2) [OF assms(4) o a(2)] ungrow [OF a(7) n] a(3-6) same [OF n] h'(6) by (simp add: h'(3,4))
    then show "prefix (take n (h_can h' t)) (h_lg h' c)" using lgrow same(1) [OF n] prefix_order.order_trans by metis
  next
    fix q t x n u assume a: "acked h' q t x" "n \<le> x" "cut_at (h_can h') t n" "h_can h' u \<noteq> []" "q \<in> h_vq h' u" "t < u"
      "carried (h_can h') t n {..<u}"
    have o: "acked h q t x"
      using ack [OF a(1)]
    proof
      assume "q = i \<and> t = t0 \<and> x \<le> length xs"
      with a(4-6) late(2) [of u] h'(2,8) show ?thesis by (cases "u = t0") auto
    qed
    then have n: "n \<le> length (h_can h t)" using a(2) D(10) order_trans by blast
    have c: "cut_at (h_can h) t n" "carried (h_can h) t n {..<u}" using ungrow [OF a(7) n] a(3) same [OF n] by simp_all
    have "prefix (take n (h_can h t)) (h_can h' u)"
    proof (cases "u = t0")
      case True
      then show ?thesis using h_vq(4) [OF o a(2) c(1)] a(5,6) c(2) by (simp add: h'(2) xs_def)
    next
      case False
      then show ?thesis using keepsD(3) [OF assms(4) o a(2) c(1) _ _ a(6) c(2)] a(4,5) h'(2,8) by simp
    qed
    then show "prefix (take n (h_can h' t)) (h_can h' u)" using same(1) [OF n] by simp
  qed
qed

lemma hist_append_ok:
  assumes "hist_ok M h" "keeps h" "\<not> h_cd h i" "h_ld h (h_tm h i) = i" "h_can h (h_tm h i) = h_lg h i" "h_lg h i \<noteq> []" "e_term e = h_tm h i"
  defines "h' \<equiv> h\<lparr>h_lg := (h_lg h)(i := h_lg h i @ [e]), h_can := (h_can h)(h_tm h i := h_lg h i @ [e])\<rparr>"
  shows "hist_ok M h'" "keeps h'"
proof -
  note D = hist_okD [OF assms(1)]
  have ne: "h_can h (h_tm h i) \<noteq> []" using assms(5,6) by simp
  have keep: "prefix (take n (h_can h t)) (h_lg h i)"
    if "acked h q t x" "n \<le> x" "cut_at (h_can h) t n" "q \<in> h_vq h (h_tm h i)" "t < h_tm h i" "carried (h_can h) t n {..<h_tm h i}" for q t x n
    using keepsD(3) [OF assms(2) that(1-3) ne that(4-6)] assms(5) by simp
  show "hist_ok M h'" "keeps h'"
    by (rule hist_grow_ok [of M h i e h', OF assms(1,2) _ assms(7) _ _ _ _ _ _ _ _ _ _ _ _ keep];
        use assms(3-5) D(6-8) [OF ne] in \<open>auto simp: h'_def\<close>)+
qed

lemma hist_elect_ok:
  assumes "hist_ok M h" "keeps h" "h_cd h i" "h_can h (h_tm h i) = []" "Q \<subseteq> M" "card Q > card M div 2"
    "\<forall>p\<in>Q. p = i \<or> h_gr h i p (h_tm h i)" "e_term e = h_tm h i"
  defines "h' \<equiv> h\<lparr>h_lg := (h_lg h)(i := h_lg h i @ [e]), h_can := (h_can h)(h_tm h i := h_lg h i @ [e]), h_ld := (h_ld h)(h_tm h i := i),
       h_vq := (h_vq h)(h_tm h i := Q), h_cd := (h_cd h)(i := False)\<rparr>"
  shows "hist_ok M h'" "keeps h'"
proof -
  note D = hist_okD [OF assms(1)]
  have keep: "prefix (take n (h_can h t)) (h_lg h i)"
    if a: "acked h q t x" "n \<le> x" "cut_at (h_can h) t n" "q \<in> Q" "t < h_tm h i" "carried (h_can h) t n {..<h_tm h i}" for q t x n
  proof -
    have "carried (h_can h) t n {..h_tm h i}"
      using a(6) assms(4) by (auto simp: carried_def order_le_less)
    then show ?thesis
      using keepsD(1,2) [OF assms(2) a(1-3)] assms(3,7) a(4,5) by (cases "q = i") auto
  qed
  have up: "p \<in> Q \<Longrightarrow> h_tm h i \<le> h_tm h p" for p using assms(7) D(4) by auto
  show "hist_ok M h'" "keeps h'"
    by (rule hist_grow_ok [of M h i e h', OF assms(1,2) _ assms(8)];
        use assms(4-6) keep up in \<open>auto simp: h'_def split: if_splits\<close>)+
qed

lemma hist_step_ok:
  assumes "hist_step M h h'" "hist_ok M h" "keeps h"
  shows "hist_ok M h' \<and> keeps h'"
  using assms(1)
proof cases
  case hist_idle
  then show ?thesis using hist_idle_ok [OF assms(2,3)] by blast
next
  case hist_grant
  then show ?thesis using hist_grant_ok [OF assms(2,3)] by blast
next
  case hist_merge
  then show ?thesis using hist_merge_ok [OF assms(2,3)] by blast
next
  case hist_ack
  then show ?thesis using hist_ack_ok [OF assms(2,3)] by blast
next
  case hist_append
  then show ?thesis using hist_append_ok [OF assms(2,3)] by blast
next
  case hist_elect
  then show ?thesis using hist_elect_ok [OF assms(2,3)] by blast
qed

lemma hist_start_ok: "hist_start h \<Longrightarrow> hist_ok M h \<and> keeps h"
  by (auto simp: hist_start_def hist_ok_def keeps_def acked_def can_ok_def)

subsection \<open>What later steps do not take back\<close>

text \<open>Beyond \<open>x\<close> entries, the log of a node that is still in term \<open>t\<close> holds only what the leader of \<open>t\<close> has.\<close>

definition tail_ok :: "hist \<Rightarrow> u64 \<Rightarrow> u64 \<Rightarrow> nat \<Rightarrow> bool" where
  "tail_ok h k t x \<longleftrightarrow> t < h_tm h k \<or> t = h_tm h k \<and> (length (h_lg h k) \<le> x \<or> prefix (h_lg h k) (h_can h t))"

text \<open>The first \<open>c\<close> entries of \<open>xs\<close> are chosen, in a term up to \<open>t\<close>.\<close>

definition safe_at :: "u64 set \<Rightarrow> hist \<Rightarrow> u64 \<Rightarrow> entry list \<Rightarrow> nat \<Rightarrow> bool" where
  "safe_at M h t xs c \<longleftrightarrow> c = 0 \<or> (\<exists>u n. chosen M h u n \<and> c \<le> n \<and> u \<le> t \<and> prefix (take c (h_can h u)) xs)"

abbreviation "safe M h i c \<equiv> safe_at M h (h_tm h i) (h_lg h i) c"

text \<open>What a request for votes says of the log of the candidate, as long as it is a candidate.\<close>

definition vote_info :: "hist \<Rightarrow> u64 \<Rightarrow> u64 \<Rightarrow> u64 \<Rightarrow> nat \<Rightarrow> bool" where
  "vote_info h i t lt li \<longleftrightarrow> t \<le> h_tm h i \<and> (t = h_tm h i \<longrightarrow> h_cd h i \<longrightarrow> lt = last_term_of (h_lg h i) \<and> li = length (h_lg h i))"

definition evolves :: "u64 set \<Rightarrow> hist \<Rightarrow> hist \<Rightarrow> bool" where
  "evolves M h h' \<longleftrightarrow> (\<forall>i. h_tm h i \<le> h_tm h' i) \<and> (\<forall>t. prefix (h_can h t) (h_can h' t)) \<and>
     (\<forall>t. h_can h t \<noteq> [] \<longrightarrow> h_ld h' t = h_ld h t) \<and> (\<forall>t n. cut_at (h_can h) t n \<longrightarrow> cut_at (h_can h') t n) \<and>
     (\<forall>q t x. acked h q t x \<longrightarrow> acked h' q t x) \<and> (\<forall>t n. chosen M h t n \<longrightarrow> chosen M h' t n) \<and>
     (\<forall>k t x. tail_ok h k t x \<longrightarrow> tail_ok h' k t x) \<and> (\<forall>i c. safe M h i c \<longrightarrow> safe M h' i c) \<and>
     (\<forall>i t lt li. vote_info h i t lt li \<longrightarrow> vote_info h' i t lt li)"

lemma evolvesD:
  assumes "evolves M h h'"
  shows "h_tm h i \<le> h_tm h' i" "prefix (h_can h t) (h_can h' t)" "h_can h t \<noteq> [] \<Longrightarrow> h_ld h' t = h_ld h t" "cut_at (h_can h) t n \<Longrightarrow> cut_at (h_can h') t n"
    "acked h q t x \<Longrightarrow> acked h' q t x" "chosen M h t n \<Longrightarrow> chosen M h' t n" "tail_ok h k t x \<Longrightarrow> tail_ok h' k t x"
    "safe M h i c \<Longrightarrow> safe M h' i c" "vote_info h i t lt li \<Longrightarrow> vote_info h' i t lt li"
  using assms unfolding evolves_def by blast+

lemma evolves_refl: "evolves M h h"
  by (simp add: evolves_def)

lemma evolves_trans:
  assumes "evolves M a b" "evolves M b c"
  shows "evolves M a c"
  unfolding evolves_def
proof (intro conjI allI impI)
  fix t assume "h_can a t \<noteq> []"
  moreover from this have "h_can b t \<noteq> []" using evolvesD(2) [OF assms(1), of t] by (auto simp: prefix_def)
  ultimately show "h_ld c t = h_ld a t" using evolvesD(3) [OF assms(1), of t] evolvesD(3) [OF assms(2), of t] by simp
next
  show "h_tm a i \<le> h_tm c i" "prefix (h_can a t) (h_can c t)" for i t
    using evolvesD(1,2) [OF assms(1)] evolvesD(1,2) [OF assms(2)] order_trans prefix_order.order_trans by blast+
qed (assumption | rule evolvesD(4-9) [OF assms(2)] evolvesD(4-9) [OF assms(1)])+

lemma chosen_grow:
  assumes "\<And>t. prefix (h_can h t) (h_can h' t)" "\<And>q t x. acked h q t x \<Longrightarrow> acked h' q t x" "chosen M h t n"
  shows "chosen M h' t n" and "c \<le> n \<Longrightarrow> take c (h_can h' t) = take c (h_can h t)"
proof -
  obtain Q where Q: "cut_at (h_can h) t n" "Q \<subseteq> M" "card Q > card M div 2" "\<forall>q\<in>Q. \<exists>x\<ge>n. acked h q t x"
    using assms(3) unfolding chosen_def by blast
  have n: "n \<le> length (h_can h t)" using Q(1) by (simp add: cut_at_def)
  have "cut_at (h_can h') t n" using cut_at_grow(2) [of "h_can h" t "h_can h'" n, OF assms(1) n] Q(1) by simp
  moreover have "\<forall>q\<in>Q. \<exists>x\<ge>n. acked h' q t x" using Q(4) assms(2) by meson
  ultimately show "chosen M h' t n" unfolding chosen_def using Q(2,3) by blast
  show "c \<le> n \<Longrightarrow> take c (h_can h' t) = take c (h_can h t)" using assms(1) [of t] n by (auto simp: prefix_def)
qed

lemma safe_at_grow:
  assumes "\<And>t. prefix (h_can h t) (h_can h' t)" "\<And>q t x. acked h q t x \<Longrightarrow> acked h' q t x" "safe_at M h t xs c" "t \<le> t'"
    and "\<And>u n. chosen M h u n \<Longrightarrow> c \<le> n \<Longrightarrow> u \<le> t \<Longrightarrow> prefix (take c (h_can h u)) xs \<Longrightarrow> prefix (take c (h_can h u)) ys"
  shows "safe_at M h' t' ys c"
proof (cases "c = 0")
  case False
  then obtain u n where s: "chosen M h u n" "c \<le> n" "u \<le> t" "prefix (take c (h_can h u)) xs"
    using assms(3) unfolding safe_at_def by blast
  have "take c (h_can h' u) = take c (h_can h u)" by (rule chosen_grow(2) [OF assms(1) _ s(1,2)]) (rule assms(2))
  with assms(5) [OF s] have "prefix (take c (h_can h' u)) ys" by simp
  with chosen_grow(1) [OF assms(1,2) s(1)] s(2,3) assms(4) show ?thesis unfolding safe_at_def using order_trans by blast
qed (simp add: safe_at_def)

lemma evolves_safe: "evolves M h h' \<Longrightarrow> safe_at M h t (h_can h t) c \<Longrightarrow> safe_at M h' t (h_can h' t) c"
  by (erule safe_at_grow [rotated 2])
    (auto intro: evolvesD(2,5) prefix_order.order_trans [OF _ evolvesD(2)])

lemma evolvesI:
  assumes "\<And>i. h_tm h i \<le> h_tm h' i" "\<And>t. prefix (h_can h t) (h_can h' t)" "\<And>t. h_can h t \<noteq> [] \<Longrightarrow> h_ld h' t = h_ld h t"
    and ack: "\<And>q t x. acked h q t x \<Longrightarrow> acked h' q t x"
    and tail: "\<And>k t x. tail_ok h k t x \<Longrightarrow> tail_ok h' k t x"
    and log: "\<And>i t n c. chosen M h t n \<Longrightarrow> c \<le> n \<Longrightarrow> t \<le> h_tm h i \<Longrightarrow> prefix (take c (h_can h t)) (h_lg h i) \<Longrightarrow>
      prefix (take c (h_can h t)) (h_lg h' i)"
    and info: "\<And>i. h_cd h' i \<Longrightarrow> h_tm h' i = h_tm h i \<Longrightarrow> h_cd h i \<and> h_lg h' i = h_lg h i"
  shows "evolves M h h'"
  unfolding evolves_def
proof (intro conjI allI impI)
  show "cut_at (h_can h') t n" if "cut_at (h_can h) t n" for t n
  proof -
    have "n \<le> length (h_can h t)" using that by (simp add: cut_at_def)
    from cut_at_grow(2) [of "h_can h" t "h_can h'" n, OF assms(2) this] that show ?thesis by simp
  qed
  show "chosen M h' t n" if "chosen M h t n" for t n by (rule chosen_grow(1) [OF assms(2) ack that])
  show "safe M h' i c" if "safe M h i c" for i c
    by (rule safe_at_grow [OF assms(2) ack that assms(1) log])
  show "vote_info h' i t lt li" if "vote_info h i t lt li" for i t lt li
    using that assms(1) [of i] info [of i] by (auto simp: vote_info_def)
qed (use assms in blast)+

lemma hist_step_evolves:
  assumes "hist_step M h h'" "hist_ok M h" "keeps h" "finite M"
  shows "evolves M h h'"
  using assms(1)
proof cases
  case (hist_idle i t b)
  then show ?thesis
    using hist_okD(9) [OF assms(2)]
    by (intro evolvesI) (auto simp: acked_def tail_ok_def split: if_splits)
next
  case hist_grant
  then show ?thesis by (intro evolvesI) (auto simp: acked_def tail_ok_def)
next
  case hist_ack
  then show ?thesis by (intro evolvesI) (auto simp: acked_def tail_ok_def)
next
  case (hist_merge i zs)
  show ?thesis
  proof (rule evolvesI)
    fix j t n c assume s: "chosen M h t n" "c \<le> n" "t \<le> h_tm h j" "prefix (take c (h_can h t)) (h_lg h j)"
    have "prefix (take c (h_can h t)) (h_can h (h_tm h j))" if "j = i"
    proof (cases "t = h_tm h j")
      case False
      then have "prefix (take n (h_can h t)) (h_can h (h_tm h j))"
        using chosen_carried [OF assms(2-4) s(1)] s(3) hist_merge(4) that by simp
      moreover have "prefix (take c (h_can h t)) (take n (h_can h t))" using s(2) by (metis min.absorb1 take_is_prefix take_take)
      ultimately show ?thesis using prefix_order.order_trans by blast
    qed (simp add: take_is_prefix)
    with s(4) hist_merge(6) show "prefix (take c (h_can h t)) (h_lg h' j)" by (cases "j = i") (simp_all add: hist_merge(1))
  next
    have "length zs \<le> x \<or> prefix zs (h_can h (h_tm h i))" if "length (h_lg h i) \<le> x \<or> prefix (h_lg h i) (h_can h (h_tm h i))" for x
      using that hist_merge(5) prefix_length_le order_trans prefix_order.order_trans by metis
    then show "tail_ok h k t x \<Longrightarrow> tail_ok h' k t x" for k t x by (auto simp: tail_ok_def hist_merge(1))
  qed (use hist_merge in \<open>auto simp: acked_def\<close>)
next
  case (hist_append i e)
  then show ?thesis
    by (intro evolvesI) (auto simp: acked_def tail_ok_def intro: prefix_order.order_trans)
next
  case (hist_elect i Q e)
  then show ?thesis
    by (intro evolvesI) (auto simp: acked_def tail_ok_def intro: prefix_order.order_trans split: if_splits)
qed

lemma hist_steps_ok:
  assumes "(hist_step M)\<^sup>*\<^sup>* h h'" "hist_ok M h" "keeps h" "finite M"
  shows "hist_ok M h' \<and> keeps h' \<and> evolves M h h'"
  using assms(1)
proof induction
  case base
  then show ?case using assms by (simp add: evolves_refl)
next
  case (step a b)
  then show ?case using hist_step_ok hist_step_evolves assms(4) evolves_trans by blast
qed

end
