(* ===== verification/Commit_Sim.thy ===== *)
theory Commit_Sim
  imports Commit_Steps Commit_Spec
begin

text \<open>
  The cluster refines the abstract machine of \<open>Commit_Spec\<close>: the relation between the two states and the
  simulation of what a single node does.
\<close>

subsection \<open>The relation\<close>

text \<open>
  A leader that sends to \<open>k\<close> from \<open>x\<close> on: there is an entry of its own term at \<open>x\<close>, or the log of \<open>k\<close> has
  nothing of its own behind \<open>x\<close>. In both cases a \<open>k\<close> that agrees at \<open>x\<close> holds only entries of the leader.
\<close>

definition reach_ok :: "hist \<Rightarrow> u64 \<Rightarrow> u64 \<Rightarrow> nat \<Rightarrow> bool" where
  "reach_ok h k t x \<longleftrightarrow> cut_at (h_can h) t x \<or> tail_ok h k t x"

fun req_sim :: "u64 set \<Rightarrow> hist \<Rightarrow> u64 \<Rightarrow> u64 \<Rightarrow> raft_request \<Rightarrow> bool" where
  "req_sim M h i k (RequestVote q) = vote_info h i (vq_term q) (vq_last_log_term q) (unat (vq_last_log_index q))"
| "req_sim M h i k (AppendEntries q) =
     (h_can h (aq_term q) \<noteq> [] \<and> reach_ok h k (aq_term q) (unat (aq_prev_log_index q)) \<and>
      safe_at M h (aq_term q) (h_can h (aq_term q)) (unat (aq_leader_commit q)) \<and>
      unat (aq_leader_commit q) \<le> unat (aq_prev_log_index q) + length (aq_entries q))"
| "req_sim M h i k (InstallSnapshot q) = False"

fun rsp_sim :: "hist \<Rightarrow> raft_response \<Rightarrow> bool" where
  "rsp_sim h (RequestVoteRsp r) = True"
| "rsp_sim h (AppendEntriesRsp r) =
     (tail_ok h (ar_peer_id r) (ar_term r) (unat (ar_last_log_index r)) \<and>
      (ar_success r \<longrightarrow> acked h (ar_peer_id r) (ar_term r) (unat (ar_last_log_index r))))"
| "rsp_sim h (InstallSnapshotRsp r) = False"

text \<open>What a leader knows of its peers.\<close>

definition peers_sim :: "hist \<Rightarrow> u64 \<Rightarrow> (u64 \<times> u64 \<times> u64) list \<Rightarrow> bool" where
  "peers_sim h t ps \<longleftrightarrow> (\<forall>(k, n, m)\<in>set ps. reach_ok h k t (unat (n - 1)) \<and> (m = 0 \<or> acked h k t (unat m)))"

definition node_sim :: "'l LogIf \<Rightarrow> ('l \<Rightarrow> entry list) \<Rightarrow> u64 set \<Rightarrow> hist \<Rightarrow> u64 \<Rightarrow> ('l, 's) raft \<Rightarrow> bool" where
  "node_sim V ents M h i st \<longleftrightarrow>
     h_tm h i = c_term (context_of st) \<and> h_lg h i = ents (rlog st) \<and> h_cd h i = (role (context_of st) = kCandidate) \<and>
     (role (context_of st) = kLeader \<longrightarrow> h_ld h (h_tm h i) = i \<and> peers_sim h (h_tm h i) (progress st)) \<and>
     safe M h i (unat (commit_index (context_of st))) \<and>
     safe M h i (unat (opt_u64 (m_commit_index (meta_data V (rlog st)))))"

definition sim :: "'l LogIf \<Rightarrow> ('l \<Rightarrow> entry list) \<Rightarrow> u64 set \<Rightarrow> hist \<Rightarrow> ('l, 's) cluster \<Rightarrow> bool" where
  "sim V ents M h cl \<longleftrightarrow> hist_ok M h \<and> keeps h \<and> match_inv V ents M (h_can h) cl \<and> h_gr h = granted cl \<and>
     (\<forall>i\<in>M. node_sim V ents M h i (nodes cl i)) \<and>
     (\<forall>i k m. (i, k, m) \<in> requests cl \<longrightarrow> req_sim M h i k m) \<and>
     (\<forall>j r. (j, r) \<in> responses cl \<longrightarrow> rsp_sim h r) \<and>
     (\<forall>i\<in>M. \<forall>k m. (k, m) \<in> set (outbox (nodes cl i)) \<longrightarrow> (i, k, m) \<in> requests cl)"

lemma simD:
  assumes "sim V ents M h cl"
  shows "hist_ok M h" "keeps h" "match_inv V ents M (h_can h) cl" "h_gr h = granted cl"
    "i \<in> M \<Longrightarrow> node_sim V ents M h i (nodes cl i)" "(i, k, m) \<in> requests cl \<Longrightarrow> req_sim M h i k m"
    "(j, r) \<in> responses cl \<Longrightarrow> rsp_sim h r" "i \<in> M \<Longrightarrow> (k, m) \<in> set (outbox (nodes cl i)) \<Longrightarrow> (i, k, m) \<in> requests cl"
  using assms unfolding sim_def by blast+

lemma node_simD:
  assumes "node_sim V ents M h i st"
  shows "h_tm h i = c_term (context_of st)" "h_lg h i = ents (rlog st)" "h_cd h i = (role (context_of st) = kCandidate)"
    "role (context_of st) = kLeader \<Longrightarrow> h_ld h (h_tm h i) = i" "role (context_of st) = kLeader \<Longrightarrow> peers_sim h (h_tm h i) (progress st)"
    "safe M h i (unat (commit_index (context_of st)))" "safe M h i (unat (opt_u64 (m_commit_index (meta_data V (rlog st)))))"
  using assms unfolding node_sim_def by blast+

subsection \<open>What stays true as the history grows\<close>

lemma reach_ok_mono: "evolves M h h' \<Longrightarrow> reach_ok h k t x \<Longrightarrow> reach_ok h' k t x"
  unfolding reach_ok_def using evolvesD(4,7) by blast

lemma peers_sim_mono: "evolves M h h' \<Longrightarrow> peers_sim h t ps \<Longrightarrow> peers_sim h' t ps"
  unfolding peers_sim_def using reach_ok_mono evolvesD(5) by blast

lemma can_mono: "evolves M h h' \<Longrightarrow> h_can h t \<noteq> [] \<Longrightarrow> h_can h' t \<noteq> []"
  using evolvesD(2) [of M h h' t] by (auto simp: prefix_def)

lemma req_sim_mono: "evolves M h h' \<Longrightarrow> req_sim M h i k m \<Longrightarrow> req_sim M h' i k m"
  by (cases m) (auto intro: evolvesD(9) reach_ok_mono evolves_safe dest: can_mono)

lemma rsp_sim_mono: "evolves M h h' \<Longrightarrow> rsp_sim h r \<Longrightarrow> rsp_sim h' r"
  by (cases r) (auto intro: evolvesD(5,7))

lemma node_sim_mono:
  assumes "evolves M h h'" "node_sim V ents M h i st" "h_tm h' i = h_tm h i" "h_lg h' i = h_lg h i" "h_cd h' i = h_cd h i"
    and "role (context_of st) = kLeader \<Longrightarrow> h_can h (c_term (context_of st)) \<noteq> []"
  shows "node_sim V ents M h' i st"
  using node_simD [OF assms(2)] assms(3-6) evolvesD(3,8) [OF assms(1)] peers_sim_mono [OF assms(1)]
  unfolding node_sim_def by metis

text \<open>One node moves, sends, and may be answered for.\<close>

lemma sim_update:
  assumes "sim V ents M h cl" "finite M" "i \<in> M" "(hist_step M)\<^sup>*\<^sup>* h h'"
    and "nodes cl' = (nodes cl)(i := st)" "requests cl' = requests cl \<union> (\<lambda>(k, m). (i, k, m)) ` set (outbox st)"
    and "\<And>j r. (j, r) \<in> responses cl' \<Longrightarrow> (j, r) \<in> responses cl \<or> rsp_sim h' r" "h_gr h' = granted cl'"
    and "match_inv V ents M (h_can h') cl'" "node_sim V ents M h' i st"
    and "\<And>j. j \<noteq> i \<Longrightarrow> h_tm h' j = h_tm h j \<and> h_lg h' j = h_lg h j \<and> h_cd h' j = h_cd h j"
    and "\<And>k m. (k, m) \<in> set (outbox st) \<Longrightarrow> (k, m) \<in> set (outbox (nodes cl i)) \<or> req_sim M h' i k m"
  shows "sim V ents M h' cl'"
proof -
  note D = simD [OF assms(1)]
  have S: "hist_ok M h'" "keeps h'" "evolves M h h'" using hist_steps_ok [OF assms(4) D(1,2) assms(2)] by blast+
  have "node_sim V ents M h' j (nodes cl' j)" if "j \<in> M" for j
  proof (cases "j = i")
    case False
    have "role (context_of (nodes cl j)) = kLeader \<Longrightarrow> h_can h (c_term (context_of (nodes cl j))) \<noteq> []"
      using match_invD(3) [OF D(3) that] by (auto simp: match_node_def)
    with False node_sim_mono [OF S(3) D(5) [OF that]] assms(11) show ?thesis by (simp add: assms(5))
  qed (use assms(5,10) in simp)
  moreover have "req_sim M h' j k m" if "(j, k, m) \<in> requests cl'" for j k m
    using that D(6) [of j k m] D(8) [OF assms(3), of k m, THEN D(6)] assms(12) [of k m] req_sim_mono [OF S(3), of j k m]
    by (auto simp: assms(6))
  moreover have "rsp_sim h' r" if "(j, r) \<in> responses cl'" for j r
    using assms(7) [OF that] D(7) rsp_sim_mono [OF S(3)] by blast
  moreover have "(j, k, m) \<in> requests cl'" if "j \<in> M" "(k, m) \<in> set (outbox (nodes cl' j))" for j k m
    using that D(8) [OF that(1)] unfolding assms(5,6) by (cases "j = i") (force, simp)
  ultimately show ?thesis unfolding sim_def using S assms(8,9) by blast
qed

subsection \<open>A node that leaves its log alone\<close>

text \<open>The term of the node may rise, it may become a candidate or lose its role.\<close>

definition idles :: "ctx \<Rightarrow> ctx \<Rightarrow> bool" where
  "idles c c' \<longleftrightarrow> c_term c \<le> c_term c' \<and>
     (role c' = kCandidate \<longrightarrow> role c = kCandidate \<and> c_term c' = c_term c \<or> c_term c < c_term c') \<and>
     (role c' = kLeader \<longrightarrow> role c = kLeader \<and> c_term c' = c_term c)"

lemma quiet_idles: "quiet c c' \<Longrightarrow> idles c c'" "elected c c' \<Longrightarrow> idles c c'"
  by (auto simp: quiet_def elected_def idles_def)

definition idle :: "u64 \<Rightarrow> ctx \<Rightarrow> hist \<Rightarrow> hist" where
  "idle i c h = h\<lparr>h_tm := (h_tm h)(i := c_term c), h_cd := (h_cd h)(i := (role c = kCandidate))\<rparr>"

lemma idle_simps [simp]:
  "h_can (idle i c h) = h_can h" "h_lg (idle i c h) = h_lg h" "h_gr (idle i c h) = h_gr h" "h_ld (idle i c h) = h_ld h" "h_ak (idle i c h) = h_ak h"
  "h_tm (idle i c h) = (h_tm h)(i := c_term c)" "h_cd (idle i c h) = (h_cd h)(i := (role c = kCandidate))"
  by (simp_all add: idle_def)

lemma idle_step:
  assumes "node_sim V ents M h i st" "idles (context_of st) c"
  shows "hist_step M h (idle i c h)"
  unfolding idle_def by (rule hist_idle) (use assms node_simD [OF assms(1)] in \<open>auto simp: idles_def\<close>)

lemma idle_node:
  assumes "sim V ents M h cl" "finite M" "i \<in> M" "idles (context_of (nodes cl i)) (context_of st)"
    and "ents (rlog st) = ents (rlog (nodes cl i))" "role (context_of st) = kLeader \<longrightarrow> progress st = progress (nodes cl i)"
    and "safe M h i (unat (commit_index (context_of st)))" "safe M h i (unat (opt_u64 (m_commit_index (meta_data V (rlog st)))))"
  defines "h' \<equiv> idle i (context_of st) h"
  shows "hist_step M h h'" "node_sim V ents M h' i st" "grown ents (h_can h) st = h_can h" "evolves M h h'"
proof -
  note D = simD [OF assms(1)]
  note N = node_simD [OF D(5) [OF assms(3)]]
  show s: "hist_step M h h'" unfolding h'_def by (rule idle_step [OF D(5) [OF assms(3)] assms(4)])
  show E: "evolves M h h'" by (rule hist_step_evolves [OF s D(1,2) assms(2)])
  have "peers_sim h' (h_tm h' i) (progress st)" if "role (context_of st) = kLeader"
    using that assms(4,6) N(1,5) peers_sim_mono [OF E] by (simp add: h'_def idles_def)
  moreover have "h_ld h' (h_tm h' i) = i" if "role (context_of st) = kLeader"
    using that assms(4) N(1,4) by (simp add: h'_def idles_def)
  moreover have "safe M h' i (unat (commit_index (context_of st)))" "safe M h' i (unat (opt_u64 (m_commit_index (meta_data V (rlog st)))))"
    using evolvesD(8) [OF E] assms(7,8) by blast+
  moreover have "h_tm h' i = c_term (context_of st)" "h_lg h' i = ents (rlog st)" "h_cd h' i = (role (context_of st) = kCandidate)"
    using N(2) assms(5) by (simp_all add: h'_def)
  ultimately show "node_sim V ents M h' i st" unfolding node_sim_def by blast
  have "role (context_of st) = kLeader \<Longrightarrow> h_can h (c_term (context_of st)) = ents (rlog st)"
    using assms(4,5) match_invD(3) [OF D(3) assms(3)] by (simp add: idles_def match_node_def)
  then show "grown ents (h_can h) st = h_can h" by (auto simp: grown_def)
qed

lemma calm_safe:
  assumes "node_sim V ents M h i st" "calm V st st'"
  shows "safe M h i (unat (commit_index (context_of st')))" "safe M h i (unat (opt_u64 (m_commit_index (meta_data V (rlog st')))))"
    "role (context_of st') = kLeader \<longrightarrow> progress st' = progress st"
  using node_simD(6,7) [OF assms(1)] assms(2) by (simp_all add: calm_def)

text \<open>The whole step, without a response.\<close>

lemma sim_idle:
  assumes "sim V ents M h cl" "finite M" "i \<in> M" "idles (context_of (nodes cl i)) (context_of st)"
    and "steady V ents P (nodes cl i) st" "calm V (nodes cl i) st"
    and "match_inv V ents M (grown ents (h_can h) st) (set_node i st cl)"
    and "\<And>k m. P k m \<Longrightarrow> req_sim M (idle i (context_of st) h) i k m"
  shows "\<exists>h'. sim V ents M h' (set_node i st cl)"
proof
  have e: "ents (rlog st) = ents (rlog (nodes cl i))" using assms(5) by (simp add: steady_def)
  note C = calm_safe [OF simD(5) [OF assms(1,3)] assms(6)]
  note I = idle_node [OF assms(1-4) e C(3,1,2)]
  show "sim V ents M (idle i (context_of st) h) (set_node i st cl)"
    by (rule sim_update [OF assms(1-3) r_into_rtranclp [of "hist_step M", OF I(1)], where st = st])
      (use assms(5,7,8) I(2,3) simD(4) [OF assms(1)] in \<open>auto simp: steady_def\<close>)
qed

end
