(* ===== verification/Commit_Follow.thy ===== *)
theory Commit_Follow
  imports Commit_Sim
begin

text \<open>
  How a follower refines the abstract machine when it handles a request: a vote is a grant, a failed
  append cuts the log outside of what it shares with the leader, and a successful one makes the log
  a prefix of the leader's and is acknowledged.
\<close>

text \<open>The three results of an append on the log \<open>xs\<close> of a node that is in the leader's term.\<close>

definition merge_log :: "u64 \<Rightarrow> entry list \<Rightarrow> hist \<Rightarrow> hist" where
  "merge_log i zs h = h\<lparr>h_lg := (h_lg h)(i := zs)\<rparr>"

definition ack_log :: "u64 \<Rightarrow> hist \<Rightarrow> hist" where
  "ack_log i h = h\<lparr>h_ak := (\<lambda>q t x. h_ak h q t x \<or> q = i \<and> t = h_tm h i \<and> x = length (h_lg h i))\<rparr>"

lemma merge_ack_simps [simp]:
  "h_can (merge_log i zs h) = h_can h" "h_lg (merge_log i zs h) = (h_lg h)(i := zs)" "h_gr (merge_log i zs h) = h_gr h"
  "h_tm (merge_log i zs h) = h_tm h" "h_cd (merge_log i zs h) = h_cd h" "h_ld (merge_log i zs h) = h_ld h"
  "h_can (ack_log i h) = h_can h" "h_lg (ack_log i h) = h_lg h" "h_gr (ack_log i h) = h_gr h"
  "h_tm (ack_log i h) = h_tm h" "h_cd (ack_log i h) = h_cd h" "h_ld (ack_log i h) = h_ld h"
  by (simp_all add: merge_log_def ack_log_def)

lemma cut_log_step:
  assumes "i \<in> M" "\<not> h_cd h i" "h_can h (h_tm h i) \<noteq> []" "0 < p" "p \<le> length (h_lg h i)" "p \<le> length (h_can h (h_tm h i))"
    and "e_term (h_lg h i ! (p - 1)) \<noteq> e_term (h_can h (h_tm h i) ! (p - 1))"
  shows "hist_step M h (merge_log i (butlast (h_lg h i)) h)"
  unfolding merge_log_def
proof (rule hist_merge [OF assms(1-3)])
  show "prefix (butlast (h_lg h i)) (h_lg h i) \<or> prefix (butlast (h_lg h i)) (h_can h (h_tm h i))"
    by (simp add: butlast_conv_take take_is_prefix)
  fix ps assume ps: "prefix ps (h_lg h i)" "prefix ps (h_can h (h_tm h i))"
  have "length ps < p"
  proof (rule ccontr)
    assume "\<not> length ps < p"
    then have "h_lg h i ! (p - 1) = h_can h (h_tm h i) ! (p - 1)" using ps assms(4) by (auto simp: prefix_def nth_append)
    with assms(7) show False by simp
  qed
  then have "ps = take (length ps) (h_lg h i)" "length ps \<le> length (h_lg h i) - 1" using ps(1) assms(5) by (auto simp: prefix_def)
  then show "prefix ps (butlast (h_lg h i))"
    by (metis butlast_conv_take min.absorb1 take_is_prefix take_take)
qed

lemma store_log_steps:
  fixes h :: hist and i :: u64
  defines "xs \<equiv> h_lg h i" and "ys \<equiv> h_can h (h_tm h i)"
  assumes "hist_ok M h" "i \<in> M" "\<not> h_cd h i" "ys \<noteq> []" "reach_ok h i (h_tm h i) p" "p \<le> length xs" "p \<le> length ys"
    and "prefix es (drop p ys)" "0 < p \<Longrightarrow> e_term (xs ! (p - 1)) = e_term (ys ! (p - 1))"
  defines "zs \<equiv> take p xs @ merge_ents (drop p xs) es"
  shows "hist_step M h (merge_log i zs h)" "hist_step M (merge_log i zs h) (ack_log i (merge_log i zs h))"
    "prefix zs ys" "p + length es \<le> length zs"
proof -
  note D = hist_okD [OF assms(3)]
  have xs: "coherent (h_can h) xs" "\<forall>e\<in>set xs. e_term e \<le> h_tm h i" using D(2,3) by (simp_all add: xs_def)
  have ys: "coherent (h_can h) ys" using can_okD(1) [OF D(1)] by (simp add: ys_def)
  have tk: "take p xs = take p ys"
  proof (cases "0 < p")
    case True
    have "p - 1 < length xs" "p - 1 < length ys" using True assms(8,9) by linarith+
    from coherent_agree [OF xs(1) ys this assms(11) [OF True]] True show ?thesis by simp
  qed simp
  have z: "zs = xs \<or> zs = take (p + length es) ys"
    using merge_coherent [OF xs(1) ys tk assms(8-10)] by (auto simp: zs_def)
  show len: "p + length es \<le> length zs"
    using length_merge_ents [of es "drop p xs"] assms(8) by (simp add: zs_def)
  have x: "prefix xs ys"
    using assms(7) unfolding reach_ok_def
  proof
    assume c: "cut_at (h_can h) (h_tm h i) p"
    then have "e_term (xs ! (p - 1)) = h_tm h i" using assms(11) by (simp add: cut_at_def ys_def)
    from reach_prefix [OF D(1) xs c assms(8) this] show ?thesis by (simp add: ys_def)
  next
    assume "tail_ok h i (h_tm h i) p"
    then consider "length xs \<le> p" | "prefix xs ys" by (auto simp: tail_ok_def xs_def ys_def)
    then show ?thesis by cases (use tk take_is_prefix in \<open>metis take_all, simp\<close>)
  qed
  then show pz: "prefix zs ys" using z by (auto simp: take_is_prefix)
  show "hist_step M h (merge_log i zs h)"
    unfolding merge_log_def
  proof (rule hist_merge [OF assms(4,5)])
    show "h_can h (h_tm h i) \<noteq> []" "prefix zs (h_lg h i) \<or> prefix zs (h_can h (h_tm h i))" using assms(6) pz by (simp_all add: ys_def)
    show "prefix ps zs" if "prefix ps (h_lg h i)" "prefix ps (h_can h (h_tm h i))" for ps
      unfolding zs_def by (rule merge_prefix [OF _ _ tk assms(8,10)]) (use that in \<open>simp_all add: xs_def ys_def\<close>)
  qed
  show "hist_step M (merge_log i zs h) (ack_log i (merge_log i zs h))"
    unfolding ack_log_def by (rule hist_ack [OF assms(4)]) (use pz in \<open>simp add: ys_def\<close>)
qed

text \<open>The commit index of the leader is safe for the log that was made a prefix of the leader's.\<close>

lemma safe_prefix:
  assumes "safe_at M h t ys c" "prefix zs ys" "c \<le> length zs"
  shows "safe_at M h t zs c"
proof (cases "c = 0")
  case False
  then obtain u n where s: "chosen M h u n" "c \<le> n" "u \<le> t" "prefix (take c (h_can h u)) ys"
    using assms(1) unfolding safe_at_def by blast
  have "prefix (take c (h_can h u)) zs" using prefix_length_prefix [OF s(4) assms(2)] assms(3) by simp
  with s show ?thesis unfolding safe_at_def by blast
qed (simp add: safe_at_def)

subsection \<open>The request to append\<close>

text \<open>The history moves at node \<open>i\<close> only and the logs of leaders stay.\<close>

definition follows :: "u64 set \<Rightarrow> u64 \<Rightarrow> hist \<Rightarrow> hist \<Rightarrow> bool" where
  "follows M i h h' \<longleftrightarrow> (hist_step M)\<^sup>*\<^sup>* h h' \<and> h_can h' = h_can h \<and> h_gr h' = h_gr h \<and>
     (\<forall>j. j \<noteq> i \<longrightarrow> h_tm h' j = h_tm h j \<and> h_lg h' j = h_lg h j \<and> h_cd h' j = h_cd h j)"

lemma follows_refl: "follows M i h h"
  by (simp add: follows_def)

lemma follows_step:
  assumes "follows M i h h1" "hist_step M h1 h2" "h_can h2 = h_can h1" "h_gr h2 = h_gr h1"
    and "\<And>j. j \<noteq> i \<Longrightarrow> h_tm h2 j = h_tm h1 j \<and> h_lg h2 j = h_lg h1 j \<and> h_cd h2 j = h_cd h1 j"
  shows "follows M i h h2"
  using assms by (auto simp: follows_def intro: rtranclp.rtrancl_into_rtrancl)

lemma follower_sim:
  assumes "role (context_of st) = kFollower" "h_tm h i = c_term (context_of st)" "h_lg h i = ents (rlog st)" "\<not> h_cd h i"
    and "safe M h i (unat (commit_index (context_of st)))" "safe M h i (unat (opt_u64 (m_commit_index (meta_data V (rlog st)))))"
  shows "node_sim V ents M h i st"
  using assms by (simp add: node_sim_def)

context log_if
begin

lemma one_index:
  assumes "inv l" "start_index V l = 1"
  shows "unat (last_index V l) = length (ents l)"
  using last_eq [OF assms(1)] assms(2) by simp

lemma append_request_peer: "on_append_entries_request V now q st = Inr (r, st') \<Longrightarrow> ar_peer_id r = o_id (opt st)"
  by (auto simp: on_append_entries_request_def Let_def res_bind_Inr_iff split: if_splits)

lemma append_request_sim:
  assumes S: "sim V ents M h cl" and C: "cluster_inv V inv M cl" and i: "i \<in> M" and rq: "(j, i, AppendEntries q) \<in> requests cl"
    and room: "log_room V (length (aq_entries q)) (nodes cl i)"
    and run: "on_append_entries_request V now q (nodes cl i) = Inr (r, st)"
  shows "\<exists>h'. follows M i h h' \<and> node_sim V ents M h' i st \<and> rsp_sim h' (AppendEntriesRsp r)"
proof -
  let ?s = "nodes cl i" and ?p = "unat (aq_prev_log_index q)" and ?ys = "h_can h (aq_term q)"
  note D = simD [OF S] and F = cluster_invD(1) [OF C]
  note N = node_simD [OF D(5) [OF i]]
  have ok: "node_ok V inv ?s" by (rule cluster_invD(4) [OF C i])
  have start: "start_index V (rlog ?s) = 1" using match_invD(3) [OF D(3) i] by (simp add: match_node_def)
  have len: "unat (last_index V (rlog ?s)) = length (h_lg h i)" using one_index [of "rlog ?s"] ok start N(2) by (simp add: node_ok_def)
  have sl: "slice_of ?ys q" using match_invD(4) [OF D(3) rq] by simp
  have R: "?ys \<noteq> []" "reach_ok h i (aq_term q) ?p" "safe_at M h (aq_term q) ?ys (unat (aq_leader_commit q))"
      "unat (aq_leader_commit q) \<le> ?p + length (aq_entries q)"
    using D(6) [OF rq] by simp_all
  have peer: "ar_peer_id r = i"
    using append_request_peer [OF run] cluster_invD(3) [OF C i] by (simp add: cfg_ok_def)
  let ?s1 = "hear_leader V now (aq_term q) (aq_leader_id q) ?s"
  let ?h1 = "idle i (context_of ?s1) h"
  have heard: "hist_step M h ?h1" "node_sim V ents M ?h1 i ?s1" "evolves M h ?h1" "follows M i h ?h1" "hist_ok M ?h1" "keeps ?h1"
    "role (context_of ?s1) = kFollower" "h_tm ?h1 i = aq_term q" "inv (rlog ?s1)" "start_index V (rlog ?s1) = 1"
    if le: "c_term (context_of ?s) \<le> aq_term q"
  proof -
    note H = hear_leader_ok [OF ok le, of now "aq_leader_id q"]
    note K = calm_safe [OF D(5) [OF i] hear_leader_calm [OF ok le, of now "aq_leader_id q"]]
    note I = idle_node [OF S F i quiet_idles(1) [OF H(2)] H(6) K(3,1,2)]
    show s: "hist_step M h ?h1" and "node_sim V ents M ?h1 i ?s1" "evolves M h ?h1" by (fact I(1,2,4))+
    show "follows M i h ?h1" by (rule follows_step [OF follows_refl s]) simp_all
    show "hist_ok M ?h1" "keeps ?h1" using hist_step_ok [OF s D(1,2)] by blast+
    show "role (context_of ?s1) = kFollower" "h_tm ?h1 i = aq_term q" "inv (rlog ?s1)" "start_index V (rlog ?s1) = 1"
      using H(1,4,5,7) start by (simp_all add: node_ok_def)
  qed
  show ?thesis
    using ok room
  proof (cases rule: append_request_cases [where now = now])
    case (stale r')
    then have "st = ?s" "ar_term r = h_tm h i" "\<not> ar_success r" "ar_last_log_index r = last_index V (rlog ?s)"
      using run N(1) by (auto simp: on_append_entries_request_def Let_def)
    with D(5) [OF i] peer len show ?thesis by (intro exI [of _ h]) (simp add: follows_refl tail_ok_def)
  next
    case (gap r')
    then have "st = ?s1" "ar_term r = aq_term q" "\<not> ar_success r" "ar_last_log_index r = last_index V (rlog ?s)" using run by simp_all
    with heard(2,4,8) [OF gap(1)] peer len show ?thesis by (intro exI [of _ ?h1]) (simp add: tail_ok_def)
  next
    case (mismatch r' l')
    note h1 = heard [OF mismatch(1)]
    let ?h2 = "merge_log i (butlast (h_lg h i)) ?h1"
    have l: "st = ?s1\<lparr>rlog := l'\<rparr>" "ar_term r = aq_term q" "\<not> ar_success r" "ar_last_log_index r = last_index V l'"
      using run mismatch by simp_all
    have p: "0 < ?p" "?p \<le> length (h_lg h i)" using mismatch(2,3) start len by (simp_all add: idx_order Suc_le_eq)
    have e1: "ents (rlog ?s1) = h_lg h i" using node_simD(2) [OF h1(2)] by simp
    have "unat (last_index V (rlog ?s) - 1) = length (h_lg h i) - 1" using p len by (subst unat_dec) auto
    then have l': "inv l'" "start_index V l' = 1" "ents l' = butlast (h_lg h i)" "meta_data V l' = meta_data V (rlog ?s1)"
      using h1(9,10) e1 p by (simp_all add: mismatch(6) butlast_conv_take)
    have "?p \<le> length ?ys" "e_term (h_lg h i ! (?p - 1)) \<noteq> e_term (?ys ! (?p - 1))"
      using sl mismatch(4) p start N(2) by (auto simp: slice_of_def)
    with p h1(7,8) R(1) have st2: "hist_step M ?h1 ?h2" using cut_log_step [OF i, of ?h1 ?p] by simp
    have E: "evolves M ?h1 ?h2" by (rule hist_step_evolves [OF st2 h1(5,6) F])
    have "node_sim V ents M ?h2 i st"
      using node_simD [OF h1(2)] evolvesD(8) [OF E, of i] h1(7) l' by (intro follower_sim) (simp_all add: l(1))
    moreover have "follows M i h ?h2" by (rule follows_step [OF h1(4) st2]) simp_all
    moreover have "unat (last_index V l') = length (butlast (h_lg h i))" using one_index [OF l'(1,2)] l'(3) by simp
    ultimately show ?thesis using l(2-4) h1(8) peer by (intro exI [of _ ?h2]) (simp add: tail_ok_def)
  next
    case (success r' l' st1)
    note h1 = heard [OF success(1)]
    have l: "ar_term r = aq_term q" "ar_success r" "ar_last_log_index r = last_index V l'" using run success by simp_all
    have e1: "ents (rlog ?s1) = h_lg h i" using node_simD(2) [OF h1(2)] by simp
    let ?zs = "take ?p (h_lg h i) @ merge_ents (drop ?p (h_lg h i)) (aq_entries q)"
    let ?h2 = "merge_log i ?zs ?h1" let ?h3 = "ack_log i ?h2"
    have p: "?p \<le> length (h_lg h i)" using success(2) len by (simp add: idx_order)
    have l': "inv l'" "start_index V l' = 1" "ents l' = ?zs" "meta_data V l' = meta_data V (rlog ?s1)"
      using append_loop_merge [OF h1(9), of "aq_prev_log_index q" "aq_entries q"] success(4,5) h1(10) e1 p len room
        hear_leader_ok(8) [OF ok success(1), of now "aq_leader_id q"]
      by (auto simp: log_room_def)
    have "e_term (h_lg h i ! (?p - 1)) = e_term (?ys ! (?p - 1))" if "0 < ?p"
      using that success(3) start sl N(2) by (auto simp: slice_of_def idx_order Suc_le_eq)
    moreover have "?p \<le> length ?ys" "prefix (aq_entries q) (drop ?p ?ys)" using sl by (simp_all add: slice_of_def)
    moreover have "reach_ok ?h1 i (h_tm ?h1 i) ?p" using reach_ok_mono [OF h1(3) R(2)] h1(8) by simp
    ultimately have st: "hist_step M ?h1 ?h2" "hist_step M ?h2 ?h3" "prefix ?zs ?ys" "?p + length (aq_entries q) \<le> length ?zs"
      using store_log_steps [OF h1(5) i, of ?p "aq_entries q"] h1(7,8) R(1) p by simp_all
    have h2: "hist_ok M ?h2" "keeps ?h2" using hist_step_ok [OF st(1) h1(5,6)] by blast+
    have E: "evolves M ?h1 ?h3"
      using hist_step_evolves [OF st(1) h1(5,6) F] hist_step_evolves [OF st(2) h2 F] by (rule evolves_trans)
    have "safe_at M ?h3 (aq_term q) ?ys (unat (aq_leader_commit q))"
      using evolves_safe [OF E evolves_safe [OF h1(3) R(3)]] by simp
    from safe_prefix [OF this st(3)] R(4) st(4) have new: "safe M ?h3 i (unat (aq_leader_commit q))" using h1(8) by simp
    have f: "follows M i h ?h3" by (rule follows_step [OF follows_step [OF h1(4) st(1)] st(2)]) simp_all
    have "node_sim V ents M ?h3 i st"
      using node_simD [OF h1(2)] evolvesD(8) [OF E, of i] h1(7,8) l' new run success(4,6)
      by (intro follower_sim) (auto split: if_splits)
    moreover have "unat (last_index V l') = length ?zs" using one_index [OF l'(1,2)] l'(3) by simp
    then have "rsp_sim ?h3 (AppendEntriesRsp r)"
      using l peer h1(8) st(3) by (simp add: tail_ok_def acked_def) (simp add: ack_log_def)
    ultimately show ?thesis using f by blast
  qed
qed

lemma append_request_step:
  assumes "sim V ents M h cl" "cluster_inv V inv M cl" "i \<in> M" "(j, i, AppendEntries q) \<in> requests cl"
    and "log_room V (length (aq_entries q)) (nodes cl i)" "on_append_entries_request V now q (nodes cl i) = Inr (r, st)"
    and "match_inv V ents M (h_can h) (add_response j (AppendEntriesRsp r) (set_node i st cl))"
  shows "\<exists>h'. sim V ents M h' (add_response j (AppendEntriesRsp r) (set_node i st cl))"
proof -
  let ?cl = "add_response j (AppendEntriesRsp r) (set_node i st cl)"
  obtain h' where h': "follows M i h h'" "node_sim V ents M h' i st" "rsp_sim h' (AppendEntriesRsp r)"
    using append_request_sim [OF assms(1-6)] by blast
  have f: "(hist_step M)\<^sup>*\<^sup>* h h'" "h_can h' = h_can h" "h_gr h' = h_gr h"
      "\<And>k. k \<noteq> i \<Longrightarrow> h_tm h' k = h_tm h k \<and> h_lg h' k = h_lg h k \<and> h_cd h' k = h_cd h k"
    using h'(1) unfolding follows_def by blast+
  have "outbox st = outbox (nodes cl i)"
    using append_request_ok [OF cluster_invD(4) [OF assms(2,3)] assms(5), of now] assms(6) by (metis Inr_inject prod.inject)
  moreover have "h_gr h' = granted ?cl" using f(3) simD(4) [OF assms(1)] by (auto simp: granted_add fun_eq_iff)
  ultimately have "sim V ents M h' ?cl"
    using f(2,4) assms(7) h'(2,3)
    by (intro sim_update [OF assms(1) cluster_invD(1) [OF assms(2)] assms(3) f(1), where st = st]) (auto simp: add_response_def)
  then show ?thesis ..
qed

subsection \<open>The request for a vote\<close>

lemma vote_request_step:
  assumes S: "sim V ents M h cl" and C: "cluster_inv V inv M cl" and i: "i \<in> M" and rq: "(j, i, RequestVote q) \<in> requests cl"
    and run: "on_request_vote_request V now q (nodes cl i) = (r, st)"
    and m: "match_inv V ents M (h_can h) (add_response j (RequestVoteRsp r) (set_node i st cl))"
  shows "\<exists>h'. sim V ents M h' (add_response j (RequestVoteRsp r) (set_node i st cl))"
proof -
  let ?cl = "add_response j (RequestVoteRsp r) (set_node i st cl)" and ?h1 = "idle i (context_of st) h"
  note D = simD [OF S] and F = cluster_invD(1) [OF C]
  have ok: "node_ok V inv (nodes cl i)" by (rule cluster_invD(4) [OF C i])
  note Q = request_vote_ok [OF ok run] and K = calm_safe [OF D(5) [OF i] vote_request_calm [OF ok run]]
  note I = idle_node [OF S F i quiet_idles(1) [OF Q(2)] _ K(3,1,2)]
  have e: "ents (rlog st) = ents (rlog (nodes cl i))" "outbox st = outbox (nodes cl i)"
    using vote_request_steady [OF ok run, where P = "\<lambda>_ _. False"] Q(4) by (simp_all add: steady_def)
  note I = I [OF e(1)]
  have h1: "hist_ok M ?h1" "keeps ?h1" using hist_step_ok [OF I(1) D(1,2)] by blast+
  have id: "vr_peer_id r = i" using Q(5) cluster_invD(3) [OF C i] by (simp add: cfg_ok_def)
  have sim: "sim V ents M h' ?cl"
    if "(hist_step M)\<^sup>*\<^sup>* h h'" "h_tm h' = h_tm ?h1" "h_lg h' = h_lg ?h1" "h_cd h' = h_cd ?h1" "h_can h' = h_can h" "h_gr h' = granted ?cl"
      "node_sim V ents M h' i st" for h'
    by (rule sim_update [OF S F i that(1), where st = st]) (use that m e(2) in \<open>auto simp: add_response_def\<close>)
  show ?thesis
  proof (cases "vr_vote_granted r")
    case False
    then have "h_gr ?h1 = granted ?cl" using D(4) by (auto simp: granted_add fun_eq_iff)
    with sim [of ?h1] I(1,2) show ?thesis by auto
  next
    case True
    let ?h2 = "?h1\<lparr>h_gr := (\<lambda>c p t. h_gr ?h1 c p t \<or> c = j \<and> p = i \<and> t = h_tm ?h1 i)\<rparr>"
    have t: "vr_term r = vq_term q" "c_term (context_of st) = vq_term q" using Q(6) True by simp_all
    have vi: "vote_info ?h1 j (vq_term q) (vq_last_log_term q) (unat (vq_last_log_index q))"
      using evolvesD(9) [OF I(4)] D(6) [OF rq] by simp
    have "log_is_ok V (rlog (nodes cl i)) q"
      using run True by (auto simp: on_request_vote_request_def Let_def split_beta split: if_splits)
    moreover have "unat (last_index V (rlog (nodes cl i))) = length (h_lg h i)"
      using one_index [of "rlog (nodes cl i)"] ok match_invD(3) [OF D(3) i] node_simD(2) [OF D(5) [OF i]] by (simp add: node_ok_def match_node_def)
    ultimately have up: "last_term_of (h_lg h i) < vq_last_log_term q \<or> vq_last_log_term q = last_term_of (h_lg h i) \<and>
        length (h_lg h i) \<le> unat (vq_last_log_index q)"
      using last_term [of "rlog (nodes cl i)"] ok node_simD(2) [OF D(5) [OF i]]
      by (auto simp: log_is_ok_def node_ok_def last_term_of_def idx_order split: if_splits)
    have s2: "hist_step M ?h1 ?h2"
    proof (rule hist_grant [OF i])
      show "j \<in> M" using cluster_invD(6) [OF C] rq by (auto simp: requests_own_def)
      show "h_tm ?h1 i \<le> h_tm ?h1 j" using vi t(2) by (simp add: vote_info_def)
      show "as_new (h_lg ?h1 i) (h_lg ?h1 j)" if "h_tm ?h1 j = h_tm ?h1 i" "h_cd ?h1 j"
        using vi up t(2) that by (simp add: vote_info_def as_new_def)
    qed
    have E: "evolves M ?h1 ?h2" by (rule hist_step_evolves [OF s2 h1 F])
    have "role (context_of st) = kLeader \<Longrightarrow> h_can ?h1 (c_term (context_of st)) \<noteq> []"
      using match_invD(3) [OF m i] by (auto simp: match_node_def)
    then have "node_sim V ents M ?h2 i st" by (intro node_sim_mono [OF E I(2)]) simp_all
    moreover have "h_gr ?h2 = granted ?cl" using D(4) True t id by (auto simp: granted_add fun_eq_iff)
    moreover have "(hist_step M)\<^sup>*\<^sup>* h ?h2" using I(1) s2 by (meson r_into_rtranclp rtranclp.rtrancl_into_rtrancl)
    ultimately show ?thesis by (intro exI [of _ ?h2] sim) simp_all
  qed
qed

end

end
