(* ===== verification/Commit_Lead.thy ===== *)
theory Commit_Lead
  imports Commit_Follow
begin

text \<open>
  How a candidate and a leader refine the abstract machine: the election, the entries of clients, what
  is sent, and the commit index, which is set to an index that a majority has acknowledged.
\<close>

subsection \<open>The commit index\<close>

lemma cfg_peers:
  assumes "cfg_ok M i st" "finite M" "i \<in> M"
  shows "distinct (map (\<lambda>x. p_id (snd x)) (peer_set st))" "p_id ` snd ` set (peer_set st) = M - {i}"
    "card M = Suc (length (peer_set st))" "(k, p) \<in> set (peer_set st) \<Longrightarrow> p_id p = k"
proof -
  have eq: "map (\<lambda>(k, p). (k, p_id p)) (peer_set st) = map (\<lambda>m. (fst m, fst m)) (o_members (opt st))"
    and C: "distinct (map fst (o_members (opt st)))" "fst ` set (o_members (opt st)) = M - {i}"
    using assms(1) by (simp_all add: cfg_ok_def)
  have ids: "map (\<lambda>x. p_id (snd x)) (peer_set st) = map fst (o_members (opt st))"
    using arg_cong [OF eq, of "map snd"] by (simp add: comp_def split_beta)
  show d: "distinct (map (\<lambda>x. p_id (snd x)) (peer_set st))" using C(1) ids by simp
  have "p_id ` snd ` set (peer_set st) = set (map (\<lambda>x. p_id (snd x)) (peer_set st))" by (simp add: image_image)
  with ids C(2) show s: "p_id ` snd ` set (peer_set st) = M - {i}" by simp
  have "card (M - {i}) = length (peer_set st)"
    using distinct_card [OF C(1)] C(2) arg_cong [OF eq, of length] by simp
  with card_Suc_Diff1 [OF assms(2,3)] show "card M = Suc (length (peer_set st))" by simp
  show "p_id p = k" if "(k, p) \<in> set (peer_set st)"
  proof -
    have "(k, p_id p) \<in> set (map (\<lambda>(k, p). (k, p_id p)) (peer_set st))" using that by force
    then show ?thesis unfolding eq by auto
  qed
qed

context log_if
begin

lemma commit_chosen:
  assumes C: "cfg_ok M i st" "finite M" "i \<in> M" and I: "inv (rlog st)" "start_index V (rlog st) = 1"
    and h: "h_ld h t = i" "h_can h t = ents (rlog st)" "peers_sim h t (progress st)"
    and n: "advance_commit_index V st = Inr n" "n \<noteq> 0" "entry V (rlog st) n = Some e" "e_term e = t"
  shows "chosen M h t (unat n)"
proof -
  let ?ps = "filter (\<lambda>x. n \<le> match_index (snd x)) (peer_set st)"
  let ?A = "p_id ` snd ` set ?ps"
  have le: "n \<le> last_index V (rlog st)" using n(3) entry_Some_iff [OF I(1), of n] by simp
  then have len: "unat n \<le> length (h_can h t)" using one_index [OF I] h(2) by (simp add: idx_order)
  have n0: "0 < unat n" using n(2) by (simp add: unat_gt_0)
  have "e = h_can h t ! (unat n - 1)"
    using entry_ents [OF I(1), of n] n(2,3) le I(2) h(2) by (simp add: one_le_iff)
  then have cut: "cut_at (h_can h) t (unat n)" using n(4) len n0 by (simp add: cut_at_def)
  have "length (filter (\<lambda>x. n \<le> x) (map (\<lambda>(k, p). match_index p) (peer_set st) @ [last_index V (rlog st)])) > (length (peer_set st) + 1) div 2"
    using middle_at [of "map (\<lambda>(k, p). match_index p) (peer_set st) @ [last_index V (rlog st)]" "length (peer_set st)"] n(1)
    unfolding advance_commit_index_def by (metis Inr_inject length_append_singleton length_map order_refl)
  then have half: "Suc (length ?ps) > card M div 2"
    using le cfg_peers(3) [OF C] by (simp add: filter_map comp_def split_beta)
  have "distinct (map (\<lambda>x. p_id (snd x)) ?ps)" using cfg_peers(1) [OF C] by (rule distinct_map_filter)
  from distinct_card [OF this] have "card ?A = length ?ps" by (simp add: image_image)
  moreover have A: "?A \<subseteq> M - {i}" using cfg_peers(2) [OF C] by auto
  ultimately have "card (insert i ?A) > card M div 2" "insert i ?A \<subseteq> M" using half C(3) by (auto simp: card_insert_if)
  moreover have "\<exists>x\<ge>unat n. acked h q t x" if "q \<in> insert i ?A" for q
  proof (cases "q = i")
    case True
    then show ?thesis using h(1) len n0 by (intro exI [of _ "unat n"]) (auto simp: acked_def)
  next
    case False
    with that obtain k p where p: "(k, p) \<in> set (peer_set st)" "n \<le> match_index p" "q = p_id p" by auto
    then have "(p_id p, next_index p, match_index p) \<in> set (progress st)" by (force simp: progress_def)
    then have "match_index p = 0 \<or> acked h (p_id p) t (unat (match_index p))" using h(3) by (auto simp: peers_sim_def)
    with p(2,3) n0 show ?thesis by (auto simp: idx_order)
  qed
  ultimately show ?thesis unfolding chosen_def using cut by (intro conjI exI [of _ "insert i ?A"]) simp_all
qed

lemma commit_node:
  assumes S: "sim V ents M h cl" and C: "cluster_inv V inv M cl" and i: "i \<in> M" and L: "role (context_of (nodes cl i)) = kLeader"
    and st1: "cfg_ok M i st1" "rlog st1 = rlog (nodes cl i)" "context_of st1 = context_of (nodes cl i)"
      "peers_sim h (h_tm h i) (progress st1)"
    and run: "try_advance_commit V st1 = Inr (x, st)"
  shows "node_sim V ents M h i st"
proof -
  note D = simD [OF S] and F = cluster_invD(1) [OF C]
  note N = node_simD [OF D(5) [OF i]]
  have m: "h_can h (h_tm h i) = ents (rlog (nodes cl i))" "start_index V (rlog (nodes cl i)) = 1"
    using match_invD(3) [OF D(3) i] L N(1) by (simp_all add: match_node_def)
  have I: "inv (rlog (nodes cl i))" using cluster_invD(4) [OF C i] by (simp add: node_ok_def)
  have n1: "node_sim V ents M h i st1" 
    unfolding node_sim_def st1(2,3) using N(1-3,6,7) N(4) [OF L] st1(4) by blast
  from run show ?thesis
  proof (cases rule: try_advance_commit_cases)
    case 1
    with n1 show ?thesis by simp
  next
    case (2 n e)
    have "chosen M h (h_tm h i) (unat n)"
      by (rule commit_chosen [OF st1(1) F i])
        (use I m st1 N(1) N(4) [OF L] 2 in simp_all)
    then have "safe M h i (unat n)"
      unfolding safe_at_def using m(1) N(2) by (metis order_refl take_is_prefix)
    then show ?thesis
      using node_simD [OF n1] I st1(2) unfolding node_sim_def by (simp add: 2(5) progress_def)
  qed
qed

text \<open>What a leader sends.\<close>

lemma safe_at_le:
  assumes "safe_at M h t xs c" "c' \<le> c"
  shows "safe_at M h t xs c'"
proof (cases "c = 0")
  case False
  then obtain u n where s: "chosen M h u n" "c \<le> n" "u \<le> t" "prefix (take c (h_can h u)) xs"
    using assms(1) unfolding safe_at_def by blast
  have "take c' (h_can h u) = take c' (take c (h_can h u))" using assms(2) by (simp add: min.absorb1)
  then have "prefix (take c' (h_can h u)) xs" using s(4) by (metis prefix_order.order_trans take_is_prefix)
  with s assms(2) show ?thesis unfolding safe_at_def using order_trans by blast
qed (use assms in \<open>simp add: safe_at_def\<close>)

lemma carries_sim:
  assumes "node_sim V ents M h i st" "role (context_of st) = kLeader" "h_can h (h_tm h i) = ents (rlog st)" "ents (rlog st) \<noteq> []"
    and "carries (context_of st) (ents (rlog st)) (peer_set st) k m"
  shows "req_sim M h i k m"
proof -
  note N = node_simD [OF assms(1)]
  obtain q where "m = AppendEntries q" using assms(5) by (cases m) simp_all
  with assms(5) N(1) obtain k' p where q: "m = AppendEntries q" "aq_term q = h_tm h i" "(k', p) \<in> set (peer_set st)" "k = p_id p"
      "aq_prev_log_index q = next_index p - 1" "aq_leader_commit q \<le> commit_index (context_of st)"
      "unat (aq_leader_commit q) \<le> unat (aq_prev_log_index q) + length (aq_entries q)"
    by auto
  have "(p_id p, next_index p, match_index p) \<in> set (progress st)" using q(3) by (force simp: progress_def)
  then have "reach_ok h k (h_tm h i) (unat (aq_prev_log_index q))" using N(5) [OF assms(2)] q(4,5) by (auto simp: peers_sim_def)
  moreover have "safe_at M h (h_tm h i) (h_can h (h_tm h i)) (unat (aq_leader_commit q))"
    using safe_at_le [OF N(6)] q(6) N(2) assms(3) by (simp add: idx_order)
  ultimately show ?thesis using q(1,2,7) assms(3,4) by simp
qed

text \<open>A step of a leader that leaves its term and its log.\<close>

lemma leader_steps:
  assumes S: "sim V ents M h cl" and F: "finite M" and i: "i \<in> M" and L: "role (context_of (nodes cl i)) = kLeader"
    and st: "c_term (context_of st) = c_term (context_of (nodes cl i))" "role (context_of st) = kLeader"
      "steady V ents P (nodes cl i) st" "node_sim V ents M h i st" "\<And>k m. P k m \<Longrightarrow> carries (context_of st) (ents (rlog st)) (peer_set st) k m"
    and m: "match_inv V ents M (grown ents (h_can h) st) (set_node i st cl)"
  shows "sim V ents M h (set_node i st cl)"
proof -
  note D = simD [OF S]
  have c: "h_can h (h_tm h i) = ents (rlog st)" "ents (rlog st) \<noteq> []"
    using match_invD(3) [OF D(3) i] L st(3) node_simD(1) [OF D(5) [OF i]] by (simp_all add: match_node_def steady_def)
  then have g: "grown ents (h_can h) st = h_can h" using node_simD(1) [OF st(4)] by (auto simp: grown_def)
  have "req_sim M h i k m" if "P k m" for k m by (rule carries_sim [OF st(4,2) c st(5) [OF that]])
  then show ?thesis
    by (intro sim_update [OF S F i rtranclp.rtrancl_refl, where st = st])
      (use m g st(3,4) D(4) in \<open>auto simp: steady_def\<close>)
qed

subsection \<open>The answer to an append\<close>

lemma append_response_step:
  assumes S: "sim V ents M h cl" and C: "cluster_inv V inv M cl" and i: "i \<in> M" and rs: "(i, AppendEntriesRsp r) \<in> responses cl"
    and run: "on_append_entries_response_async V S0 r (nodes cl i) = Inr (x, st)" and led: "led (nodes cl i) (EAppendResponse r)"
    and m: "match_inv V ents M (grown ents (h_can h) st) (set_node i st cl)"
  shows "\<exists>h'. sim V ents M h' (set_node i st cl)"
proof -
  note D = simD [OF S] and F = cluster_invD(1) [OF C]
  note N = node_simD [OF D(5) [OF i]]
  let ?s = "nodes cl i"
  have ok: "node_ok V inv ?s" and cfg: "cfg_ok M i ?s" by (fact cluster_invD(4) [OF C i] cluster_invD(3) [OF C i])+
  have start: "start_index V (rlog ?s) = 1" using match_invD(3) [OF D(3) i] by (simp add: match_node_def)
  have T: "tail_ok h (ar_peer_id r) (ar_term r) (unat (ar_last_log_index r))"
    "ar_success r \<Longrightarrow> acked h (ar_peer_id r) (ar_term r) (unat (ar_last_log_index r))"
    using D(7) [OF rs] by simp_all
  note stay = append_response_steady [OF ok start run]
  have upd: "peers_sim h (h_tm h i) (map (\<lambda>(k, p). (p_id p, next_index p, match_index p)) (peer_update (ar_peer_id r) f (peer_set ?s)))"
    if "role (context_of ?s) = kLeader" "ar_term r = c_term (context_of ?s)"
      "\<And>p. p_id (f p) = p_id p" "\<And>p. next_index (f p) = next_index p \<or> next_index (f p) = ar_last_log_index r + 1"
      "\<And>p. match_index (f p) = match_index p \<or> ar_success r \<and> match_index (f p) = ar_last_log_index r" for f
    unfolding peers_sim_def
  proof (clarsimp simp: peer_update_def)
    fix k p assume p: "(k, p) \<in> set (peer_set ?s)"
    then have "(p_id p, next_index p, match_index p) \<in> set (progress ?s)" by (force simp: progress_def)
    then have o: "reach_ok h (p_id p) (h_tm h i) (unat (next_index p - 1))" "match_index p = 0 \<or> acked h (p_id p) (h_tm h i) (unat (match_index p))"
      using N(5) [OF that(1)] by (auto simp: peers_sim_def)
    have "p_id p = k" using cfg_peers(4) [OF cfg F i p] .
    with o T that(2-5) N(1) show "(k = ar_peer_id r \<longrightarrow> reach_ok h (p_id (f p)) (h_tm h i) (unat (next_index (f p) - 1)) \<and>
        (match_index (f p) = 0 \<or> acked h (p_id (f p)) (h_tm h i) (unat (match_index (f p))))) \<and>
      (k \<noteq> ar_peer_id r \<longrightarrow> reach_ok h (p_id p) (h_tm h i) (unat (next_index p - 1)) \<and>
        (match_index p = 0 \<or> acked h (p_id p) (h_tm h i) (unat (match_index p))))"
      by (smt (verit) reach_ok_def add_diff_cancel_right')
  qed
  have lead: "role (context_of ?s) = kLeader" if "ar_term r = c_term (context_of ?s)" using led that by simp
  from ok start run show ?thesis
  proof (cases rule: append_response_cases)
    case down
    have "idles (context_of ?s) (context_of st)"
      using step_down_kept [OF ok down(1)] quiet_idles(1) by (simp add: down(2) kept_def)
    then show ?thesis
      by (rule sim_idle [OF S F i _ _ _ m, where P = "\<lambda>_ _. False"])
        (use step_down_steady [OF ok] step_down_calm [OF ok down(1)] in \<open>simp_all add: down(2)\<close>)
  next
    case old
    show ?thesis
      by (rule sim_idle [OF S F i _ _ _ m, where P = "\<lambda>_ _. False"]) (simp_all add: old idles_def calm_def)
  next
    case (stored st1)
    have p1: "peers_sim h (h_tm h i) (progress st1)"
      unfolding progress_def stored(8) by (rule upd [OF lead [OF stored(1)] stored(1)]) (use stored(2) in simp_all)
    have "same_cfg ?s st1" by (simp add: same_cfg_def stored(6,8) peer_update_p_ids)
    then have c1: "cfg_ok M i st1" by (rule cfg_ok_same [OF cfg]) (simp add: stored(4))
    have n: "node_sim V ents M h i st"
      by (rule commit_node [OF S C i lead [OF stored(1)] c1 stored(3,4) p1 stored(7)])
    have "c_term (context_of st) = c_term (context_of ?s)" "role (context_of st) = role (context_of ?s)" "outbox st = outbox ?s"
      using stored(7) stored(4,5) by (cases rule: try_advance_commit_cases; simp)+
    moreover have "steady V ents (\<lambda>_ _. False) ?s st" using stay stored(2) by simp
    ultimately have "sim V ents M h (set_node i st cl)"
      using leader_steps [OF S F i lead [OF stored(1)] _ _ _ n _ m] lead [OF stored(1)] by simp
    then show ?thesis ..
  next
    case (failed f)
    have p1: "peers_sim h (h_tm h i) (progress st)"
      unfolding progress_def failed(5) by (rule upd [OF lead [OF failed(1)] failed(1)]) (use failed(6) in auto)
    have n: "node_sim V ents M h i st"
      unfolding node_sim_def failed(3,4) using N(1-3,6,7) N(4) [OF lead [OF failed(1)]] p1 by blast
    have "steady V ents (carries (context_of st) (ents (rlog st)) (peer_set st)) ?s st"
      using stay failed(3,4) by (auto elim: steady_weaken)
    then have "sim V ents M h (set_node i st cl)"
      using leader_steps [OF S F i lead [OF failed(1)] _ _ _ n _ m] lead [OF failed(1)] failed(3) by simp
    then show ?thesis ..
  qed
qed

subsection \<open>Elections and entries\<close>

text \<open>The log of a leader grows by an entry of its term.\<close>

lemma lead_node:
  assumes "evolves M h h'" "h_can h' (h_tm h' i) = h_lg h' i" "h_lg h' i = h_lg h i @ [e]" "e_term e = h_tm h' i" "h_ld h' (h_tm h' i) = i" "\<not> h_cd h' i"
    and "h_tm h' i = c_term (context_of st)" "h_lg h' i = ents (rlog st)" "role (context_of st) = kLeader"
    and "safe M h i (unat (commit_index (context_of st)))" "safe M h i (unat (opt_u64 (m_commit_index (meta_data V (rlog st)))))"
    and "peers_sim h' (h_tm h' i) (progress st)"
  shows "node_sim V ents M h' i st"
  using assms(5-9,12) evolvesD(8) [OF assms(1) assms(10)] evolvesD(8) [OF assms(1) assms(11)]
  by (simp add: node_sim_def)

lemma modify_append_step:
  assumes S: "sim V ents M h cl" and C: "cluster_inv V inv M cl" and i: "i \<in> M" and room: "log_room V 1 (nodes cl i)"
    and run: "modify_append V e (nodes cl i) = (x, st)" and led: "led (nodes cl i) (EModifyAppend e)"
    and m: "match_inv V ents M (grown ents (h_can h) st) (set_node i st cl)"
  shows "\<exists>h'. sim V ents M h' (set_node i st cl)"
proof -
  note D = simD [OF S] and F = cluster_invD(1) [OF C]
  note N = node_simD [OF D(5) [OF i]]
  have ok: "node_ok V inv (nodes cl i)" by (rule cluster_invD(4) [OF C i])
  note A = modify_append_log [OF ok room run] and K = calm_safe [OF D(5) [OF i] modify_append_calm [OF ok room run]]
  have L: "role (context_of (nodes cl i)) = kLeader" "e_term e = h_tm h i" using led N(1) by simp_all
  have c: "h_can h (h_tm h i) = h_lg h i" "h_lg h i \<noteq> []" using match_invD(3) [OF D(3) i] L(1) N(1,2) by (auto simp: match_node_def)
  let ?h = "h\<lparr>h_lg := (h_lg h)(i := h_lg h i @ [e]), h_can := (h_can h)(h_tm h i := h_lg h i @ [e])\<rparr>"
  have s: "hist_step M h ?h" using L c N(3) N(4) [OF L(1)] by (intro hist_append [OF i]) simp_all
  have E: "evolves M h ?h" by (rule hist_step_evolves [OF s D(1,2) F])
  have "node_sim V ents M ?h i st"
    by (rule lead_node [OF E, of i e]) (use L N A K N(4,5) [OF L(1)] peers_sim_mono [OF E] in simp_all)
  moreover have "grown ents (h_can h) st = h_can ?h" using L(1) A(1,4) N(1,2) by (simp add: grown_def)
  ultimately have "sim V ents M ?h (set_node i st cl)"
    by (intro sim_update [OF S F i r_into_rtranclp [of "hist_step M", OF s], where st = st]) (use m A(3) D(4) in auto)
  then show ?thesis ..
qed

lemma vote_response_step:
  assumes S: "sim V ents M h cl" and C: "cluster_inv V inv M cl" and i: "i \<in> M" and rs: "(i, RequestVoteRsp r) \<in> responses cl"
    and room: "log_room V 1 (nodes cl i)" and run: "on_request_vote_response_async V now r (nodes cl i) = Inr (x, st)"
    and C': "cluster_inv V inv M (set_node i st cl)" and m: "match_inv V ents M (grown ents (h_can h) st) (set_node i st cl)"
  shows "\<exists>h'. sim V ents M h' (set_node i st cl)"
proof -
  note D = simD [OF S] and F = cluster_invD(1) [OF C]
  note N = node_simD [OF D(5) [OF i]]
  let ?s = "nodes cl i" and ?c = "context_of (nodes cl i)" and ?c' = "context_of st"
  have ok: "node_ok V inv ?s" by (rule cluster_invD(4) [OF C i])
  note K = vote_response_calm [OF ok room run]
  from vote_response_log [OF ok room run] show ?thesis
  proof (elim disjE conjE)
    assume s: "steady V ents (\<lambda>_ _. False) ?s st" "role ?c' = kLeader \<longrightarrow> role ?c = kLeader"
    have "idles ?c ?c'"
      using vote_response_kept [OF ok room run] s(2) quiet_idles(1) by (auto simp: counted_def Let_def idles_def)
    moreover have "calm V ?s st" using K s(2) by auto
    ultimately show ?thesis by (intro sim_idle [OF S F i _ s(1) _ m]) simp_all
  next
    assume e: "role ?c = kCandidate" "role ?c' = kLeader" "c_term ?c' = c_term ?c"
      "ents (rlog st) = ents (rlog ?s) @ [noop_entry (c_term ?c)]" "start_index V (rlog st) = start_index V (rlog ?s)" "outbox st = outbox ?s"
    let ?Q = "quorum_granted ?c'" and ?e = "noop_entry (h_tm h i)"
    have Q: "?Q \<subseteq> M" "card ?Q > card M div 2" "\<forall>p\<in>?Q. p = i \<or> granted cl i p (h_tm h i)"
      using leader_votes [OF C' i] e(2,3) N(1) by simp_all
    have empty: "h_can h (h_tm h i) = []"
      using settled_no_majority [OF _ C i e(1) refl Q(1,2)] Q(3) N(1) match_invD(2) [OF D(3)] by auto
    let ?h = "h\<lparr>h_lg := (h_lg h)(i := h_lg h i @ [?e]), h_can := (h_can h)(h_tm h i := h_lg h i @ [?e]), h_ld := (h_ld h)(h_tm h i := i),
       h_vq := (h_vq h)(h_tm h i := ?Q), h_cd := (h_cd h)(i := False)\<rparr>"
    have s: "hist_step M h ?h"
      by (rule hist_elect [OF i _ empty Q(1,2)]) (use N(3) e(1) Q(3) D(4) in \<open>simp_all add: noop_entry_def\<close>)
    have E: "evolves M h ?h" by (rule hist_step_evolves [OF s D(1,2) F])
    have k: "commit_index ?c' = commit_index ?c" "m_commit_index (meta_data V (rlog st)) = m_commit_index (meta_data V (rlog ?s))"
      "\<forall>(k, n, m)\<in>set (progress st). n = last_index V (rlog st) + 1 \<and> m = 0"
      using K e(1,2) by auto
    have I: "inv (rlog st)" "start_index V (rlog st) = 1"
      using cluster_invD(4) [OF C' i] match_invD(3) [OF D(3) i] e(5) by (simp_all add: node_ok_def match_node_def)
    have "cut_at (h_can ?h) (h_tm h i) (unat (last_index V (rlog st)))"
      using one_index [OF I] e(4) N(1,2) by (simp add: cut_at_def nth_append noop_entry_def)
    then have "peers_sim ?h (h_tm h i) (progress st)" using k(3) by (auto simp: peers_sim_def reach_ok_def)
    then have "node_sim V ents M ?h i st"
      by (intro lead_node [OF E, of i ?e]) (use e(2-4) N k in \<open>simp_all add: noop_entry_def\<close>)
    moreover have "grown ents (h_can h) st = h_can ?h" using e(2-4) N(1,2) by (simp add: grown_def)
    ultimately have "sim V ents M ?h (set_node i st cl)"
      by (intro sim_update [OF S F i r_into_rtranclp [of "hist_step M", OF s], where st = st]) (use m e(6) D(4) in auto)
    then show ?thesis ..
  qed
qed

end

end
