(* ===== verification/Commit_Safe.thy ===== *)
theory Commit_Safe
  imports Commit_Lead
begin

text \<open>
  Every step of a led run is simulated, so committed entries are never lost: the committed parts of
  two logs agree, and a leader has what was committed in its term or before.
\<close>

text \<open>A new cluster: empty logs, nothing committed.\<close>

definition fresh_start :: "'l LogIf \<Rightarrow> ('l \<Rightarrow> entry list) \<Rightarrow> u64 set \<Rightarrow> ('l, 's) cluster \<Rightarrow> bool" where
  "fresh_start V ents M cl \<longleftrightarrow>
     (\<forall>i\<in>M. start_index V (rlog (nodes cl i)) = 1 \<and> ents (rlog (nodes cl i)) = [] \<and>
        commit_index (context_of (nodes cl i)) = 0 \<and> opt_u64 (m_commit_index (meta_data V (rlog (nodes cl i)))) = 0)"

inductive fresh_reach ::
    "'l LogIf \<Rightarrow> ('l \<Rightarrow> entry list) \<Rightarrow> ('l \<Rightarrow> bool) \<Rightarrow> 's StoreIf \<Rightarrow> proto \<Rightarrow> ('l \<Rightarrow> 'l res) \<Rightarrow> u64 set \<Rightarrow> ('l, 's) cluster \<Rightarrow> bool"
  for V ents linv S P reopen M where
  fresh_init: "cluster_start V linv M cl \<Longrightarrow> fresh_start V ents M cl \<Longrightarrow> fresh_reach V ents linv S P reopen M cl"
| fresh_step: "fresh_reach V ents linv S P reopen M cl \<Longrightarrow> cluster_step V S P reopen M i ev cl cl' \<Longrightarrow> led (nodes cl i) ev \<Longrightarrow>
     fresh_reach V ents linv S P reopen M cl'"

lemma fresh_reach_led: "fresh_reach V ents linv S P reopen M cl \<Longrightarrow> led_reach V ents linv S P reopen M cl"
proof (induction rule: fresh_reach.induct)
  case (fresh_init cl)
  then have "common_start V ents M cl" by (auto simp: common_start_def fresh_start_def intro!: exI [of _ "[]"])
  with fresh_init show ?case by (intro led_start)
qed (rule led_step)

lemmas fresh_reach_reach = led_reach_reach [OF fresh_reach_led]

lemma sim_pending [simp]:
  "sim V ents M h (add_pending i a cl) = sim V ents M h cl" "sim V ents M h (del_pending i b cl) = sim V ents M h cl"
  "sim V ents M h (drop_pending i cl) = sim V ents M h cl"
  by (simp_all add: sim_def granted_def [abs_def])

context cluster_env
begin

lemma restart_sim:
  assumes S: "sim V ents M h cl" and C: "cluster_inv V inv M cl" and i: "i \<in> M"
    and l: "unat (last_index V (rlog (nodes cl i))) < reopen_limit" "reopen (rlog (nodes cl i)) = Inr l" "o_id o0 = o_id (opt (nodes cl i))"
      "RaftConsensus_init V now rnd o0 l kv = Inr (Running st)"
    and m: "match_inv V ents M (grown ents (h_can h) st) (set_node i st cl)"
  shows "\<exists>h'. sim V ents M h' (set_node i st cl)"
proof
  let ?s = "nodes cl i"
  note D = simD [OF S] and F = cluster_invD(1) [OF C]
  note N = node_simD [OF D(5) [OF i]]
  have ok: "node_ok V inv ?s" "cfg_ok M i ?s" using cluster_invD(4,3) [OF C i] .
  have L: "inv l" "meta_data V l = meta_data V (rlog ?s)" "ents l = ents (rlog ?s)"
    using reopen_spec [OF _ l(1,2)] ok by (simp_all add: node_ok_def)
  have "o_id o0 = c_id (context_of ?s)" using ok(2) l(3) by (simp add: cfg_ok_def)
  then have q: "idles (context_of ?s) (context_of st)"
    using restart_quiet(2) [OF ok(1) _ L(1,2) l(4)] quiet_idles(1) by blast
  note R = restart_commit [OF L(1) l(4)] and B = restart_steady [OF L(1) l(4)]
  have "ents (rlog st) = ents (rlog ?s)" "role (context_of st) = kLeader \<longrightarrow> progress st = progress ?s" using B(1,4) L(3) by simp_all
  note I = idle_node [OF S F i q this] N(7) R L(2)
  have n: "hist_step M h (idle i (context_of st) h)" "node_sim V ents M (idle i (context_of st) h) i st" "grown ents (h_can h) st = h_can h"
    using I by simp_all
  show "sim V ents M (idle i (context_of st) h) (set_node i st cl)"
    by (rule sim_update [OF S F i r_into_rtranclp [of "hist_step M", OF n(1)], where st = st])
      (use m n(2,3) B(3) D(4) in auto)
qed

lemma sim_step:
  assumes S: "sim V ents M h cl" and C: "cluster_inv V inv M cl" and st: "cluster_step V S0 P reopen M i ev cl cl'" and led: "led (nodes cl i) ev"
  shows "\<exists>h'. sim V ents M h' cl'"
proof -
  note D = simD [OF S] and F = cluster_invD(1) [OF C]
  have i: "i \<in> M" using st by cases simp_all
  have ok: "node_ok V inv (nodes cl i)" by (rule cluster_invD(4) [OF C i])
  have start: "start_index V (rlog (nodes cl i)) = 1" using match_invD(3) [OF D(3) i] by (simp add: match_node_def)
  note m = step_match [OF D(3) C st led] and C' = step_inv [OF C st]
  have quiet: "\<exists>h'. sim V ents M h' (set_node i s cl)"
    if "kept V inv (nodes cl i) s" "steady V ents (\<lambda>_ _. False) (nodes cl i) s" "calm V (nodes cl i) s"
      "match_inv V ents M (grown ents (h_can h) s) (set_node i s cl)" for s
    by (rule sim_idle [OF S F i _ that(2-4)]) (use that(1) quiet_idles(1) in \<open>simp_all add: kept_def\<close>)
  from st show ?thesis
  proof cases
    case (step_check now a s)
    then have "match_inv V ents M (grown ents (h_can h) s) (set_node i s cl)" using m by simp
    with step_check show ?thesis
      using quiet [of s] main_thread_check_kept [OF ok step_check(4)] main_thread_check_steady [OF step_check(4)]
        main_thread_check_calm [OF step_check(4)] by simp
  next
    case (step_tick a now s)
    then have m': "match_inv V ents M (grown ents (h_can h) s) (set_node i s cl)" using m by simp
    show ?thesis
    proof (cases a)
      case Heartbeat
      then have L: "role (context_of (nodes cl i)) = kLeader" using led step_tick(1) by simp
      have b: "steady V ents (carries (context_of (nodes cl i)) (ents (rlog (nodes cl i))) (peer_set (nodes cl i))) (nodes cl i) s"
          "context_of s = context_of (nodes cl i)" "peer_set s = peer_set (nodes cl i)" "rlog s = rlog (nodes cl i)"
        using heartbeat_steady [OF ok start] step_tick(6) Heartbeat by blast+
      have "node_sim V ents M h i s" 
        using D(5) [OF i] unfolding node_sim_def progress_def b(2-4) .
      from leader_steps [OF S F i L _ _ b(1) this _ m'] b(2-4) L step_tick(2) show ?thesis by auto
    next
      case Campaign
      have "idles (context_of (nodes cl i)) (context_of s)"
        using main_thread_act_kept [OF ok step_tick(5,6)] quiet_idles by blast
      moreover have "steady V ents (asks (context_of s) (ents (rlog (nodes cl i)))) (nodes cl i) s" "calm V (nodes cl i) s"
        using campaign_steady [OF ok start] campaign_calm [OF ok] step_tick(6) Campaign by blast+
      moreover have "req_sim M (idle i (context_of s) h) i k q" if "asks (context_of s) (ents (rlog (nodes cl i))) k q" for k q
        using that node_simD(2) [OF D(5) [OF i]] by (cases q) (simp_all add: vote_info_def last_term_of_def)
      ultimately show ?thesis using sim_idle [OF S F i _ _ _ m'] step_tick(2) by simp
    qed
  next
    case (step_vote_request j q now r s)
    have "grown ents (h_can h) s = h_can h"
      using vote_request_steady [OF ok step_vote_request(5), where P = "\<lambda>_ _. False"] vote_request_kept [OF ok step_vote_request(5)] match_invD(3) [OF D(3) i]
      by (auto simp: grown_def steady_def kept_def quiet_def match_node_def)
    with m step_vote_request vote_request_step [OF S C i step_vote_request(4,5)] show ?thesis by simp
  next
    case (step_append_request j q now r s)
    then have "match_inv V ents M can' (add_response j (AppendEntriesRsp r) (set_node i s cl))" if "can' = h_can h" for can'
      using append_request_match [OF D(3) C i step_append_request(4-6)] that by (auto intro: match_inv_response)
    with step_append_request append_request_step [OF S C i step_append_request(4-6)] show ?thesis by simp
  next
    case step_install_request
    then show ?thesis using D(6) by fastforce
  next
    case (step_vote_response r now x s)
    then show ?thesis using vote_response_step [OF S C i step_vote_response(4-6)] m C' by simp
  next
    case (step_append_response r x s)
    then show ?thesis using append_response_step [OF S C i step_append_response(4,5)] m led by simp
  next
    case step_install_response
    then show ?thesis using D(7) by fastforce
  next
    case step_modify_begin
    then show ?thesis using S by auto
  next
    case (step_modify_append e x s)
    then show ?thesis using modify_append_step [OF S C i step_modify_append(5,6)] m led by simp
  next
    case (step_modify_finish aim out s)
    then have "rlog s = rlog (nodes cl i)" "outbox s = outbox (nodes cl i)"
      by (auto simp: modify_finish_def split: if_splits prod.splits)
    with step_modify_finish m show ?thesis
      using quiet [of s] modify_finish_kept [OF ok] client_calm(1) [OF step_modify_finish(4)] steady_same [of s "nodes cl i"] by simp
  next
    case (step_query_begin cmd aim s)
    then have "rlog s = rlog (nodes cl i)" "outbox s = outbox (nodes cl i)"
      by (auto simp: query_begin_def split: if_splits prod.splits)
    with step_query_begin m show ?thesis
      using quiet [of s] query_begin_kept [OF ok] client_calm(2) [OF step_query_begin(4)] steady_same [of s "nodes cl i"] by simp
  next
    case (step_snapshot it s)
    then have "rlog s = rlog (nodes cl i)" "outbox s = outbox (nodes cl i)"
      by (auto simp: snapshot_create_def Let_def split: prod.splits)
    with step_snapshot m show ?thesis
      using quiet [of s] snapshot_create_kept [OF ok] client_calm(3) [OF step_snapshot(4)] steady_same [of s "nodes cl i"] by simp
  next
    case step_trim
    then show ?thesis using led by simp
  next
    case (step_apply ctl s)
    with m show ?thesis
      using quiet [of s] apply_step_kept [OF ok step_apply(4)] apply_step_calm [OF ok step_apply(4)] apply_step_steady [OF ok step_apply(4)] by simp
  next
    case (step_restart l o0 now rnd s)
    with m restart_sim [OF S C i step_restart(4-6,8)] show ?thesis by simp
  qed
qed

lemma start_sim:
  assumes "cluster_start V inv M cl" "fresh_start V ents M cl"
  shows "\<exists>h. sim V ents M h cl"
proof
  let ?h = "\<lparr>h_tm = (\<lambda>i. c_term (context_of (nodes cl i))), h_lg = (\<lambda>_. []), h_cd = (\<lambda>_. False), h_gr = (\<lambda>_ _ _. False),
    h_ak = (\<lambda>_ _ _. False), h_can = (\<lambda>_. []), h_ld = (\<lambda>_. 0), h_vq = (\<lambda>_. {})\<rparr>"
  have N: "role (context_of (nodes cl i)) = kFollower" "outbox (nodes cl i) = []" if "i \<in> M" for i
    using node_start_ok(3,4) [of M i "nodes cl i"] assms(1) that by (simp_all add: cluster_start_def)
  have "hist_ok M ?h" "keeps ?h" using hist_start_ok [of ?h M] by (simp_all add: hist_start_def)
  moreover have "match_inv V ents M (h_can ?h) cl"
    using assms N by (simp add: match_inv_def match_node_def fresh_start_def cluster_start_def)
  ultimately show "sim V ents M ?h cl"
    using assms N by (auto simp: sim_def node_sim_def safe_at_def fresh_start_def cluster_start_def granted_def [abs_def])
qed

theorem fresh_reach_sim: "fresh_reach V ents inv S P reopen M cl \<Longrightarrow> \<exists>h. sim V ents M h cl"
proof (induction rule: fresh_reach.induct)
  case (fresh_step cl i ev cl')
  then show ?case using sim_step reach_inv [OF fresh_reach_reach] by blast
qed (rule start_sim)

subsection \<open>Committed entries\<close>

text \<open>The committed part of a log is a piece of a chosen log.\<close>

lemma committed_chosen:
  assumes "sim V ents M h cl" "i \<in> M" "c = unat (commit_index (context_of (nodes cl i)))" "0 < c"
  obtains t n where "chosen M h t n" "c \<le> n" "t \<le> c_term (context_of (nodes cl i))"
    "take c (ents (rlog (nodes cl i))) = take c (h_can h t)" "c \<le> length (ents (rlog (nodes cl i)))"
proof -
  note N = node_simD [OF simD(5) [OF assms(1,2)]]
  obtain t n where s: "chosen M h t n" "c \<le> n" "t \<le> h_tm h i" "prefix (take c (h_can h t)) (h_lg h i)"
    using N(6) assms(3,4) unfolding safe_at_def by auto
  have "length (take c (h_can h t)) = c" using s(1,2) by (simp add: chosen_def cut_at_def)
  with s(4) have "take c (h_lg h i) = take c (h_can h t)" "c \<le> length (h_lg h i)"
    by (metis append_eq_conv_conj prefix_def, metis prefix_length_le)
  with that [OF s(1,2)] s(3) N(1,2) show thesis by simp
qed

lemma chosen_agree:
  assumes "hist_ok M h" "keeps h" "finite M" "chosen M h t n" "t \<le> u" "h_can h u \<noteq> []" "c \<le> n"
  shows "take c (h_can h u) = take c (h_can h t)" "c \<le> length (h_can h u)"
proof -
  have "prefix (take n (h_can h t)) (h_can h u)"
    using chosen_carried [OF assms(1-4), of u] assms(5,6) by (cases "t = u") (auto simp: take_is_prefix)
  moreover have "n \<le> length (h_can h t)" using assms(4) by (simp add: chosen_def cut_at_def)
  ultimately show "take c (h_can h u) = take c (h_can h t)" "c \<le> length (h_can h u)"
    using assms(7) by (auto simp: prefix_def min_def)
qed

theorem fresh_committed:
  assumes "fresh_reach V ents inv S P reopen M cl" "i \<in> M" "j \<in> M"
    and "c \<le> unat (commit_index (context_of (nodes cl i)))" "c \<le> unat (commit_index (context_of (nodes cl j)))"
  shows "take c (ents (rlog (nodes cl i))) = take c (ents (rlog (nodes cl j)))" "c \<le> length (ents (rlog (nodes cl i)))"
proof -
  obtain h where S: "sim V ents M h cl" using fresh_reach_sim [OF assms(1)] ..
  note D = simD [OF S] and F = cluster_invD(1) [OF reach_inv [OF fresh_reach_reach [OF assms(1)]]]
  have "take c (ents (rlog (nodes cl i))) = take c (ents (rlog (nodes cl j))) \<and> c \<le> length (ents (rlog (nodes cl i)))"
  proof (cases "c = 0")
    case False
    let ?a = "unat (commit_index (context_of (nodes cl i)))" and ?b = "unat (commit_index (context_of (nodes cl j)))"
    obtain t n where s: "chosen M h t n" "?a \<le> n" "take ?a (ents (rlog (nodes cl i))) = take ?a (h_can h t)" "?a \<le> length (ents (rlog (nodes cl i)))"
      by (rule committed_chosen [OF S assms(2) refl]) (use False assms(4) in auto)
    obtain u k where r: "chosen M h u k" "?b \<le> k" "take ?b (ents (rlog (nodes cl j))) = take ?b (h_can h u)"
      by (rule committed_chosen [OF S assms(3) refl]) (use False assms(5) in auto)
    have ne: "h_can h t \<noteq> []" "h_can h u \<noteq> []" using s(1) r(1) by (auto simp: chosen_def cut_at_def)
    have cn: "c \<le> n" "c \<le> k" using assms(4,5) s(2) r(2) by linarith+
    have "take c (h_can h u) = take c (h_can h t)"
    proof (cases "t \<le> u")
      case True
      show ?thesis by (rule chosen_agree(1) [OF D(1,2) F s(1) True ne(2) cn(1)])
    next
      case no: False
      have "u \<le> t" using no by simp
      from chosen_agree(1) [OF D(1,2) F r(1) this ne(1) cn(2)] show ?thesis by simp
    qed
    moreover have "take c (ents (rlog (nodes cl i))) = take c (h_can h t)" "take c (ents (rlog (nodes cl j))) = take c (h_can h u)"
      using arg_cong [OF s(3), of "take c"] arg_cong [OF r(3), of "take c"] assms(4,5) by (simp_all add: min_def)
    ultimately show ?thesis using s(4) assms(4) by simp
  qed simp
  then show "take c (ents (rlog (nodes cl i))) = take c (ents (rlog (nodes cl j)))" "c \<le> length (ents (rlog (nodes cl i)))"
    by blast+
qed

theorem fresh_leader_complete:
  assumes "fresh_reach V ents inv S P reopen M cl" "i \<in> M" "j \<in> M" "role (context_of (nodes cl j)) = kLeader"
    and "c_term (context_of (nodes cl i)) \<le> c_term (context_of (nodes cl j))"
  shows "prefix (take (unat (commit_index (context_of (nodes cl i)))) (ents (rlog (nodes cl i)))) (ents (rlog (nodes cl j)))"
proof -
  obtain h where S: "sim V ents M h cl" using fresh_reach_sim [OF assms(1)] ..
  note D = simD [OF S] and F = cluster_invD(1) [OF reach_inv [OF fresh_reach_reach [OF assms(1)]]]
  let ?c = "unat (commit_index (context_of (nodes cl i)))" and ?u = "c_term (context_of (nodes cl j))"
  have u: "h_can h ?u = ents (rlog (nodes cl j))" "h_can h ?u \<noteq> []" using match_invD(3) [OF D(3) assms(3)] assms(4) by (auto simp: match_node_def)
  show ?thesis
  proof (cases "?c = 0")
    case False
    obtain t n where s: "chosen M h t n" "?c \<le> n" "t \<le> c_term (context_of (nodes cl i))" "take ?c (ents (rlog (nodes cl i))) = take ?c (h_can h t)"
      by (rule committed_chosen [OF S assms(2) refl]) (use False in auto)
    have "t \<le> ?u" using s(3) assms(5) by (rule order_trans)
    from chosen_agree(1) [OF D(1,2) F s(1) this u(2) s(2)] s(4) u(1) show ?thesis by (metis take_is_prefix)
  qed simp
qed

end

end
