(* ===== verification/Bytes.thy ===== *)
theory Bytes
  imports Prelude
begin

text \<open>
  Big-endian byte strings of natural numbers, the network byte order of message headers and of
  the keys of the log: encoding, decoding, the round trip, and the agreement of the bytewise
  order with the order of the numbers.
\<close>

fun be_bytes :: "nat \<Rightarrow> nat \<Rightarrow> string" where
  "be_bytes 0 n = []"
| "be_bytes (Suc k) n = char_of (n div 256 ^ k mod 256) # be_bytes k (n mod 256 ^ k)"

fun be_val :: "string \<Rightarrow> nat" where
  "be_val [] = 0"
| "be_val (c # cs) = of_char c * 256 ^ length cs + be_val cs"

lemma length_be_bytes [simp]: "length (be_bytes k n) = k"
  by (induction k arbitrary: n) auto

lemma be_val_bytes: "n < 256 ^ k \<Longrightarrow> be_val (be_bytes k n) = n"
proof (induction k arbitrary: n)
  case (Suc k)
  have "n div 256 ^ k < 256" using Suc.prems by (simp add: less_mult_imp_div_less)
  moreover have "be_val (be_bytes k (n mod 256 ^ k)) = n mod 256 ^ k" by (rule Suc.IH) simp
  ultimately show ?case using div_mult_mod_eq [of n "256 ^ k"] by simp
qed simp

lemma be_bytes_less: "n < m \<Longrightarrow> m < 256 ^ k \<Longrightarrow> be_bytes k n < be_bytes k m"
proof (induction k arbitrary: n m)
  case (Suc k)
  let ?b = "256 ^ k :: nat"
  have lt: "n div ?b < 256" "m div ?b < 256"
    using Suc.prems by (auto simp: less_mult_imp_div_less)
  show ?case
  proof (cases "n div ?b = m div ?b")
    case True
    then have "n mod ?b < m mod ?b"
      using Suc.prems(1) by (metis div_mult_mod_eq nat_add_left_cancel_less)
    then have "be_bytes k (n mod ?b) < be_bytes k (m mod ?b)" by (intro Suc.IH) simp_all
    with True show ?thesis by simp
  next
    case False
    then have "n div ?b < m div ?b" using Suc.prems(1) by (simp add: div_le_mono le_neq_implies_less)
    with lt show ?thesis by (simp add: less_char_def)
  qed
qed simp

lemma be_val_less: "be_val cs < 256 ^ length cs"
proof (induction cs)
  case (Cons c cs)
  have "of_char c * 256 ^ length cs + be_val cs < (of_char c + 1) * (256 :: nat) ^ length cs"
    using Cons by simp
  also have "\<dots> \<le> 256 * 256 ^ length cs"
    by (intro mult_le_mono1) (metis Suc_eq_plus1 Suc_leI nat_of_char_less_256)
  finally show ?case by simp
qed simp

end
