(* ===== verification/Log_Reopen.thy ===== *)
theory Log_Reopen
  imports Level_Log Bytes
begin

text \<open>
  Opening a log again: the constructor of \<^verbatim>\<open>LevelDBLog\<close> finds the bounds of the log by scanning the
  keys of the database. \<open>log_keys\<close> says which keys a log writes, \<open>net_order\<close> that the byte order
  helpers give eight bytes in network order.
\<close>

definition log_keys :: "'db leveldb \<Rightarrow> codec \<Rightarrow> 'db leveldb_log \<Rightarrow> bool" where
  "log_keys L E lg \<longleftrightarrow>
     (\<forall>k v. db_Get L (lg_db lg) k = Some v \<longrightarrow>
        k \<in> {META_CURRENT_TERM, META_VOTED_FOR, META_COMMIT_INDEX, META_APPLY_INDEX} \<or> (\<exists>i. k = uint64_to_net E i))"

definition net_order :: "codec \<Rightarrow> bool" where
  "net_order E \<longleftrightarrow> (\<forall>x. uint64_to_net E x = be_bytes 8 (unat x))"

subsection \<open>Which keys are written\<close>

lemma batch_keys:
  assumes "batch_apply b m k = Some v"
  shows "m k = Some v \<or> Put k v \<in> set b"
  using assms
proof (induction b arbitrary: m)
  case (Cons x b)
  then have "op_apply x m k = Some v \<or> Put k v \<in> set b" by simp
  then show ?case by (cases x) (auto split: if_splits)
qed simp

lemma append_batch_keys: "Put k v \<in> set (fst (append_batch E lst es)) \<Longrightarrow> \<exists>i. k = uint64_to_net E i"
  by (induction E lst es rule: append_batch.induct) (auto simp: Let_def split_beta)

lemma log_keys_step:
  assumes "log_keys L E lg"
    and "\<And>k v. db_Get L (lg_db lg') k = Some v \<Longrightarrow> db_Get L (lg_db lg) k \<noteq> None \<or>
        k \<in> {META_CURRENT_TERM, META_VOTED_FOR, META_COMMIT_INDEX, META_APPLY_INDEX} \<or> (\<exists>i. k = uint64_to_net E i)"
  shows "log_keys L E lg'"
  using assms unfolding log_keys_def by (metis option.exhaust)

lemma append_keys:
  assumes "log_inv L E lg" "log_keys L E lg"
  shows "log_keys L E (snd (LevelDBLog_append L E lg es))"
proof (rule log_keys_step [OF assms(2)])
  note D = log_wfD [OF log_invD(1) [OF assms(1)]]
  fix k v assume "db_Get L (lg_db (snd (LevelDBLog_append L E lg es))) k = Some v"
  then have "db_Get L (lg_db lg) k = Some v \<or> Put k v \<in> set (fst (append_batch E (lg_last lg) es))"
    by (auto simp: append_unfold Let_def leveldb_okD [OF D(1)] split: if_splits dest: batch_keys)
  then show "db_Get L (lg_db lg) k \<noteq> None \<or>
      k \<in> {META_CURRENT_TERM, META_VOTED_FOR, META_COMMIT_INDEX, META_APPLY_INDEX} \<or> (\<exists>i. k = uint64_to_net E i)"
    by (auto dest: append_batch_keys)
qed

lemma truncate_keys:
  assumes "log_inv L E lg" "log_keys L E lg"
  shows "log_keys L E (LevelDBLog_truncate_prefix L E lg k)" "log_keys L E (LevelDBLog_truncate_suffix L E lg k)"
  using log_wfD(1,2) [OF log_invD(1) [OF assms(1)]]
  by (auto intro!: log_keys_step [OF assms(2)] simp: LevelDBLog_truncate_prefix_def LevelDBLog_truncate_suffix_def
      split_beta Let_def leveldb_okD prefix_batch_eq suffix_batch_eq split: if_splits dest!: batch_keys simp del: upt_Suc)

lemma set_meta_keys:
  assumes "log_inv L E lg" "log_keys L E lg"
  shows "log_keys L E (snd (LevelDBLog_set_meta_data L E lg m))"
    "log_keys L E (snd (LevelDBLog_set_meta_commit_index L E lg c))"
    "log_keys L E (snd (LevelDBLog_set_meta_apply_index L E lg c))"
  using log_wfD(1,2) [OF log_invD(1) [OF assms(1)]]
  by (auto intro!: log_keys_step [OF assms(2)] simp: LevelDBLog_set_meta_data_def LevelDBLog_set_meta_commit_index_def
      LevelDBLog_set_meta_apply_index_def split_beta Let_def leveldb_okD split: if_splits option.splits dest!: batch_keys)

subsection \<open>Index keys below the meta keys\<close>

lemma be_val_append: "be_val (a @ b) = be_val a * 256 ^ length b + be_val b"
  by (induction a) (auto simp: algebra_simps power_add)

text \<open>\<open>0x4D4554415F\<close> is the number whose bytes spell \<^verbatim>\<open>META_\<close>.\<close>

lemma small_not_meta:
  assumes "n < 0x4D4554415F"
  shows "\<not> is_meta_key (be_bytes 8 n)" "be_bytes 8 n < ''META_'' @ s"
proof -
  have val: "be_val (be_bytes 8 n) = n" using assms by (intro be_val_bytes) simp
  show "\<not> is_meta_key (be_bytes 8 n)"
  proof
    assume "is_meta_key (be_bytes 8 n)"
    then obtain a b where "be_bytes 8 n = a @ ''META_'' @ b" by (auto simp: is_meta_key_def str_contains_iff)
    then have "be_val ''META_'' * 256 ^ length b \<le> n"
      using val by (simp only: be_val_append)
    moreover have "be_val ''META_'' \<le> be_val ''META_'' * 256 ^ length b" by simp
    moreover have "be_val ''META_'' = 0x4D4554415F" by simp
    ultimately show False using assms by linarith
  qed
  have "be_bytes 8 n = char_of (n div 256 ^ 7 mod 256) # be_bytes 7 (n mod 256 ^ 7)"
    using be_bytes.simps(2) [of 7 n] by simp
  moreover have "n div 256 ^ 7 = 0" using assms by simp
  ultimately show "be_bytes 8 n < ''META_'' @ s" by (simp add: less_char_def)
qed

lemma meta_keys_meta: "k \<in> {META_CURRENT_TERM, META_VOTED_FOR, META_COMMIT_INDEX, META_APPLY_INDEX} \<Longrightarrow>
    is_meta_key k \<and> (\<exists>s. k = ''META_'' @ s)"
  by (auto simp: META_defs is_meta_key_def)

subsection \<open>The scan\<close>

lemma seek_last_index_filter:
  "seek_last_index E ys =
     (case filter (\<lambda>kv. \<not> is_meta_key (fst kv)) ys of [] \<Rightarrow> 0 | kv # _ \<Rightarrow> uint64_from_net E (fst kv))"
  by (induction E ys rule: seek_last_index.induct) auto

lemma sorted_last_max: "sorted_wrt (<) (xs :: 'a :: linorder list) \<Longrightarrow> x \<in> set xs \<Longrightarrow> x \<le> last xs"
  by (induction xs) (auto split: if_splits intro: less_imp_le last_in_set)

lemma sorted_hd_min: "sorted_wrt (<) (xs :: 'a :: linorder list) \<Longrightarrow> x \<in> set xs \<Longrightarrow> hd xs \<le> x"
  by (induction xs) auto

lemma reopen_scan:
  assumes "log_inv L E lg" "log_keys L E lg" "net_order E" "unat (lg_last lg) < 0x4D4554415F"
  shows "LevelDBLog_ctor L E (Some (lg_db lg)) =
    Inr (if log_ents L E lg = [] then lg\<lparr>lg_start := 1, lg_last := 0\<rparr> else lg)"
proof -
  note I = log_invD [OF assms(1)] and D = log_wfD [OF log_invD(1) [OF assms(1)]]
  define xs where "xs = db_iter L (lg_db lg)"
  have srt: "sorted_wrt (<) (map fst xs)" and get: "map_of xs = db_Get L (lg_db lg)"
    using leveldb_okD(4,5) [OF D(1)] by (simp_all add: xs_def)
  have key: "k \<in> set (map fst xs) \<longleftrightarrow> db_Get L (lg_db lg) k \<noteq> None" for k
    using get by (metis image_set map_of_eq_None_iff)
  have in_range: "lg_start lg \<le> i \<and> i \<le> lg_last lg" if "db_Get L (lg_db lg) (uint64_to_net E i) \<noteq> None" for i
    using that I(3) by (metis not_le)
  have idx: "\<not> is_meta_key (uint64_to_net E i)" "uint64_to_net E i < ''META_'' @ s" if "i \<le> lg_last lg" for i s
    using that assms(3,4) small_not_meta [where n = "unat i"] by (simp_all add: net_order_def idx_order)
  have kinds: "is_meta_key k \<and> (\<exists>s. k = ''META_'' @ s) \<or>
      (\<exists>i. k = uint64_to_net E i \<and> lg_start lg \<le> i \<and> i \<le> lg_last lg)" if "k \<in> set (map fst xs)" for k
    using that key assms(2) in_range meta_keys_meta unfolding log_keys_def by (metis option.exhaust)
  have empty_iff: "log_ents L E lg = [] \<longleftrightarrow> lg_last lg < lg_start lg"
    using length_log_ents [of L E lg] D(4) by (auto simp: idx_order simp flip: length_0_conv)
  define ys where "ys = map fst (filter (\<lambda>kv. \<not> is_meta_key (fst kv)) xs)"
  have ys: "ys = filter (\<lambda>k. \<not> is_meta_key k) (map fst xs)" by (simp add: ys_def filter_map comp_def)
  have "seek_last_index E (rev xs) = (if ys = [] then 0 else uint64_from_net E (last ys))"
    unfolding seek_last_index_filter ys_def rev_filter [symmetric]
    by (cases "filter (\<lambda>kv. \<not> is_meta_key (fst kv)) xs" rule: rev_cases) auto
  moreover have "ys = [] \<longleftrightarrow> log_ents L E lg = []"
  proof
    assume "ys = []"
    then have "\<not> (lg_last lg \<ge> lg_start lg)"
      using key [of "uint64_to_net E (lg_last lg)"] idx(1) [of "lg_last lg"] D(6) [of "lg_last lg"]
      by (auto simp: ys filter_empty_conv simp del: set_map)
    then show "log_ents L E lg = []" by (simp add: empty_iff)
  next
    assume "log_ents L E lg = []"
    then have "is_meta_key k" if "k \<in> set (map fst xs)" for k
      using kinds [OF that] by (auto simp: empty_iff)
    then show "ys = []" unfolding ys filter_empty_conv by blast
  qed
  moreover have "uint64_from_net E (last ys) = lg_last lg" if ne: "log_ents L E lg \<noteq> []"
  proof -
    have mem: "uint64_to_net E (lg_last lg) \<in> set ys"
      using ne key idx(1) D(6) by (auto simp: ys empty_iff)
    have sys: "sorted_wrt (<) ys" unfolding ys by (rule sorted_wrt_filter [OF srt])
    have "last ys \<in> set ys" using mem by (metis last_in_set list.set_cases list.distinct(1))
    then obtain i where i: "last ys = uint64_to_net E i" "i \<le> lg_last lg"
      using kinds by (auto simp: ys)
    then have "\<not> i < lg_last lg"
      using sorted_last_max [OF sys mem] codec_okD(3) [OF D(2)] by (metis not_le)
    with i show ?thesis using codec_okD(1) [OF D(2)] by (metis order_less_le)
  qed
  moreover have "(case xs of [] \<Rightarrow> 1 | (k, v) # _ \<Rightarrow> if is_meta_key k then 1 else uint64_from_net E k) =
      (if log_ents L E lg = [] then 1 else lg_start lg)"
  proof (cases "log_ents L E lg = []")
    case True
    then show ?thesis
      using kinds empty_iff by (cases xs) (fastforce simp: idx_order)+
  next
    case False
    then have mem: "uint64_to_net E (lg_start lg) \<in> set (map fst xs)"
      using key D(6) by (auto simp: empty_iff)
    then obtain k v zs where xs: "xs = (k, v) # zs" by (cases xs) auto
    have le: "k \<le> uint64_to_net E (lg_start lg)" using sorted_hd_min [OF srt mem] by (simp add: xs)
    have "k \<noteq> ''META_'' @ s" for s
      using idx(2) [of "lg_start lg" s] le False empty_iff by (metis not_le)
    then obtain i where i: "k = uint64_to_net E i" "lg_start lg \<le> i" "i \<le> lg_last lg"
      using kinds [of k] unfolding xs by auto
    then have "i = lg_start lg" using le to_net_less_iff [OF D(2)] by (metis antisym_conv1 not_le)
    with i show ?thesis using False idx(1) [of i] codec_okD(1) [OF D(2)] by (simp add: xs)
  qed
  ultimately show ?thesis
    using empty_iff by (auto simp: LevelDBLog_ctor_def Let_def simp flip: xs_def)
qed

end
