(* ===== verification/Reference.thy ===== *)
theory Reference
  imports Level_Log Bytes
begin

text \<open>
  Concrete instances of the third-party interfaces: a database held as an association list, the
  big-endian index codec, and a self-delimiting codec for log entries. They satisfy the
  hypotheses stated for the libraries, so the properties that carry those hypotheses are about
  something.
\<close>

subsection \<open>Database\<close>

type_synonym ref_db = "(string \<times> string) list"

primrec ref_op :: "batch_op \<Rightarrow> ref_db \<Rightarrow> ref_db" where
  "ref_op (Put k v) db = (k, v) # db"
| "ref_op (Del k) db = filter (\<lambda>p. fst p \<noteq> k) db"

definition ref_leveldb :: "ref_db leveldb" where
  "ref_leveldb =
     \<lparr>db_Get = map_of, db_Write = (\<lambda>db b. (True, fold ref_op b db)),
      db_Put = (\<lambda>db k v. (True, (k, v) # db)),
      db_Delete = (\<lambda>db k. (True, filter (\<lambda>p. fst p \<noteq> k) db)),
      db_iter = (\<lambda>db. map (\<lambda>k. (k, the (map_of db k))) (sort (remdups (map fst db)))),
      db_Destroy = (\<lambda>db. [])\<rparr>"

lemma map_of_filter_key: "map_of (filter (\<lambda>p. fst p \<noteq> k) db) = (map_of db)(k := None)"
  by (induction db) (auto simp: fun_eq_iff)

lemma map_of_ref_op: "map_of (ref_op b db) = op_apply b (map_of db)"
  by (cases b) (simp_all add: map_of_filter_key)

lemma map_of_ref_batch: "map_of (fold ref_op b db) = batch_apply b (map_of db)"
  by (induction b arbitrary: db) (simp_all add: map_of_ref_op)

lemma map_of_ref_iter:
  "map_of (map (\<lambda>k. (k, the (map_of db k))) (sort (remdups (map fst db)))) = map_of db"
proof
  fix k
  show "map_of (map (\<lambda>k. (k, the (map_of db k))) (sort (remdups (map fst db)))) k = map_of db k"
  proof (cases "map_of db k")
    case None
    then have "k \<notin> fst ` set db" by (simp add: map_of_eq_None_iff)
    then show ?thesis using None by (simp add: map_of_map_restrict restrict_map_def)
  next
    case (Some v)
    then have "k \<in> fst ` set db" by (metis domI dom_map_of_conv_image_fst)
    with Some show ?thesis by (simp add: map_of_map_restrict)
  qed
qed

lemma sorted_wrt_less_sort: "distinct xs \<Longrightarrow> sorted_wrt (<) (sort (xs :: 'a :: linorder list))"
  by (simp add: strict_sorted_iff)

lemma ref_leveldb_ok: "leveldb_ok ref_leveldb" "leveldb_reliable ref_leveldb"
  by (simp_all add: leveldb_ok_def leveldb_reliable_def ref_leveldb_def map_of_ref_batch map_of_filter_key
      map_of_ref_iter comp_def sorted_wrt_less_sort)

subsection \<open>Codec\<close>

definition enc_str :: "string \<Rightarrow> string" where
  "enc_str s = concat (map (\<lambda>c. [CHR 0x01, c]) s) @ [CHR 0x00]"

fun dec_str :: "string \<Rightarrow> string \<times> string" where
  "dec_str (a # b # r) =
     (if a = CHR 0x01 then (let (s, r') = dec_str r in (b # s, r')) else ([], b # r))"
| "dec_str _ = ([], [])"

lemma dec_enc_str [simp]: "dec_str (enc_str s @ r) = (s, r)"
proof (induction s)
  case Nil
  then show ?case by (cases r) (simp_all add: enc_str_def)
next
  case (Cons c s)
  then show ?case by (simp add: enc_str_def)
qed

definition enc_opt :: "string option \<Rightarrow> string" where
  "enc_opt d = (case d of None \<Rightarrow> [CHR 0x00] | Some s \<Rightarrow> CHR 0x01 # enc_str s)"

definition dec_opt :: "string \<Rightarrow> string option \<times> string" where
  "dec_opt s = (case s of [] \<Rightarrow> (None, [])
     | c # r \<Rightarrow> if c = CHR 0x01 then (let (d, r') = dec_str r in (Some d, r')) else (None, r))"

lemma dec_enc_opt [simp]: "dec_opt (enc_opt d @ r) = (d, r)"
  by (cases d) (simp_all add: enc_opt_def dec_opt_def)

definition enc_type :: "entry_type \<Rightarrow> char" where
  "enc_type t = (case t of kNormal \<Rightarrow> CHR 0x01 | kConfigure \<Rightarrow> CHR 0x02 | kNoop \<Rightarrow> CHR 0x03)"

definition dec_type :: "char \<Rightarrow> entry_type" where
  "dec_type c = (if c = CHR 0x01 then kNormal else if c = CHR 0x02 then kConfigure else kNoop)"

definition ref_codec :: codec where
  "ref_codec =
     \<lparr>uint64_to_net = (\<lambda>x. be_bytes 8 (unat x)), uint64_from_net = (\<lambda>s. of_nat (be_val s)),
      entry_ser = (\<lambda>e. enc_type (e_type e) # be_bytes 8 (unat (e_term e)) @ enc_opt (e_data e) @ enc_opt (e_context e)),
      entry_parse = (\<lambda>s. let (d, r) = dec_opt (drop 9 s); (c, r') = dec_opt r in
        \<lparr>e_type = dec_type (hd s), e_term = of_nat (be_val (take 8 (tl s))), e_data = d, e_context = c\<rparr>)\<rparr>"

lemma dec_enc_type [simp]: "dec_type (enc_type t) = t"
  by (cases t) (simp_all add: dec_type_def enc_type_def)

lemma be_val_unat [simp]: "be_val (be_bytes 8 (unat (x :: u64))) = unat x"
  using unat_lt_u64 [of x] by (intro be_val_bytes) simp

lemma ref_codec_ok: "codec_ok ref_codec"
proof -
  have "be_bytes 8 (unat x) < be_bytes 8 (unat y)" if "x < y" for x y :: u64
    using that unat_lt_u64 [of y] by (intro be_bytes_less) (simp_all add: idx_order)
  moreover have "dec_opt (drop 8 (be_bytes 8 n @ enc_opt d @ enc_opt c)) = (d, enc_opt c)" for n d c
    by simp
  moreover have "dec_opt (enc_opt c) = (c, [])" for c
    using dec_enc_opt [of c "[]"] by simp
  ultimately show ?thesis
    by (simp add: codec_ok_def ref_codec_def Let_def)
qed

lemmas ref_ok = ref_leveldb_ok ref_codec_ok

text \<open>An empty database, and the log opened on it.\<close>

definition ref_log0 :: "ref_db leveldb_log" where
  "ref_log0 = \<lparr>lg_start = 1, lg_last = 0, lg_db = []\<rparr>"

lemma ref_log0_inv: "log_inv ref_leveldb ref_codec ref_log0" "log_ents ref_leveldb ref_codec ref_log0 = []"
  by (simp_all add: log_inv_def log_wf_def log_ents_def ref_ok ref_log0_def) (simp_all add: ref_leveldb_def)

end
