(* ===== verification/Log_Props.thy ===== *)
theory Log_Props
  imports Log_Reopen Reference
begin

text \<open>
  The properties of the persistent log: it refines a list of entries, its meta data round trips,
  and opening it again gives it back.
\<close>

subsection \<open>Instances for the witnesses\<close>

definition ref_entry :: "u64 \<Rightarrow> entry" where
  "ref_entry t = \<lparr>e_type = kNormal, e_term = t, e_data = Some ''x'', e_context = None\<rparr>"

text \<open>A log with three entries, and a database whose writes all fail.\<close>

definition ref_log3 :: "ref_db leveldb_log" where
  "ref_log3 = snd (LevelDBLog_append ref_leveldb ref_codec ref_log0 [ref_entry 1, ref_entry 1, ref_entry 2])"

definition full_leveldb :: "ref_db leveldb" where
  "full_leveldb = ref_leveldb\<lparr>db_Write := (\<lambda>db b. (False, db)), db_Put := (\<lambda>db k v. (False, db)),
     db_Delete := (\<lambda>db k. (False, db))\<rparr>"

lemma full_leveldb_wf: "log_wf full_leveldb ref_codec ref_log0"
  using ref_ok ref_log0_inv(1) unfolding log_inv_def log_wf_def
  by (auto simp: full_leveldb_def leveldb_ok_def ref_log0_def ref_leveldb_def)

lemma ref_log3_facts:
  "log_inv ref_leveldb ref_codec ref_log3"
  "log_ents ref_leveldb ref_codec ref_log3 = [ref_entry 1, ref_entry 1, ref_entry 2]"
  "lg_start ref_log3 = 1" "lg_last ref_log3 = 3" "log_keys ref_leveldb ref_codec ref_log3"
proof -
  have room: "unat (lg_last ref_log0) + length [ref_entry 1, ref_entry 1, ref_entry 2] < 2 ^ 64 - 1"
    by (simp add: ref_log0_def)
  note wf = append_wf [OF log_invD(1) [OF ref_log0_inv(1)] room, folded ref_log3_def]
  show "log_inv ref_leveldb ref_codec ref_log3"
    unfolding ref_log3_def by (rule append_inv [OF ref_log0_inv(1) room])
  show "log_ents ref_leveldb ref_codec ref_log3 = [ref_entry 1, ref_entry 1, ref_entry 2]"
    using wf(4) ref_leveldb_ok(2) ref_log0_inv(2) by simp
  show "lg_start ref_log3 = 1" using wf(2) by (simp add: ref_log0_def)
  have "unat (lg_last ref_log3) = 3"
    using wf(3) ref_leveldb_ok(2) by (simp add: ref_log0_def)
  then show "lg_last ref_log3 = 3" by (simp add: word_unat_eq_iff)
  show "log_keys ref_leveldb ref_codec ref_log3"
    unfolding ref_log3_def
    by (rule append_keys [OF ref_log0_inv(1)]) (simp add: log_keys_def ref_log0_def ref_leveldb_def)
qed

lemma ref_net_order: "net_order ref_codec"
  by (simp add: net_order_def ref_codec_def)

subsection \<open>Properties\<close>

text \<open>C8: Appending refines list append. On a log that keeps its invariant and has room for the new
  indices, \<^verbatim>\<open>append\<close> keeps the invariant, adds the new entries after the old ones, leaves the start and the meta
  data alone and returns the new bounds.\<close>

theorem log_append_refines:
  assumes "log_inv L E lg" "unat (lg_last lg) + length es < 2 ^ 64 - 1"
  shows "log_inv L E (snd (LevelDBLog_append L E lg es)) \<and>
    log_ents L E (snd (LevelDBLog_append L E lg es)) = log_ents L E lg @ es \<and>
    fst (LevelDBLog_append L E lg es) = (lg_start lg, lg_last lg + of_nat (length es)) \<and>
    lg_start (snd (LevelDBLog_append L E lg es)) = lg_start lg \<and>
    lg_last (snd (LevelDBLog_append L E lg es)) = lg_last lg + of_nat (length es) \<and>
    LevelDBLog_meta_data L E (snd (LevelDBLog_append L E lg es)) = LevelDBLog_meta_data L E lg"
  using ldb.append_spec [of L E lg es] assms log_invD(2) [OF assms(1)] append_unfold [of L E lg es]
  by (simp add: Let_def)

theorem log_append_refines_witness:
  "log_ents ref_leveldb ref_codec (snd (LevelDBLog_append ref_leveldb ref_codec ref_log3 [ref_entry 5])) =
     [ref_entry 1, ref_entry 1, ref_entry 2, ref_entry 5]"
  using log_append_refines [of ref_leveldb ref_codec ref_log3 "[ref_entry 5]"] by (simp add: ref_log3_facts)

text \<open>An append whose write fails changes nothing: the entries, the bounds and the meta data are as
  before, and the returned bounds are the old ones.\<close>

theorem log_append_failed:
  assumes "log_wf L E lg" "unat (lg_last lg) + length es < 2 ^ 64 - 1"
    and "\<not> fst (db_Write L (lg_db lg) (fst (append_batch E (lg_last lg) es)))"
  shows "fst (LevelDBLog_append L E lg es) = (lg_start lg, lg_last lg) \<and>
    log_wf L E (snd (LevelDBLog_append L E lg es)) \<and>
    log_ents L E (snd (LevelDBLog_append L E lg es)) = log_ents L E lg \<and>
    LevelDBLog_meta_data L E (snd (LevelDBLog_append L E lg es)) = LevelDBLog_meta_data L E lg"
  using append_wf [OF assms(1,2)] assms(3) append_meta [OF assms(1), of es]
  by (simp add: LevelDBLog_append_def split_beta Let_def append_batch_last)

theorem log_append_failed_witness:
  "fst (LevelDBLog_append full_leveldb ref_codec ref_log0 [ref_entry 5]) = (1, 0)"
  using log_append_failed [OF full_leveldb_wf, of "[ref_entry 5]"] by (simp add: ref_log0_def full_leveldb_def)

text \<open>C20: Cutting the end of the log at \<open>k\<close> keeps exactly the entries up to index \<open>k\<close>, whatever the status
  of the write, and the last index is \<open>k\<close> but never below one before the start.\<close>

theorem log_truncate_suffix_refines:
  assumes "log_wf L E lg"
  shows "log_wf L E (LevelDBLog_truncate_suffix L E lg k) \<and>
    log_ents L E (LevelDBLog_truncate_suffix L E lg k) = take (Suc (unat k) - unat (lg_start lg)) (log_ents L E lg) \<and>
    lg_start (LevelDBLog_truncate_suffix L E lg k) = lg_start lg \<and>
    lg_last (LevelDBLog_truncate_suffix L E lg k) = max (lg_start lg - 1) (min k (lg_last lg))"
proof -
  note wf = suffix_wf [where k = k, OF assms] and D = log_wfD [OF assms]
  have "unat (lg_last (LevelDBLog_truncate_suffix L E lg k)) + 1 = unat (lg_start lg) +
      length (take (Suc (unat k) - unat (lg_start lg)) (log_ents L E lg))"
    using log_wfD(4) [OF wf(1)] wf(2) length_log_ents [of L E "LevelDBLog_truncate_suffix L E lg k"] unfolding wf(4) by simp
  moreover have "unat (lg_start lg - 1) = unat (lg_start lg) - 1" using D(3) by (intro unat_dec) auto
  ultimately have "unat (lg_last (LevelDBLog_truncate_suffix L E lg k)) = unat (max (lg_start lg - 1) (min k (lg_last lg)))"
    using D(3,4) by (auto simp: length_log_ents idx_order max_def min_def split: if_splits)
  with wf show ?thesis by (simp add: word_unat_eq_iff)
qed

theorem log_truncate_suffix_witness:
  "log_ents ref_leveldb ref_codec (LevelDBLog_truncate_suffix ref_leveldb ref_codec ref_log3 1) = [ref_entry 1]"
  using log_truncate_suffix_refines [OF log_invD(1) [OF ref_log3_facts(1)], of 1] by (simp add: ref_log3_facts)

text \<open>C21: Compacting the log up to \<open>k\<close> drops exactly the entries below index \<open>k\<close>, whatever the status of
  the write, and the log starts at \<open>k\<close> if it started below.\<close>

theorem log_truncate_prefix_refines:
  assumes "log_wf L E lg"
  shows "log_wf L E (LevelDBLog_truncate_prefix L E lg k) \<and>
    log_ents L E (LevelDBLog_truncate_prefix L E lg k) = drop (unat k - unat (lg_start lg)) (log_ents L E lg) \<and>
    lg_start (LevelDBLog_truncate_prefix L E lg k) = max k (lg_start lg) \<and>
    lg_last (LevelDBLog_truncate_prefix L E lg k) = max (max k (lg_start lg) - 1) (lg_last lg)"
proof -
  let ?lg = "LevelDBLog_truncate_prefix L E lg k" and ?s = "max k (lg_start lg)"
  note wf = prefix_wf [where k = k, OF assms] and D = log_wfD [OF assms]
  have "unat (lg_last ?lg) + 1 = unat ?s + length (drop (unat k - unat (lg_start lg)) (log_ents L E lg))"
    using log_wfD(4) [OF wf(1)] wf(2) length_log_ents [of L E ?lg] unfolding wf(4) by simp
  moreover have pos: "unat ?s \<ge> 1" using D(3) by (auto simp: max_def idx_order)
  moreover have "unat (?s - 1) = unat ?s - 1" using pos by (intro unat_dec) auto
  ultimately have "unat (lg_last ?lg) = unat (max (?s - 1) (lg_last lg))"
    using D(3,4) by (auto simp: length_log_ents idx_order max_def split: if_splits)
  with wf show ?thesis by (simp add: word_unat_eq_iff)
qed

theorem log_truncate_prefix_witness:
  "log_ents ref_leveldb ref_codec (LevelDBLog_truncate_prefix ref_leveldb ref_codec ref_log3 3) = [ref_entry 2]"
  using log_truncate_prefix_refines [OF log_invD(1) [OF ref_log3_facts(1)], of 3] by (simp add: ref_log3_facts)

text \<open>C30: \<^verbatim>\<open>entries\<close> returns on every log below the largest 64-bit index, never reports a missing entry, and
  gives the entries from the asked index (or the start of the log) on: all of them without a limit, and one
  more than the limit with one.\<close>

theorem log_entries_returns:
  assumes "log_wf L E lg"
  shows "LevelDBLog_entries L E lg s limit = Inr (True,
    (let rest = drop (unat s - unat (lg_start lg)) (log_ents L E lg)
     in if limit = 0 then rest else take (Suc (unat limit)) rest))"
  by (rule LevelDBLog_entries_eq [OF assms])

theorem log_entries_witness:
  "LevelDBLog_entries ref_leveldb ref_codec ref_log3 2 1 = Inr (True, [ref_entry 1, ref_entry 2])"
  using log_entries_returns [OF log_invD(1) [OF ref_log3_facts(1)], of 2 1] by (simp add: ref_log3_facts)

text \<open>Stored meta data reads back: the term and the vote always, the commit and apply index when they
  are given, and otherwise what was stored before; the entries are not touched.\<close>

theorem log_meta_roundtrip:
  assumes "log_inv L E lg"
  shows "LevelDBLog_meta_data L E (snd (LevelDBLog_set_meta_data L E lg m)) =
      \<lparr>m_current_term = Some (opt_u64 (m_current_term m)), m_voted_for = Some (opt_u64 (m_voted_for m)),
       m_commit_index = (case m_commit_index m of None \<Rightarrow> m_commit_index (LevelDBLog_meta_data L E lg) | c \<Rightarrow> c),
       m_apply_index = (case m_apply_index m of None \<Rightarrow> m_apply_index (LevelDBLog_meta_data L E lg) | c \<Rightarrow> c)\<rparr> \<and>
    fst (LevelDBLog_set_meta_data L E lg m) = 0 \<and>
    LevelDBLog_meta_commit_index L E (snd (LevelDBLog_set_meta_commit_index L E lg c)) = c \<and>
    LevelDBLog_meta_apply_index L E (snd (LevelDBLog_set_meta_apply_index L E lg c)) = c \<and>
    log_inv L E (snd (LevelDBLog_set_meta_data L E lg m)) \<and>
    log_ents L E (snd (LevelDBLog_set_meta_data L E lg m)) = log_ents L E lg"
proof -
  have ok: "fst (LevelDBLog_set_meta_data L E lg m) = 0"
    using log_invD(2) [OF assms] by (simp add: LevelDBLog_set_meta_data_def split_beta Let_def)
  have "LevelDBLog_meta_commit_index L E (snd (LevelDBLog_set_meta_commit_index L E lg c)) = c"
    "LevelDBLog_meta_apply_index L E (snd (LevelDBLog_set_meta_apply_index L E lg c)) = c"
    using ldb.commit_of_meta [OF set_meta_frame(3) [OF assms, of c]]
      ldb.apply_of_meta [OF set_meta_frame(5) [OF assms, of c]] set_meta_value(2,3) [OF assms] by simp_all
  with ok set_meta_value(1) [OF assms] set_meta_frame(1,2) [OF assms] show ?thesis by simp
qed

theorem log_meta_witness:
  "m_voted_for (LevelDBLog_meta_data ref_leveldb ref_codec (snd (LevelDBLog_set_meta_data ref_leveldb ref_codec
     ref_log3 (meta_empty\<lparr>m_current_term := Some 4, m_voted_for := Some 2\<rparr>)))) = Some 2"
  using log_meta_roundtrip [OF ref_log3_facts(1), of "meta_empty\<lparr>m_current_term := Some 4, m_voted_for := Some 2\<rparr>"]
  by simp

text \<open>C22: Opening the database of a log again gives back the log: the same bounds, hence the same entries.
  This holds for logs with at least one entry whose keys are those the log writes and whose indices stay below
  the number that spells \<^verbatim>\<open>META_\<close>; a log without entries comes back with start 1 and last index 0, also when
  it had been compacted at a larger index.\<close>

theorem log_reopen:
  assumes "log_inv L E lg" "log_keys L E lg" "net_order E" "unat (lg_last lg) < 0x4D4554415F"
  shows "LevelDBLog_ctor L E (Some (lg_db lg)) =
    Inr (if log_ents L E lg = [] then lg\<lparr>lg_start := 1, lg_last := 0\<rparr> else lg)"
  by (rule reopen_scan [OF assms])

theorem log_reopen_witness:
  "LevelDBLog_ctor ref_leveldb ref_codec (Some (lg_db ref_log3)) = Inr ref_log3"
  using log_reopen [OF ref_log3_facts(1,5) ref_net_order] by (simp add: ref_log3_facts)

end
