(* ===== verification/Cluster_LevelDB.thy ===== *)
theory Cluster_LevelDB
  imports Commit_Safe Log_Props
begin

text \<open>
  The cluster on the LevelDB log: the log with its key discipline meets the log interface, opening
  the database again meets the contract of a restart, and the election properties follow.
\<close>

subsection \<open>The log of a restarting node\<close>

definition log_good :: "'db leveldb \<Rightarrow> codec \<Rightarrow> 'db leveldb_log \<Rightarrow> bool" where
  "log_good L E lg \<longleftrightarrow> log_inv L E lg \<and> log_keys L E lg \<and> net_order E"

definition LevelDBLog_reopen :: "'db leveldb \<Rightarrow> codec \<Rightarrow> 'db leveldb_log \<Rightarrow> 'db leveldb_log res" where
  "LevelDBLog_reopen L E lg = LevelDBLog_ctor L E (Some (lg_db lg))"

interpretation ldbk: log_if "LevelDBLog L E" "log_ents L E" "log_good L E" for L E
proof (unfold_locales, unfold log_good_def, goal_cases)
  case (1 l)
  then show ?case using ldb.start_pos by blast
next
  case (2 l)
  then show ?case using ldb.last_eq by blast
next
  case (3 l)
  then show ?case using ldb.last_bound by blast
next
  case (4 l i)
  then show ?case using ldb.entry_ents by blast
next
  case (5 l i)
  then show ?case using ldb.entry_None by blast
next
  case (6 l)
  then show ?case using ldb.last_term by blast
next
  case (7 l es)
  then show ?case using ldb.append_spec [of L E l es] append_keys [of L E l es] by simp
next
  case (8 l k)
  then show ?case using ldb.suffix_spec [of L E l k] truncate_keys [of L E l k] by simp
next
  case (9 l k)
  then show ?case using ldb.prefix_spec [of L E l k] truncate_keys [of L E l k] by simp
next
  case (10 l m)
  then show ?case using ldb.set_meta_spec [of L E l m] set_meta_keys(1) [of L E l m] by simp
next
  case (11 l c)
  then show ?case using ldb.set_commit_spec [of L E l c] set_meta_keys(2) [of L E l c] by simp
next
  case (12 l c)
  then show ?case using ldb.set_apply_spec [of L E l c] set_meta_keys(3) [of L E l c] by simp
next
  case (13 l)
  then show ?case using ldb.commit_of_meta by blast
next
  case (14 l)
  then show ?case using ldb.apply_of_meta by blast
next
  case (15 l s lim)
  then show ?case using ldb.entries_spec by blast
qed

interpretation ldbc: cluster_env "LevelDBLog L E" "log_ents L E" "log_good L E" "LevelDBLog_reopen L E" for L E
proof
  fix l l' assume l: "log_good L E l" "unat (last_index (LevelDBLog L E) l) < reopen_limit"
    and opened: "LevelDBLog_reopen L E l = Inr l'"
  have r: "LevelDBLog_reopen L E l = Inr (if log_ents L E l = [] then l\<lparr>lg_start := 1, lg_last := 0\<rparr> else l)"
    unfolding LevelDBLog_reopen_def by (rule reopen_scan) (use l in \<open>simp_all add: log_good_def reopen_limit_def\<close>)
  then have l': "l' = (if log_ents L E l = [] then l\<lparr>lg_start := 1, lg_last := 0\<rparr> else l)" using opened by simp
  have "log_good L E (l\<lparr>lg_start := 1, lg_last := 0\<rparr>)" if "log_ents L E l = []"
  proof -
    have I: "log_inv L E l" using l(1) by (simp add: log_good_def)
    have "lg_last l < lg_start l"
      using that length_log_ents [of L E l] log_wfD(4) [OF log_invD(1) [OF I]] by (simp add: idx_order)
    then have "db_Get L (lg_db l) (uint64_to_net E i) = None" for i
      using log_invD(3) [OF I, of i] by (metis linorder_not_le order_le_less_trans)
    then have "log_inv L E (l\<lparr>lg_start := 1, lg_last := 0\<rparr>)"
      using I by (auto simp: log_inv_def log_wf_def idx_order)
    with l(1) show ?thesis by (simp add: log_good_def log_keys_def)
  qed
  with l(1) l' show "log_good L E l' \<and> meta_data (LevelDBLog L E) l' = meta_data (LevelDBLog L E) l \<and>
      log_ents L E l' = log_ents L E l \<and>
      start_index (LevelDBLog L E) l' = (if log_ents L E l = [] then 1 else start_index (LevelDBLog L E) l)"
    by (simp add: LevelDBLog_meta_data_def log_ents_def)
qed

end
