(* ===== verification/Reference_Env.thy ===== *)
theory Reference_Env
  imports Reference KV_Store
begin

text \<open>
  Concrete instances of the file functions and of the message codecs the store uses, in the style
  of \<^theory_text>\<open>Reference\<close>.
\<close>

definition ref_files :: "(string \<times> string) list files" where
  "ref_files =
     \<lparr>fs_write = (\<lambda>fs p c. (True, (p, c) # fs)), fs_read = map_of,
      fs_rename = (\<lambda>fs p q. case map_of fs p of None \<Rightarrow> fs | Some c \<Rightarrow> (q, c) # filter (\<lambda>x. fst x \<noteq> p) fs)\<rparr>"

lemma ref_files_ok: "files_ok ref_files"
  by (auto simp: files_ok_def ref_files_def split: option.splits)

fun enc_pairs :: "(string \<times> string) list \<Rightarrow> string" where
  "enc_pairs [] = [CHR 0x00]"
| "enc_pairs ((k, v) # ps) = CHR 0x01 # enc_str k @ enc_str v @ enc_pairs ps"

fun dec_pairs :: "nat \<Rightarrow> string \<Rightarrow> (string \<times> string) list" where
  "dec_pairs 0 s = []"
| "dec_pairs (Suc n) s =
     (case s of [] \<Rightarrow> [] | c # r \<Rightarrow>
        if c = CHR 0x01 then (let (k, r1) = dec_str r; (v, r2) = dec_str r1 in (k, v) # dec_pairs n r2) else [])"

lemma dec_enc_pairs: "length ps < n \<Longrightarrow> dec_pairs n (enc_pairs ps) = ps"
proof (induction ps arbitrary: n)
  case Nil
  then show ?case by (cases n) auto
next
  case (Cons p ps)
  then show ?case by (cases n; cases p) auto
qed

lemma length_enc_pairs: "length ps < length (enc_pairs ps)"
  by (induction ps rule: enc_pairs.induct) auto

definition ref_marshal_snapshot :: "snapshot \<Rightarrow> string option" where
  "ref_marshal_snapshot sn =
     Some (be_bytes 8 (unat (s_last_included_index sn)) @ be_bytes 8 (unat (s_last_included_term sn)) @ enc_pairs (s_data sn))"

definition ref_unmarshal_snapshot :: "string \<Rightarrow> snapshot option" where
  "ref_unmarshal_snapshot s =
     (if length s < 17 then None
      else Some \<lparr>s_last_included_index = of_nat (be_val (take 8 s)), s_last_included_term = of_nat (be_val (take 8 (drop 8 s))),
                 s_data = dec_pairs (length s) (drop 16 s)\<rparr>)"

definition ref_unmarshal_update :: "string \<Rightarrow> update_request option" where
  "ref_unmarshal_update s =
     (case s of [] \<Rightarrow> None | c # r \<Rightarrow>
        let (k, r1) = dec_str r in
        if c = CHR 0x01 then Some \<lparr>uq_write = Some (k, fst (dec_str r1)), uq_remove = None\<rparr>
        else if c = CHR 0x02 then Some \<lparr>uq_write = None, uq_remove = Some k\<rparr>
        else None)"

definition ref_unmarshal_select :: "string \<Rightarrow> select_request option" where
  "ref_unmarshal_select s = (if s = [] then None else Some \<lparr>sq_read = Some s, sq_range = None, sq_search = None\<rparr>)"

definition ref_proto :: proto where
  "ref_proto =
     \<lparr>marshal_snapshot = ref_marshal_snapshot, unmarshal_snapshot = ref_unmarshal_snapshot,
      unmarshal_update_request = ref_unmarshal_update, marshal_update_response = (\<lambda>r. ur_msg r),
      unmarshal_select_request = ref_unmarshal_select, marshal_select_response = (\<lambda>r. case sr_read r of None \<Rightarrow> [] | Some v \<Rightarrow> v),
      unmarshal_vote_request = (\<lambda>_. None), marshal_vote_response = (\<lambda>_. []), unmarshal_vote_response = (\<lambda>_. None),
      unmarshal_append_request = (\<lambda>_. None), marshal_append_response = (\<lambda>_. []), unmarshal_append_response = (\<lambda>_. None),
      unmarshal_install_request = (\<lambda>_. None), marshal_install_response = (\<lambda>_. []), unmarshal_install_response = (\<lambda>_. None)\<rparr>"

lemma ref_snapshot_codec_ok: "snapshot_codec_ok ref_proto"
proof -
  have "dec_pairs (16 + length (enc_pairs ps)) (enc_pairs ps) = ps" for ps
    using length_enc_pairs [of ps] by (intro dec_enc_pairs) simp
  moreover have "enc_pairs ps \<noteq> []" for ps using length_enc_pairs [of ps] by auto
  ultimately show ?thesis
    by (auto simp: snapshot_codec_ok_def ref_proto_def ref_marshal_snapshot_def ref_unmarshal_snapshot_def Suc_le_eq)
qed

definition ref_store0 :: "(ref_db, (string \<times> string) list) leveldb_store" where
  "ref_store0 = \<lparr>snapshot_path = ''snap/'', kv_fp = [], kv_fs = []\<rparr>"

lemma ref_store_inv: "store_inv ref_leveldb s"
  by (simp add: store_inv_def ref_ok)

end
