(* ===== verification/Ref_Cluster.thy ===== *)
theory Ref_Cluster
  imports Cluster_LevelDB Reference_Env
begin

text \<open>
  A run of a cluster of three nodes on the reference libraries in which the first node is
  elected: it starts an election, the second node grants its vote, and the first node counts it.
\<close>

abbreviation "refV \<equiv> LevelDBLog ref_leveldb ref_codec"
abbreviation "refS \<equiv> LevelDBStore ref_leveldb ref_files ref_proto"

definition ref_option :: "u64 \<Rightarrow> raft_option" where
  "ref_option i =
     \<lparr>o_bootstrap = False, o_id = i, o_log_path = ''log'', o_members_str = ''peers'',
      o_members = map (\<lambda>j. (j, ''host'', 10801)) (filter (\<lambda>j. j \<noteq> i) [1, 2, 3]),
      o_heartbeat_ms = 200, o_election_timeout_ms = 1000, o_withhold_votes_ms = 1000,
      o_raft_distr_timeout_ms = 5000, o_log_trans_count = 0\<rparr>"

definition ref_node :: "u64 \<Rightarrow> (ref_db leveldb_log, (ref_db, (string \<times> string) list) leveldb_store) raft" where
  "ref_node i =
     \<lparr>context_of = Context i, peer_set = map (\<lambda>(j, a, p). (j, Peer j a p)) (o_members (ref_option i)),
      opt = ref_option i, rlog = update_meta refV (Context i) ref_log0,
      heartbeat_timer = SimpleTimer 0, election_timer = schedule 0 (SimpleTimer 0),
      withhold_votes_timer = SimpleTimer 0, machine = StateMachine, kv_store = ref_store0, outbox = []\<rparr>"

definition ref_candidate :: "(ref_db leveldb_log, (ref_db, (string \<times> string) list) leveldb_store) raft" where
  "ref_candidate = (case main_thread_act refV refS 2000 Campaign (ref_node 1) of Inr st \<Rightarrow> st | Inl e \<Rightarrow> ref_node 1)"

definition ref_vote_request :: vote_request where
  "ref_vote_request = \<lparr>vq_term = 1, vq_candidate_id = 1, vq_last_log_index = 0, vq_last_log_term = 0, vq_epoch = 0\<rparr>"

definition ref_vote :: "vote_response \<times> (ref_db leveldb_log, (ref_db, (string \<times> string) list) leveldb_store) raft" where
  "ref_vote = on_request_vote_request refV 2100 ref_vote_request (ref_node 2)"

definition ref_leader :: "(ref_db leveldb_log, (ref_db, (string \<times> string) list) leveldb_store) raft" where
  "ref_leader = (case on_request_vote_response_async refV 2200 (fst ref_vote) ref_candidate of
     Inr (x, st) \<Rightarrow> st | Inl e \<Rightarrow> ref_candidate)"

subsection \<open>The states of the run\<close>

lemma ref_log0_good: "log_good ref_leveldb ref_codec ref_log0"
  by (simp add: log_good_def ref_log0_inv ref_net_order log_keys_def) (simp add: ref_log0_def ref_leveldb_def)

lemma ref_log0_bounds: "start_index refV ref_log0 = 1" "last_index refV ref_log0 = 0"
  by (simp_all add: ref_log0_def)

text \<open>Logs that hold meta data only.\<close>

lemma ref_meta_log:
  assumes "log_good ref_leveldb ref_codec l" "log_ents ref_leveldb ref_codec l = []" "last_index refV l = 0" "start_index refV l = 1"
  shows "log_good ref_leveldb ref_codec (update_meta refV c l)" "log_ents ref_leveldb ref_codec (update_meta refV c l) = []"
    "last_index refV (update_meta refV c l) = 0" "start_index refV (update_meta refV c l) = 1"
    "last_term_and_index refV (update_meta refV c l) = (0, 0)"
  using ldbk.update_metaD [OF assms(1)] assms(2-4)
    ldbk.last_term [OF ldbk.update_metaD(1) [OF assms(1)]]
  by (simp_all del: LevelDBLog_sel)

lemmas ref_log_simps = ref_meta_log [OF ref_log0_good ref_log0_inv(2) ref_log0_bounds(2,1)]

lemmas ref_log_simps2 = ref_meta_log [OF ref_log_simps(1-4)]

lemma ref_load: "load_context refV i ref_log0 = Context i"
  by (simp add: load_context_def Context_def LevelDBLog_meta_data_def ref_log0_def ref_leveldb_def)

lemma ref_meta_indices:
  "meta_commit_index refV (update_meta refV c ref_log0) = 0" "meta_apply_index refV (update_meta refV c ref_log0) = 0"
proof -
  have "meta_data refV ref_log0 = meta_empty"
    by (simp add: LevelDBLog_meta_data_def meta_empty_def ref_log0_def ref_leveldb_def)
  then show "meta_commit_index refV (update_meta refV c ref_log0) = 0" "meta_apply_index refV (update_meta refV c ref_log0) = 0"
    using ldbk.commit_of_meta [OF ref_log_simps(1)] ldbk.apply_of_meta [OF ref_log_simps(1)] ldbk.update_metaD(5) [OF ref_log0_good]
    by (simp_all add: meta_empty_def del: LevelDBLog_sel)
qed

lemma ref_init:
  assumes "i \<in> {1, 2, 3}"
  shows "RaftConsensus_init refV 0 0 (ref_option i) ref_log0 ref_store0 = Inr (Running (ref_node i))"
proof -
  have o: "o_withhold_votes_ms_update (\<lambda>_. 1000) (ref_option i) = ref_option i" "o_election_timeout_ms (ref_option i) = 1000"
    "\<not> o_bootstrap (ref_option i)" "o_id (ref_option i) = i"
    by (simp_all add: ref_option_def)
  have "validate (ref_option i)" using assms by (auto simp: ref_option_def validate_def)
  with o show ?thesis
    by (simp add: RaftConsensus_init_def Let_def ref_load StateMachine_init_def ref_meta_indices become_follower_def
        ref_node_def del: LevelDBLog_sel) (simp add: StateMachine_def Context_def ref_option_def)
qed

lemma ref_check: "main_thread_check 2000 (ref_node 1) = (Some Campaign, ref_node 1)"
  by (simp add: main_thread_check_def ref_node_def Context_def timeout_def schedule_def SimpleTimer_def ref_option_def)

lemma ref_tick: "main_thread_act refV refS 2000 Campaign (ref_node 1) = Inr ref_candidate"
  by (simp add: ref_candidate_def main_thread_act_def Let_def del: LevelDBLog_sel)

lemma ref_candidate_fields:
  "context_of ref_candidate = (Context 1)\<lparr>c_term := 1, voted_for := 1, quorum_granted := {1}, role := kCandidate\<rparr>"
  "outbox ref_candidate = [(2, RequestVote ref_vote_request), (3, RequestVote ref_vote_request)]"
  "rlog ref_candidate = update_meta refV ((Context 1)\<lparr>c_term := 1, voted_for := 1, quorum_granted := {1}\<rparr>)
     (update_meta refV (Context 1) ref_log0)"
  "peer_set ref_candidate = peer_set (ref_node 1)" "opt ref_candidate = ref_option 1"
  by (simp_all add: ref_candidate_def main_thread_act_def ref_node_def Context_def
      ref_option_def Let_def split_beta send_request_vote_def send_raft_RPC_def set_ctx_log_def become_candidate_def
      Peer_def ref_log_simps2 ref_vote_request_def del: LevelDBLog_sel)

lemma ref_vote_fields:
  "fst ref_vote = \<lparr>vr_term = 1, vr_vote_granted = True, vr_peer_id = 2, vr_log_ok = True, vr_epoch = 0\<rparr>"
  by (simp add: ref_vote_def on_request_vote_request_def ref_node_def ref_vote_request_def log_is_ok_def ref_log_simps
      within_def SimpleTimer_def set_ctx_log_def become_follower_def Context_def Let_def del: LevelDBLog_sel)

lemma ref_count: "on_request_vote_response_async refV 2200 (fst ref_vote) ref_candidate = Inr (0, ref_leader)"
  "role (context_of ref_leader) = kLeader" "c_term (context_of ref_leader) = 1"
  by (simp_all add: ref_leader_def on_request_vote_response_async_def ref_vote_fields ref_candidate_fields
      ref_node_def ref_option_def Context_def Let_def quorum_count_def Peer_def del: LevelDBLog_sel)

subsection \<open>The run\<close>

definition ref_cluster0 :: "(ref_db leveldb_log, (ref_db, (string \<times> string) list) leveldb_store) cluster" where
  "ref_cluster0 = \<lparr>nodes = ref_node, requests = {}, responses = {}, pending = []\<rparr>"

definition ref_cluster1 :: "(ref_db leveldb_log, (ref_db, (string \<times> string) list) leveldb_store) cluster" where
  "ref_cluster1 = add_pending 1 (Some (PTick Campaign)) (set_node 1 (ref_node 1) ref_cluster0)"

definition ref_cluster2 :: "(ref_db leveldb_log, (ref_db, (string \<times> string) list) leveldb_store) cluster" where
  "ref_cluster2 = add_response 1 (RequestVoteRsp (fst ref_vote)) (set_node 2 (snd ref_vote)
     (del_pending 1 (PTick Campaign) (set_node 1 ref_candidate ref_cluster1)))"

definition ref_cluster3 :: "(ref_db leveldb_log, (ref_db, (string \<times> string) list) leveldb_store) cluster" where
  "ref_cluster3 = set_node 1 ref_leader ref_cluster2"

abbreviation "ref_step \<equiv> cluster_step refV refS ref_proto (LevelDBLog_reopen ref_leveldb ref_codec) {1, 2, 3}"

abbreviation "ref_reach \<equiv>
  cluster_reach refV (log_good ref_leveldb ref_codec) refS ref_proto (LevelDBLog_reopen ref_leveldb ref_codec) {1, 2, 3}"

lemma ref_start: "cluster_start refV (log_good ref_leveldb ref_codec) {1, 2, 3} ref_cluster0"
proof -
  have "node_start refV (log_good ref_leveldb ref_codec) {1, 2, 3} i (ref_node i)" if "i \<in> {1, 2, 3}" for i
    unfolding node_start_def
    by (rule exI [of _ 0], rule exI [of _ 0], rule exI [of _ "ref_option i"], rule exI [of _ ref_log0],
        rule exI [of _ ref_store0]) (use that ref_init [OF that] ref_log0_good in \<open>auto simp: ref_option_def\<close>)
  then show ?thesis by (simp add: cluster_start_def ref_cluster0_def)
qed

lemma ref_election_steps:
  "ref_step 1 ECheck ref_cluster0 ref_cluster1"
  "ref_step 1 (ETick Campaign) ref_cluster1 (del_pending 1 (PTick Campaign) (set_node 1 ref_candidate ref_cluster1))"
  "ref_step 2 EVoteRequest (del_pending 1 (PTick Campaign) (set_node 1 ref_candidate ref_cluster1)) ref_cluster2"
  "ref_step 1 EVoteResponse ref_cluster2 ref_cluster3"
proof -
  show "ref_step 1 ECheck ref_cluster0 ref_cluster1"
    using step_check [where i = 1 and now = 2000 and cl = ref_cluster0 and a = "Some Campaign" and st = "ref_node 1"]
      ref_check by (simp add: ref_cluster0_def ref_cluster1_def)
  show "ref_step 1 (ETick Campaign) ref_cluster1 (del_pending 1 (PTick Campaign) (set_node 1 ref_candidate ref_cluster1))"
    by (rule step_tick [where now = 2000])
      (use ref_tick in \<open>simp_all add: ref_cluster1_def ref_cluster0_def ref_node_def Context_def add_pending_def\<close>)
  show "ref_step 2 EVoteRequest (del_pending 1 (PTick Campaign) (set_node 1 ref_candidate ref_cluster1)) ref_cluster2"
    unfolding ref_cluster2_def
    by (rule step_vote_request [where now = 2100 and q = ref_vote_request])
      (simp_all add: ref_candidate_fields ref_cluster1_def ref_cluster0_def ref_vote_def)
  show "ref_step 1 EVoteResponse ref_cluster2 ref_cluster3"
    unfolding ref_cluster3_def
    by (rule step_vote_response [where now = 2200 and r = "fst ref_vote"])
      (use ref_count(1) in \<open>simp_all add: ref_cluster2_def add_response_def log_room_def ref_candidate_fields ref_log_simps2 del: LevelDBLog_sel\<close>)
qed

lemma ref_reach3: "ref_reach ref_cluster3"
  using reach_start [OF ref_start] ref_election_steps by (meson reach_step)

lemma ref_cluster3_leader:
  "role (context_of (nodes ref_cluster3 1)) = kLeader" "c_term (context_of (nodes ref_cluster3 1)) = 1"
  by (simp_all add: ref_cluster3_def ref_count)

lemma ref_granted: "granted ref_cluster3 1 2 1"
proof -
  have "(1, RequestVoteRsp (fst ref_vote)) \<in> responses ref_cluster3"
    by (simp add: ref_cluster3_def ref_cluster2_def add_response_def)
  then show ?thesis unfolding granted_def by (intro exI [of _ "fst ref_vote"]) (simp add: ref_vote_fields)
qed

end
