(* ===== verification/Ref_Run.thy ===== *)
theory Ref_Run
  imports Ref_Cluster
begin

text \<open>
  The run of the three nodes continued: the new leader finds that the second node has no entry,
  sends its log from the start, and commits its first entry when the second node has stored it.
\<close>

type_synonym ref_raft = "(ref_db leveldb_log, (ref_db, (string \<times> string) list) leveldb_store) raft"

lemma ref_candidate_timer: "heartbeat_timer ref_candidate = SimpleTimer 0"
  by (simp add: ref_candidate_def main_thread_act_def ref_node_def Context_def
      ref_option_def Let_def split_beta send_request_vote_def send_raft_RPC_def set_ctx_log_def become_candidate_def
      Peer_def del: LevelDBLog_sel)

lemma ref_leader_fields:
  "context_of ref_leader = (Context 1)\<lparr>c_term := 1, voted_for := 1, quorum_granted := {1, 2}, role := kLeader, leader_id := 1\<rparr>"
  "log_good ref_leveldb ref_codec (rlog ref_leader)" "log_ents ref_leveldb ref_codec (rlog ref_leader) = [noop_entry 1]"
  "start_index refV (rlog ref_leader) = 1" "last_index refV (rlog ref_leader) = 1"
  "peer_set ref_leader = [(2, (Peer 2 ''host'' 10801)\<lparr>next_index := 2\<rparr>), (3, (Peer 3 ''host'' 10801)\<lparr>next_index := 2\<rparr>)]"
  "opt ref_leader = ref_option 1" "outbox ref_leader = outbox ref_candidate"
  "heartbeat_timer ref_leader = \<lparr>enable = True, immediate = True, start_tp = 2200\<rparr>"
proof -
  have l: "rlog ref_leader = snd (append refV (rlog ref_candidate) [noop_entry 1])"
    by (simp add: ref_leader_def on_request_vote_response_async_def ref_vote_fields ref_candidate_fields
      ref_node_def ref_option_def Context_def Let_def quorum_count_def Peer_def del: LevelDBLog_sel)
  have G: "log_good ref_leveldb ref_codec (rlog ref_candidate)" "log_ents ref_leveldb ref_codec (rlog ref_candidate) = []"
    "last_index refV (rlog ref_candidate) = 0" "start_index refV (rlog ref_candidate) = 1"
    using ref_log_simps2 by (simp_all add: ref_candidate_fields del: LevelDBLog_sel)
  have A: "unat (last_index refV (rlog ref_candidate)) + length [noop_entry 1] < 2 ^ 64 - 1" using G(3) by simp
  note A' = ldbk.appendD [OF G(1) A] ldbk.append_last [OF G(1) A]
  show "log_good ref_leveldb ref_codec (rlog ref_leader)" "log_ents ref_leveldb ref_codec (rlog ref_leader) = [noop_entry 1]"
    "start_index refV (rlog ref_leader) = 1" and last: "last_index refV (rlog ref_leader) = 1"
    using A' G by (simp_all add: l word_unat_eq_iff del: LevelDBLog_sel)
  have "last_index refV (snd (append refV (rlog ref_candidate) [noop_entry 1])) = 1" using last l by simp
  then show "peer_set ref_leader = [(2, (Peer 2 ''host'' 10801)\<lparr>next_index := 2\<rparr>), (3, (Peer 3 ''host'' 10801)\<lparr>next_index := 2\<rparr>)]"
    by (simp add: ref_leader_def on_request_vote_response_async_def ref_vote_fields ref_candidate_fields
      ref_node_def ref_option_def Context_def Let_def quorum_count_def Peer_def peer_update_def del: LevelDBLog_sel)
  show "context_of ref_leader = (Context 1)\<lparr>c_term := 1, voted_for := 1, quorum_granted := {1, 2}, role := kLeader, leader_id := 1\<rparr>"
    "opt ref_leader = ref_option 1" "outbox ref_leader = outbox ref_candidate"
    "heartbeat_timer ref_leader = \<lparr>enable = True, immediate = True, start_tp = 2200\<rparr>"
    by (simp_all add: ref_leader_def on_request_vote_response_async_def ref_vote_fields ref_candidate_fields
      ref_node_def ref_option_def Context_def Let_def quorum_count_def Peer_def become_leader_def insert_commute
      set_urgent_def schedule_def SimpleTimer_def ref_candidate_timer del: LevelDBLog_sel)
qed

definition ref_beat :: append_request where
  "ref_beat = \<lparr>aq_term = 1, aq_leader_id = 1, aq_prev_log_index = 1, aq_prev_log_term = 1, aq_entries = [],
     aq_leader_commit = 0, aq_epoch = 0\<rparr>"

definition ref_first :: append_request where
  "ref_first = \<lparr>aq_term = 1, aq_leader_id = 1, aq_prev_log_index = 0, aq_prev_log_term = 0, aq_entries = [noop_entry 1],
     aq_leader_commit = 0, aq_epoch = 0\<rparr>"

definition ref_beating :: ref_raft where
  "ref_beating = ref_leader\<lparr>heartbeat_timer := \<lparr>enable = True, immediate = False, start_tp = 2200\<rparr>\<rparr>"

definition ref_beaten :: ref_raft where
  "ref_beaten = ref_leader\<lparr>heartbeat_timer := \<lparr>enable = True, immediate = False, start_tp = 2300\<rparr>,
     outbox := outbox ref_leader @ [(2, AppendEntries ref_beat), (3, AppendEntries ref_beat)]\<rparr>"

lemma ref_leader_entry: "entry refV (rlog ref_leader) 1 = Some (noop_entry 1)"
  using ldbk.entry_ents [OF ref_leader_fields(2), of 1] ref_leader_fields(3-5) by (simp del: LevelDBLog_sel)

lemma ref_leader_entries:
  "entries refV (rlog ref_leader) 2 0 = Inr (True, [])" "entries refV (rlog ref_leader) 1 0 = Inr (True, [noop_entry 1])"
  using ldbk.entries_spec [OF ref_leader_fields(2)] ref_leader_fields(3,4) by (simp_all del: LevelDBLog_sel)

lemma ref_leader_check: "main_thread_check 2300 ref_leader = (Some Heartbeat, ref_beating)"
  by (simp add: main_thread_check_def ref_leader_fields timeout_def ref_beating_def)

lemma ref_leader_send:
  assumes "rlog st = rlog ref_leader" "context_of st = context_of ref_leader" "opt st = ref_option 1"
  shows "next_index p = 2 \<Longrightarrow> send_append_entries_to refV refS p st = Inr (0, send_raft_RPC (p_id p) (AppendEntries ref_beat) st)"
    "next_index p = 1 \<Longrightarrow> send_append_entries_to refV refS p st = Inr (0, send_raft_RPC (p_id p) (AppendEntries ref_first) st)"
  by (simp_all add: assms send_append_entries_to_def prev_log_term_def ref_leader_entry ref_leader_entries ref_leader_fields(1,4)
      Context_def ref_beat_def ref_first_def ref_option_def noop_entry_def del: LevelDBLog_sel)

lemma ref_leader_beat: "main_thread_act refV refS 2300 Heartbeat ref_beating = Inr ref_beaten"
  by (simp add: main_thread_act_def send_append_entries_def ref_beating_def ref_leader_fields(6,7) ref_leader_send
      send_raft_RPC_def schedule_def ref_beaten_def Peer_def del: LevelDBLog_sel)

lemma ref_voter_fields:
  "context_of (snd ref_vote) = (Context 2)\<lparr>c_term := 1, voted_for := 1\<rparr>"
  "log_good ref_leveldb ref_codec (rlog (snd ref_vote))" "log_ents ref_leveldb ref_codec (rlog (snd ref_vote)) = []"
  "last_index refV (rlog (snd ref_vote)) = 0" "start_index refV (rlog (snd ref_vote)) = 1"
  "opt (snd ref_vote) = ref_option 2" "outbox (snd ref_vote) = []" "peer_set (snd ref_vote) = peer_set (ref_node 2)"
  "node_ok refV (log_good ref_leveldb ref_codec) (snd ref_vote)"
proof -
  have ok: "node_ok refV (log_good ref_leveldb ref_codec) (ref_node 2)"
    by (rule ldbk.init_running(1) [OF ref_log0_good ref_init]) simp
  have v: "on_request_vote_request refV 2100 ref_vote_request (ref_node 2) = (fst ref_vote, snd ref_vote)" by (simp add: ref_vote_def)
  note R = ldbk.request_vote_ok [OF ok v] ldbk.vote_request_steady [OF ok v, where P = "\<lambda>_ _. False"]
  show "node_ok refV (log_good ref_leveldb ref_codec) (snd ref_vote)" by (rule R(1))
  show "log_good ref_leveldb ref_codec (rlog (snd ref_vote))" using R(1) by (simp add: node_ok_def)
  show "log_ents ref_leveldb ref_codec (rlog (snd ref_vote)) = []" "last_index refV (rlog (snd ref_vote)) = 0"
    "start_index refV (rlog (snd ref_vote)) = 1" "outbox (snd ref_vote) = []"
    using R(4,7,8) R(9) ref_log_simps by (simp_all add: steady_def ref_node_def del: LevelDBLog_sel)
  show "context_of (snd ref_vote) = (Context 2)\<lparr>c_term := 1, voted_for := 1\<rparr>" "opt (snd ref_vote) = ref_option 2"
    "peer_set (snd ref_vote) = peer_set (ref_node 2)"
    by (simp_all add: ref_vote_def on_request_vote_request_def ref_node_def ref_vote_request_def log_is_ok_def ref_log_simps
      within_def SimpleTimer_def set_ctx_log_def become_follower_def Context_def Let_def del: LevelDBLog_sel)
qed

definition ref_fail :: append_response where
  "ref_fail = \<lparr>ar_term = 1, ar_success = False, ar_peer_id = 2, ar_last_log_index = 0, ar_epoch = 0\<rparr>"

definition ref_ack :: append_response where
  "ref_ack = \<lparr>ar_term = 1, ar_success = True, ar_peer_id = 2, ar_last_log_index = 1, ar_epoch = 0\<rparr>"

definition ref_told :: ref_raft where
  "ref_told = hear_leader refV 2400 1 1 (snd ref_vote)"

definition ref_resent :: ref_raft where
  "ref_resent = ref_beaten\<lparr>peer_set := [(2, (Peer 2 ''host'' 10801)\<lparr>next_index := 1\<rparr>), (3, (Peer 3 ''host'' 10801)\<lparr>next_index := 2\<rparr>)],
     outbox := outbox ref_beaten @ [(2, AppendEntries ref_first)]\<rparr>"

definition ref_stored :: ref_raft where
  "ref_stored = (case on_append_entries_request refV 2500 ref_first ref_told of Inr (r, st) \<Rightarrow> st | Inl e \<Rightarrow> ref_told)"

definition ref_committed :: ref_raft where
  "ref_committed = ref_resent\<lparr>peer_set := [(2, (Peer 2 ''host'' 10801)\<lparr>next_index := 2, match_index := 1\<rparr>), (3, (Peer 3 ''host'' 10801)\<lparr>next_index := 2\<rparr>)],
     context_of := (context_of ref_leader)\<lparr>commit_index := 1\<rparr>, rlog := snd (set_meta_commit_index refV (rlog ref_leader) 1)\<rparr>"

lemma ref_told_fields:
  "node_ok refV (log_good ref_leveldb ref_codec) ref_told" "log_ents ref_leveldb ref_codec (rlog ref_told) = []"
  "c_term (context_of ref_told) = 1" "last_index refV (rlog ref_told) = 0" "start_index refV (rlog ref_told) = 1"
  "o_id (opt ref_told) = 2" "outbox ref_told = []" "commit_index (context_of ref_told) = 0"
proof -
  have "c_term (context_of (snd ref_vote)) \<le> 1" by (simp add: ref_voter_fields)
  note H = ldbk.hear_leader_ok [OF ref_voter_fields(9) this, of 2400 1, folded ref_told_def]
  show "node_ok refV (log_good ref_leveldb ref_codec) ref_told" "log_ents ref_leveldb ref_codec (rlog ref_told) = []"
    "c_term (context_of ref_told) = 1" "last_index refV (rlog ref_told) = 0" "start_index refV (rlog ref_told) = 1"
    "o_id (opt ref_told) = 2" "outbox ref_told = []" "commit_index (context_of ref_told) = 0"
    using H(1-9) H(13) ref_voter_fields by (simp_all add: same_cfg_def ref_option_def Context_def del: LevelDBLog_sel)
qed

lemma ref_refuses: "on_append_entries_request refV 2400 ref_beat (snd ref_vote) = Inr (ref_fail, ref_told)"
  using ref_told_fields(3,4)
  by (simp add: on_append_entries_request_def ref_beat_def ref_voter_fields Let_def ref_fail_def ref_option_def Context_def
      ref_told_def del: LevelDBLog_sel)

lemma ref_resends: "on_append_entries_response_async refV refS ref_fail ref_beaten = Inr (0, ref_resent)"
  by (simp add: on_append_entries_response_async_def ref_fail_def ref_beaten_def ref_leader_fields(1,6,7) Context_def Let_def
      peer_update_def ref_leader_send Peer_def send_raft_RPC_def ref_resent_def del: LevelDBLog_sel)

lemma ref_stores:
  "on_append_entries_request refV 2500 ref_first ref_told = Inr (ref_ack, ref_stored)"
  "node_ok refV (log_good ref_leveldb ref_codec) ref_stored"
  "log_ents ref_leveldb ref_codec (rlog ref_stored) = [noop_entry 1]"
proof -
  have room: "log_room refV (length (aq_entries ref_first)) ref_told" by (simp add: log_room_def ref_told_fields ref_first_def del: LevelDBLog_sel)
  obtain r st where R: "on_append_entries_request refV 2500 ref_first ref_told = Inr (r, st)" "node_ok refV (log_good ref_leveldb ref_codec) st"
      "ar_success r" "log_ents ref_leveldb ref_codec (rlog st) = [noop_entry 1]" "start_index refV (rlog st) = 1"
      "ar_last_log_index r = last_index refV (rlog st)" "ar_term r = 1"
    using ldbk.append_request_result [OF ref_told_fields(1) room, of 2500] ref_told_fields
    by (auto simp: append_accepts_def append_merged_def ref_first_def simp del: LevelDBLog_sel)
  have st: "st = ref_stored" using R(1) by (simp add: ref_stored_def)
  have "unat (last_index refV (rlog st)) = 1"
    using ldbk.last_eq [of ref_leveldb ref_codec "rlog st"] R(2,4,5) by (simp add: node_ok_def del: LevelDBLog_sel)
  then have "ar_last_log_index r = 1" using R(6) by (simp add: word_unat_eq_iff del: LevelDBLog_sel)
  moreover have "ar_peer_id r = 2" "ar_epoch r = 0"
    using R(1) ref_told_fields(6)
    by (auto simp: on_append_entries_request_def Let_def res_bind_Inr_iff ref_first_def simp del: LevelDBLog_sel split: if_splits)
  ultimately have "r = ref_ack" using R(3,7) by (simp add: ref_ack_def)
  with R st show "on_append_entries_request refV 2500 ref_first ref_told = Inr (ref_ack, ref_stored)"
    "node_ok refV (log_good ref_leveldb ref_codec) ref_stored" "log_ents ref_leveldb ref_codec (rlog ref_stored) = [noop_entry 1]"
    by simp_all
qed

lemma ref_commits: "on_append_entries_response_async refV refS ref_ack ref_resent = Inr (0, ref_committed)"
  by (simp add: on_append_entries_response_async_def ref_ack_def ref_resent_def ref_beaten_def ref_leader_fields(1,5,7) Context_def Let_def
      peer_update_def Peer_def try_advance_commit_def advance_commit_index_def vec_at_def ref_leader_entry noop_entry_def
      ref_committed_def del: LevelDBLog_sel)

subsection \<open>The run\<close>

abbreviation "ref_fresh \<equiv> fresh_reach refV (log_ents ref_leveldb ref_codec) (log_good ref_leveldb ref_codec) refS ref_proto
  (LevelDBLog_reopen ref_leveldb ref_codec) {1, 2, 3}"

definition ref_cluster4 :: "(ref_db leveldb_log, (ref_db, (string \<times> string) list) leveldb_store) cluster" where
  "ref_cluster4 = del_pending 1 (PTick Heartbeat) (set_node 1 ref_beaten
     (add_pending 1 (Some (PTick Heartbeat)) (set_node 1 ref_beating ref_cluster3)))"

definition ref_cluster5 :: "(ref_db leveldb_log, (ref_db, (string \<times> string) list) leveldb_store) cluster" where
  "ref_cluster5 = set_node 1 ref_resent (add_response 1 (AppendEntriesRsp ref_fail) (set_node 2 ref_told ref_cluster4))"

definition ref_cluster6 :: "(ref_db leveldb_log, (ref_db, (string \<times> string) list) leveldb_store) cluster" where
  "ref_cluster6 = set_node 1 ref_committed (add_response 1 (AppendEntriesRsp ref_ack) (set_node 2 ref_stored ref_cluster5))"

lemma ref_fresh_start: "fresh_start refV (log_ents ref_leveldb ref_codec) {1, 2, 3} ref_cluster0"
  using ref_log_simps ldbk.commit_of_meta [OF ref_log_simps(1)] ref_meta_indices(1)
  by (simp add: fresh_start_def ref_cluster0_def ref_node_def Context_def del: LevelDBLog_sel)

lemma ref_fresh3: "ref_fresh ref_cluster3"
proof -
  note S = ref_election_steps
  have "ref_fresh ref_cluster1" by (rule fresh_step [OF fresh_init [OF ref_start ref_fresh_start] S(1)]) simp
  from fresh_step [OF this S(2)] have "ref_fresh (del_pending 1 (PTick Campaign) (set_node 1 ref_candidate ref_cluster1))" by simp
  from fresh_step [OF this S(3)] have "ref_fresh ref_cluster2" by simp
  from fresh_step [OF this S(4)] show ?thesis by simp
qed

lemma ref_fresh4: "ref_fresh ref_cluster4"
proof -
  let ?c = "add_pending 1 (Some (PTick Heartbeat)) (set_node 1 ref_beating ref_cluster3)"
  have "ref_step 1 ECheck ref_cluster3 ?c"
    using step_check [where i = 1 and now = 2300 and cl = ref_cluster3 and a = "Some Heartbeat" and st = ref_beating]
      ref_leader_check by (simp add: ref_cluster3_def)
  from fresh_step [OF ref_fresh3 this] have "ref_fresh ?c" by simp
  moreover have "ref_step 1 (ETick Heartbeat) ?c ref_cluster4"
    unfolding ref_cluster4_def
    by (rule step_tick [where now = 2300])
      (use ref_leader_beat in \<open>simp_all add: add_pending_def ref_beating_def ref_leader_fields Context_def\<close>)
  ultimately show ?thesis by (rule fresh_step) (simp add: ref_beating_def ref_leader_fields)
qed

lemma ref_nodes4:
  "nodes ref_cluster4 1 = ref_beaten" "nodes ref_cluster4 2 = snd ref_vote" "(1, 2, AppendEntries ref_beat) \<in> requests ref_cluster4"
  by (simp_all add: ref_cluster4_def ref_cluster3_def ref_cluster2_def ref_beaten_def)

lemma ref_fresh5: "ref_fresh ref_cluster5"
proof -
  let ?c = "add_response 1 (AppendEntriesRsp ref_fail) (set_node 2 ref_told ref_cluster4)"
  have "ref_step 2 EAppendRequest ref_cluster4 ?c"
    by (rule step_append_request [where now = 2400 and q = ref_beat])
      (use ref_refuses ref_nodes4 in \<open>simp_all add: log_room_def ref_voter_fields ref_beat_def del: LevelDBLog_sel\<close>)
  from fresh_step [OF ref_fresh4 this] have "ref_fresh ?c" by simp
  moreover have "ref_step 1 (EAppendResponse ref_fail) ?c ref_cluster5"
    unfolding ref_cluster5_def
    by (rule step_append_response) (use ref_resends ref_nodes4 in \<open>simp_all add: add_response_def\<close>)
  ultimately show ?thesis by (rule fresh_step) (simp add: ref_nodes4 ref_beaten_def ref_leader_fields)
qed

lemma ref_nodes5:
  "nodes ref_cluster5 1 = ref_resent" "nodes ref_cluster5 2 = ref_told" "(1, 2, AppendEntries ref_first) \<in> requests ref_cluster5"
  by (simp_all add: ref_cluster5_def ref_resent_def)

lemma ref_fresh6: "ref_fresh ref_cluster6"
proof -
  let ?c = "add_response 1 (AppendEntriesRsp ref_ack) (set_node 2 ref_stored ref_cluster5)"
  have "ref_step 2 EAppendRequest ref_cluster5 ?c"
    by (rule step_append_request [where now = 2500 and q = ref_first])
      (use ref_stores ref_nodes5 in \<open>simp_all add: log_room_def ref_told_fields ref_first_def del: LevelDBLog_sel\<close>)
  from fresh_step [OF ref_fresh5 this] have "ref_fresh ?c" by simp
  moreover have "ref_step 1 (EAppendResponse ref_ack) ?c ref_cluster6"
    unfolding ref_cluster6_def
    by (rule step_append_response) (use ref_commits ref_nodes5 in \<open>simp_all add: add_response_def\<close>)
  ultimately show ?thesis by (rule fresh_step) (simp add: ref_nodes5 ref_resent_def ref_beaten_def ref_leader_fields)
qed

lemma ref_nodes6: "nodes ref_cluster6 1 = ref_committed" "nodes ref_cluster6 2 = ref_stored"
  by (simp_all add: ref_cluster6_def)

lemma ref_committed_log: "log_ents ref_leveldb ref_codec (rlog ref_committed) = [noop_entry 1]"
  using ldbk.set_commitD(2) [OF ref_leader_fields(2)] ref_leader_fields(3) by (simp add: ref_committed_def)

subsection \<open>The commit index reaches the second node\<close>

definition ref_commit_beat :: append_request where
  "ref_commit_beat = ref_beat\<lparr>aq_leader_commit := 1\<rparr>"

definition ref_second_beat :: ref_raft where
  "ref_second_beat = ref_committed\<lparr>heartbeat_timer := \<lparr>enable = True, immediate = False, start_tp = 2600\<rparr>,
     outbox := outbox ref_committed @ [(2, AppendEntries ref_commit_beat), (3, AppendEntries ref_commit_beat)]\<rparr>"

lemma ref_committed_fields:
  "log_good ref_leveldb ref_codec (rlog ref_committed)" "start_index refV (rlog ref_committed) = 1" "last_index refV (rlog ref_committed) = 1"
  "context_of ref_committed = (context_of ref_leader)\<lparr>commit_index := 1\<rparr>" "opt ref_committed = ref_option 1"
  "heartbeat_timer ref_committed = \<lparr>enable = True, immediate = False, start_tp = 2300\<rparr>"
  "entry refV (rlog ref_committed) 1 = Some (noop_entry 1)" "entries refV (rlog ref_committed) 2 0 = Inr (True, [])"
proof -
  note C = ldbk.set_commitD [OF ref_leader_fields(2)] ldbk.last_index_frame(2) [OF ref_leader_fields(2)]
  show g: "log_good ref_leveldb ref_codec (rlog ref_committed)" "start_index refV (rlog ref_committed) = 1" "last_index refV (rlog ref_committed) = 1"
    using C ref_leader_fields(4,5) by (simp_all add: ref_committed_def del: LevelDBLog_sel)
  show "context_of ref_committed = (context_of ref_leader)\<lparr>commit_index := 1\<rparr>" "opt ref_committed = ref_option 1"
    "heartbeat_timer ref_committed = \<lparr>enable = True, immediate = False, start_tp = 2300\<rparr>"
    by (simp_all add: ref_committed_def ref_resent_def ref_beaten_def ref_leader_fields)
  show "entry refV (rlog ref_committed) 1 = Some (noop_entry 1)" "entries refV (rlog ref_committed) 2 0 = Inr (True, [])"
    using ldbk.entry_ents [OF g(1), of 1] ldbk.entries_spec [OF g(1), of 2 0] g ref_committed_log by (simp_all del: LevelDBLog_sel)
qed

lemma ref_committed_check: "main_thread_check 2600 ref_committed = (Some Heartbeat, ref_committed)"
  by (simp add: main_thread_check_def ref_committed_fields ref_leader_fields(1) timeout_def ref_option_def Context_def)

lemma ref_committed_beat: "main_thread_act refV refS 2600 Heartbeat ref_committed = Inr ref_second_beat"
proof -
  have p: "peer_set ref_committed = [(2, (Peer 2 ''host'' 10801)\<lparr>next_index := 2, match_index := 1\<rparr>), (3, (Peer 3 ''host'' 10801)\<lparr>next_index := 2\<rparr>)]"
    by (simp add: ref_committed_def)
  have "send_append_entries_to refV refS q st = Inr (0, send_raft_RPC (p_id q) (AppendEntries ref_commit_beat) st)"
    if "next_index q = 2" "rlog st = rlog ref_committed" "context_of st = context_of ref_committed" "opt st = ref_option 1" for q and st :: ref_raft
    using that by (simp add: send_append_entries_to_def prev_log_term_def ref_committed_fields ref_leader_fields(1)
        Context_def ref_commit_beat_def ref_beat_def ref_option_def noop_entry_def del: LevelDBLog_sel)
  then show ?thesis
    by (simp add: main_thread_act_def send_append_entries_def p send_raft_RPC_def schedule_def ref_second_beat_def Peer_def
        ref_committed_fields(5,6) del: LevelDBLog_sel)
qed

definition ref_knows :: "append_response \<times> ref_raft" where
  "ref_knows = (case on_append_entries_request refV 2700 ref_commit_beat ref_stored of Inr x \<Rightarrow> x | Inl e \<Rightarrow> (ref_ack, ref_stored))"

lemma ref_stored_fields:
  "start_index refV (rlog ref_stored) = 1" "last_index refV (rlog ref_stored) = 1" "c_term (context_of ref_stored) = 1"
  "commit_index (context_of ref_stored) = 0"
proof -
  have room: "log_room refV (length (aq_entries ref_first)) ref_told" by (simp add: log_room_def ref_told_fields ref_first_def del: LevelDBLog_sel)
  note R = ldbk.append_request_result [OF ref_told_fields(1) room, of 2500, unfolded ref_stores(1)]
  show s: "start_index refV (rlog ref_stored) = 1" and "c_term (context_of ref_stored) = 1" "commit_index (context_of ref_stored) = 0"
    using R ref_told_fields by (auto simp: ref_ack_def ref_first_def simp del: LevelDBLog_sel)
  have "unat (last_index refV (rlog ref_stored)) = 1"
    using ldbk.last_eq [of ref_leveldb ref_codec "rlog ref_stored"] ref_stores(2,3) s by (simp add: node_ok_def del: LevelDBLog_sel)
  then show "last_index refV (rlog ref_stored) = 1" by (simp add: word_unat_eq_iff del: LevelDBLog_sel)
qed

lemma ref_knows_fields:
  "on_append_entries_request refV 2700 ref_commit_beat ref_stored = Inr (fst ref_knows, snd ref_knows)"
  "log_room refV (length (aq_entries ref_commit_beat)) ref_stored"
  "log_ents ref_leveldb ref_codec (rlog (snd ref_knows)) = [noop_entry 1]"
  "commit_index (context_of (snd ref_knows)) = 1" "c_term (context_of (snd ref_knows)) = 1"
proof -
  show room: "log_room refV (length (aq_entries ref_commit_beat)) ref_stored"
    by (simp add: log_room_def ref_stored_fields ref_commit_beat_def ref_beat_def del: LevelDBLog_sel)
  obtain r st where R: "on_append_entries_request refV 2700 ref_commit_beat ref_stored = Inr (r, st)" "log_ents ref_leveldb ref_codec (rlog st) = [noop_entry 1]"
      "commit_index (context_of st) = 1" "c_term (context_of st) = 1"
    using ldbk.append_request_result [OF ref_stores(2) room, of 2700] ref_stored_fields ref_stores(3)
    by (auto simp: append_accepts_def append_merged_def ref_commit_beat_def ref_beat_def noop_entry_def simp del: LevelDBLog_sel)
  then show "on_append_entries_request refV 2700 ref_commit_beat ref_stored = Inr (fst ref_knows, snd ref_knows)"
    "log_ents ref_leveldb ref_codec (rlog (snd ref_knows)) = [noop_entry 1]"
    "commit_index (context_of (snd ref_knows)) = 1" "c_term (context_of (snd ref_knows)) = 1"
    by (simp_all add: ref_knows_def)
qed

definition ref_cluster7 :: "(ref_db leveldb_log, (ref_db, (string \<times> string) list) leveldb_store) cluster" where
  "ref_cluster7 = add_response 1 (AppendEntriesRsp (fst ref_knows)) (set_node 2 (snd ref_knows)
     (del_pending 1 (PTick Heartbeat) (set_node 1 ref_second_beat
       (add_pending 1 (Some (PTick Heartbeat)) (set_node 1 ref_committed ref_cluster6)))))"

lemma ref_fresh7: "ref_fresh ref_cluster7"
proof -
  let ?c = "add_pending 1 (Some (PTick Heartbeat)) (set_node 1 ref_committed ref_cluster6)"
  let ?d = "del_pending 1 (PTick Heartbeat) (set_node 1 ref_second_beat ?c)"
  have "ref_step 1 ECheck ref_cluster6 ?c"
    using step_check [where i = 1 and now = 2600 and cl = ref_cluster6 and a = "Some Heartbeat" and st = ref_committed]
      ref_committed_check by (simp add: ref_nodes6)
  from fresh_step [OF ref_fresh6 this] have "ref_fresh ?c" by simp
  moreover have "ref_step 1 (ETick Heartbeat) ?c ?d"
    by (rule step_tick [where now = 2600])
      (use ref_committed_beat in \<open>simp_all add: add_pending_def ref_committed_fields ref_leader_fields Context_def\<close>)
  ultimately have "ref_fresh ?d" by (rule fresh_step) (simp add: ref_committed_fields ref_leader_fields)
  moreover have "ref_step 2 EAppendRequest ?d ref_cluster7"
    unfolding ref_cluster7_def
    by (rule step_append_request [where now = 2700 and q = ref_commit_beat])
      (use ref_knows_fields(1,2) in \<open>simp_all add: ref_nodes6 ref_second_beat_def\<close>)
  ultimately show ?thesis by (rule fresh_step) simp
qed

lemma ref_nodes7: "nodes ref_cluster7 1 = ref_second_beat" "nodes ref_cluster7 2 = snd ref_knows"
  by (simp_all add: ref_cluster7_def)

lemma ref_leader7:
  "log_ents ref_leveldb ref_codec (rlog ref_second_beat) = [noop_entry 1]" "commit_index (context_of ref_second_beat) = 1"
  "role (context_of ref_second_beat) = kLeader" "c_term (context_of ref_second_beat) = 1"
  using ref_committed_log by (simp_all add: ref_second_beat_def ref_committed_fields ref_leader_fields)

end
