(* ===== verification/Ref_Split.thy ===== *)
theory Ref_Split
  imports Ref_Run
begin

text \<open>
  A run in which the matching of logs breaks: the second node is elected in term 2, the first
  node hears of it, still takes itself for the leader, and appends a client's entry in term 2.
\<close>

definition split_cand :: ref_raft where
  "split_cand = (case main_thread_act refV refS 4000 Campaign (snd ref_vote) of Inr st \<Rightarrow> st | Inl e \<Rightarrow> snd ref_vote)"

definition split_request :: vote_request where
  "split_request = \<lparr>vq_term = 2, vq_candidate_id = 2, vq_last_log_index = 0, vq_last_log_term = 0, vq_epoch = 0\<rparr>"

definition split_vote :: "vote_response \<times> ref_raft" where
  "split_vote = on_request_vote_request refV 4100 split_request (ref_node 3)"

definition split_leader :: ref_raft where
  "split_leader = (case on_request_vote_response_async refV 4200 (fst split_vote) split_cand of
     Inr (x, st) \<Rightarrow> st | Inl e \<Rightarrow> split_cand)"

lemma split_voter_timer: "election_timer (snd ref_vote) = \<lparr>enable = True, immediate = False, start_tp = 2100\<rparr>"
  "heartbeat_timer (snd ref_vote) = \<lparr>enable = False, immediate = False, start_tp = 0\<rparr>"
  by (simp_all add: ref_vote_def on_request_vote_request_def ref_node_def ref_vote_request_def log_is_ok_def ref_log_simps
      within_def SimpleTimer_def set_ctx_log_def become_follower_def Context_def Let_def schedule_def disable_def del: LevelDBLog_sel)

lemma split_check: "main_thread_check 4000 (snd ref_vote) = (Some Campaign, snd ref_vote)"
  by (simp add: main_thread_check_def ref_voter_fields split_voter_timer timeout_def ref_option_def Context_def)

lemma split_tick: "main_thread_act refV refS 4000 Campaign (snd ref_vote) = Inr split_cand"
  by (simp add: split_cand_def main_thread_act_def Let_def del: LevelDBLog_sel)

lemmas split_log_simps = ref_meta_log [OF ref_voter_fields(2-5)]

lemma split_cand_fields:
  "context_of split_cand = (Context 2)\<lparr>c_term := 2, voted_for := 2, quorum_granted := {2}, role := kCandidate\<rparr>"
  "outbox split_cand = [(1, RequestVote split_request), (3, RequestVote split_request)]"
  "rlog split_cand = update_meta refV ((Context 2)\<lparr>c_term := 2, voted_for := 2, quorum_granted := {2}\<rparr>) (rlog (snd ref_vote))"
  "peer_set split_cand = peer_set (ref_node 2)" "opt split_cand = ref_option 2"
  "heartbeat_timer split_cand = \<lparr>enable = False, immediate = False, start_tp = 0\<rparr>"
  by (simp_all add: split_cand_def main_thread_act_def ref_voter_fields Context_def ref_node_def split_voter_timer
      ref_option_def Let_def split_beta send_request_vote_def send_raft_RPC_def set_ctx_log_def become_candidate_def
      Peer_def split_log_simps split_request_def del: LevelDBLog_sel)

lemma split_vote_fields:
  "fst split_vote = \<lparr>vr_term = 2, vr_vote_granted = True, vr_peer_id = 3, vr_log_ok = True, vr_epoch = 0\<rparr>"
  by (simp add: split_vote_def on_request_vote_request_def ref_node_def split_request_def log_is_ok_def ref_log_simps
      within_def SimpleTimer_def set_ctx_log_def become_follower_def Context_def Let_def del: LevelDBLog_sel)

lemma split_elected:
  "on_request_vote_response_async refV 4200 (fst split_vote) split_cand = Inr (0, split_leader)"
  "context_of split_leader = (Context 2)\<lparr>c_term := 2, voted_for := 2, quorum_granted := {2, 3}, role := kLeader, leader_id := 2\<rparr>"
  "rlog split_leader = snd (append refV (rlog split_cand) [noop_entry 2])" "opt split_leader = ref_option 2"
  "heartbeat_timer split_leader = \<lparr>enable = True, immediate = True, start_tp = 4200\<rparr>" "outbox split_leader = outbox split_cand"
  by (simp_all add: split_leader_def on_request_vote_response_async_def split_vote_fields split_cand_fields
      ref_node_def ref_option_def Context_def Let_def quorum_count_def Peer_def become_leader_def insert_commute
      set_urgent_def schedule_def del: LevelDBLog_sel)

lemma split_leader_log:
  "log_good ref_leveldb ref_codec (rlog split_leader)" "log_ents ref_leveldb ref_codec (rlog split_leader) = [noop_entry 2]"
  "start_index refV (rlog split_leader) = 1" "last_index refV (rlog split_leader) = 1"
  "entry refV (rlog split_leader) 1 = Some (noop_entry 2)" "entries refV (rlog split_leader) 2 0 = Inr (True, [])"
proof -
  have G: "log_good ref_leveldb ref_codec (rlog split_cand)" "log_ents ref_leveldb ref_codec (rlog split_cand) = []"
    "last_index refV (rlog split_cand) = 0" "start_index refV (rlog split_cand) = 1"
    using split_log_simps by (simp_all add: split_cand_fields del: LevelDBLog_sel)
  have A: "unat (last_index refV (rlog split_cand)) + length [noop_entry 2] < 2 ^ 64 - 1" using G(3) by simp
  note A' = ldbk.appendD [OF G(1) A] ldbk.append_last [OF G(1) A]
  show L: "log_good ref_leveldb ref_codec (rlog split_leader)" "log_ents ref_leveldb ref_codec (rlog split_leader) = [noop_entry 2]"
    "start_index refV (rlog split_leader) = 1" "last_index refV (rlog split_leader) = 1"
    using A' G by (simp_all add: split_elected(3) word_unat_eq_iff del: LevelDBLog_sel)
  show "entry refV (rlog split_leader) 1 = Some (noop_entry 2)" "entries refV (rlog split_leader) 2 0 = Inr (True, [])"
    using ldbk.entry_ents [OF L(1), of 1] ldbk.entries_spec [OF L(1), of 2 0] L by (simp_all del: LevelDBLog_sel)
qed

lemma split_peers: "peer_set split_leader = [(1, (Peer 1 ''host'' 10801)\<lparr>next_index := 2\<rparr>), (3, (Peer 3 ''host'' 10801)\<lparr>next_index := 2\<rparr>)]"
proof -
  have "last_index refV (snd (append refV (rlog split_cand) [noop_entry 2])) = 1"
    using split_leader_log(4) split_elected(3) by simp
  then show ?thesis
    by (simp add: split_leader_def on_request_vote_response_async_def split_vote_fields split_cand_fields
      ref_node_def ref_option_def Context_def Let_def quorum_count_def Peer_def peer_update_def del: LevelDBLog_sel)
qed

definition split_beat :: append_request where
  "split_beat = \<lparr>aq_term = 2, aq_leader_id = 2, aq_prev_log_index = 1, aq_prev_log_term = 2, aq_entries = [],
     aq_leader_commit = 0, aq_epoch = 0\<rparr>"

definition split_beating :: ref_raft where
  "split_beating = split_leader\<lparr>heartbeat_timer := \<lparr>enable = True, immediate = False, start_tp = 4200\<rparr>\<rparr>"

definition split_beaten :: ref_raft where
  "split_beaten = split_leader\<lparr>heartbeat_timer := \<lparr>enable = True, immediate = False, start_tp = 4300\<rparr>,
     outbox := outbox split_leader @ [(1, AppendEntries split_beat), (3, AppendEntries split_beat)]\<rparr>"

lemma split_leader_check: "main_thread_check 4300 split_leader = (Some Heartbeat, split_beating)"
  by (simp add: main_thread_check_def split_elected timeout_def split_beating_def)

lemma split_leader_beat: "main_thread_act refV refS 4300 Heartbeat split_beating = Inr split_beaten"
  by (simp add: main_thread_act_def send_append_entries_def split_beating_def split_peers send_append_entries_to_def
      prev_log_term_def split_leader_log split_elected(2,4) Context_def ref_option_def noop_entry_def
      send_raft_RPC_def schedule_def split_beaten_def split_beat_def Peer_def del: LevelDBLog_sel)

text \<open>The first node drops its entry, follows term 2, and still takes itself for the leader.\<close>

definition split_old :: ref_raft where
  "split_old = (case on_append_entries_request refV 4400 split_beat ref_leader of Inr (r, st) \<Rightarrow> st | Inl e \<Rightarrow> ref_leader)"

definition split_answer :: append_response where
  "split_answer = (case on_append_entries_request refV 4400 split_beat ref_leader of Inr (r, st) \<Rightarrow> r | Inl e \<Rightarrow> ref_fail)"

definition split_entry :: entry where
  "split_entry = \<lparr>e_type = kNormal, e_term = 2, e_data = Some ''x'', e_context = None\<rparr>"

lemma ref_leader_ok: "node_ok refV (log_good ref_leveldb ref_codec) ref_leader"
  using cluster_invD(4) [OF ldbc.reach_inv [OF ref_reach3], of 1] by (simp add: ref_cluster3_def)

lemma split_old_fields:
  "on_append_entries_request refV 4400 split_beat ref_leader = Inr (split_answer, split_old)"
  "log_good ref_leveldb ref_codec (rlog split_old)" "log_ents ref_leveldb ref_codec (rlog split_old) = []"
  "last_index refV (rlog split_old) = 0" "c_term (context_of split_old) = 2" "is_leader split_old"
proof -
  have room: "log_room refV (length (aq_entries split_beat)) ref_leader"
    by (simp add: log_room_def ref_leader_fields split_beat_def del: LevelDBLog_sel)
  let ?h = "hear_leader refV 4400 (aq_term split_beat) (aq_leader_id split_beat) ref_leader"
  have le: "c_term (context_of ref_leader) \<le> aq_term split_beat" by (simp add: ref_leader_fields split_beat_def)
  note H = ldbk.hear_leader_ok [OF ref_leader_ok le, of 4400 "aq_leader_id split_beat"]
  obtain r l where R: "on_append_entries_request refV 4400 split_beat ref_leader = Inr (r, ?h\<lparr>rlog := l\<rparr>)"
      "l = truncate_suffix refV (rlog ?h) 0"
    by (rule ldbk.append_request_cases [OF ref_leader_ok room, of 4400])
      (simp_all add: ref_leader_fields split_beat_def noop_entry_def Context_def del: LevelDBLog_sel)
  have st: "split_old = ?h\<lparr>rlog := l\<rparr>" "r = split_answer" using R(1) by (simp_all add: split_old_def split_answer_def)
  show "on_append_entries_request refV 4400 split_beat ref_leader = Inr (split_answer, split_old)" using R(1) st by simp
  have G: "log_good ref_leveldb ref_codec (rlog ?h)" using H(1) by (simp add: node_ok_def)
  note S = ldbk.suffixD [OF G, of 0]
  show L: "log_good ref_leveldb ref_codec (rlog split_old)" and ents: "log_ents ref_leveldb ref_codec (rlog split_old) = []"
    using S H(6,7) ref_leader_fields(3,4) by (simp_all add: st R(2) del: LevelDBLog_sel)
  have "unat (last_index refV (rlog split_old)) = 0"
    using ldbk.last_eq [OF L] ents S(3) H(7) ref_leader_fields(4) by (simp add: st R(2) del: LevelDBLog_sel)
  then show "last_index refV (rlog split_old) = 0" by (simp add: unat_eq_0 del: LevelDBLog_sel)
  show "c_term (context_of split_old) = 2" using H(4) by (simp add: st split_beat_def)
  show "is_leader split_old"
    by (simp add: st is_leader_def hear_leader_def Let_def ref_leader_fields split_beat_def set_ctx_log_def become_follower_def Context_def)
qed

definition split_appended :: ref_raft where
  "split_appended = snd (modify_append refV split_entry split_old)"

lemma split_append:
  "modify_begin ''x'' split_old = Some split_entry"
  "log_ents ref_leveldb ref_codec (rlog split_appended) = [split_entry]"
proof -
  show "modify_begin ''x'' split_old = Some split_entry"
    using split_old_fields by (simp add: modify_begin_def split_entry_def)
  have "unat (last_index refV (rlog split_old)) + length [split_entry] < 2 ^ 64 - 1"
    using split_old_fields(4) by (simp del: LevelDBLog_sel)
  then show "log_ents ref_leveldb ref_codec (rlog split_appended) = [split_entry]"
    using ldbk.appendD(2) [OF split_old_fields(2)] split_old_fields(3)
    by (simp add: split_appended_def modify_append_def Let_def del: LevelDBLog_sel)
qed

subsection \<open>The run\<close>

definition split_cluster1 :: "(ref_db leveldb_log, (ref_db, (string \<times> string) list) leveldb_store) cluster" where
  "split_cluster1 = del_pending 2 (PTick Campaign) (set_node 2 split_cand
     (add_pending 2 (Some (PTick Campaign)) (set_node 2 (snd ref_vote) ref_cluster3)))"

definition split_cluster2 :: "(ref_db leveldb_log, (ref_db, (string \<times> string) list) leveldb_store) cluster" where
  "split_cluster2 = set_node 2 split_leader
     (add_response 2 (RequestVoteRsp (fst split_vote)) (set_node 3 (snd split_vote) split_cluster1))"

definition split_cluster3 :: "(ref_db leveldb_log, (ref_db, (string \<times> string) list) leveldb_store) cluster" where
  "split_cluster3 = add_response 2 (AppendEntriesRsp split_answer) (set_node 1 split_old
     (del_pending 2 (PTick Heartbeat) (set_node 2 split_beaten
       (add_pending 2 (Some (PTick Heartbeat)) (set_node 2 split_beating split_cluster2)))))"

definition split_cluster4 :: "(ref_db leveldb_log, (ref_db, (string \<times> string) list) leveldb_store) cluster" where
  "split_cluster4 = del_pending 1 (PAppend split_entry) (set_node 1 split_appended
     (add_pending 1 (Some (PAppend split_entry)) split_cluster3))"

lemma split_reach1: "ref_reach split_cluster1"
proof -
  let ?c = "add_pending 2 (Some (PTick Campaign)) (set_node 2 (snd ref_vote) ref_cluster3)"
  have "ref_step 2 ECheck ref_cluster3 ?c"
    using step_check [where i = 2 and now = 4000 and cl = ref_cluster3 and a = "Some Campaign" and st = "snd ref_vote"]
      split_check by (simp add: ref_cluster3_def ref_cluster2_def)
  moreover have "ref_step 2 (ETick Campaign) ?c split_cluster1"
    unfolding split_cluster1_def
    by (rule step_tick [where now = 4000]) (use split_tick in \<open>simp_all add: add_pending_def ref_voter_fields\<close>)
  ultimately show ?thesis using ref_reach3 by (meson reach_step)
qed

lemma split_reach2: "ref_reach split_cluster2"
proof -
  let ?c = "add_response 2 (RequestVoteRsp (fst split_vote)) (set_node 3 (snd split_vote) split_cluster1)"
  have "ref_step 3 EVoteRequest split_cluster1 ?c"
    by (rule step_vote_request [where now = 4100 and q = split_request])
      (simp_all add: split_cluster1_def split_cand_fields split_vote_def ref_cluster3_def ref_cluster2_def ref_cluster1_def ref_cluster0_def)
  moreover have "ref_step 2 EVoteResponse ?c split_cluster2"
    unfolding split_cluster2_def
    by (rule step_vote_response [where now = 4200 and r = "fst split_vote"])
      (use split_elected(1) split_log_simps in \<open>simp_all add: split_cluster1_def add_response_def log_room_def split_cand_fields del: LevelDBLog_sel\<close>)
  ultimately show ?thesis using split_reach1 by (meson reach_step)
qed

lemma split_reach3: "ref_reach split_cluster3"
proof -
  let ?c = "add_pending 2 (Some (PTick Heartbeat)) (set_node 2 split_beating split_cluster2)"
  let ?d = "del_pending 2 (PTick Heartbeat) (set_node 2 split_beaten ?c)"
  have "ref_step 2 ECheck split_cluster2 ?c"
    using step_check [where i = 2 and now = 4300 and cl = split_cluster2 and a = "Some Heartbeat" and st = split_beating]
      split_leader_check by (simp add: split_cluster2_def)
  moreover have "ref_step 2 (ETick Heartbeat) ?c ?d"
    by (rule step_tick [where now = 4300])
      (use split_leader_beat in \<open>simp_all add: add_pending_def split_beating_def split_elected Context_def\<close>)
  moreover have "ref_step 1 EAppendRequest ?d split_cluster3"
    unfolding split_cluster3_def
    by (rule step_append_request [where now = 4400 and q = split_beat])
      (use split_old_fields(1) ref_leader_fields(5) in
        \<open>simp_all add: split_beaten_def split_cluster2_def split_cluster1_def ref_cluster3_def log_room_def split_beat_def del: LevelDBLog_sel\<close>)
  ultimately show ?thesis using split_reach2 by (meson reach_step)
qed

lemma split_reach4: "ref_reach split_cluster4"
proof -
  let ?c = "add_pending 1 (Some (PAppend split_entry)) split_cluster3"
  have n: "nodes split_cluster3 1 = split_old" by (simp add: split_cluster3_def)
  have "ref_step 1 EModifyBegin split_cluster3 ?c"
    by (rule step_modify_begin [where cmd = "''x''"]) (use split_append(1) n in simp_all)
  moreover have "ref_step 1 (EModifyAppend split_entry) ?c split_cluster4"
    unfolding split_cluster4_def
    by (rule step_modify_append [where aim = "fst (modify_append refV split_entry split_old)"])
      (use split_old_fields(4) n in \<open>simp_all add: add_pending_def log_room_def split_appended_def del: LevelDBLog_sel\<close>)
  ultimately show ?thesis using split_reach3 by (meson reach_step)
qed

lemma split_nodes: "nodes split_cluster4 1 = split_appended" "nodes split_cluster4 2 = split_beaten"
  by (simp_all add: split_cluster4_def split_cluster3_def)

end
