(* ===== verification/Consensus_Props.thy ===== *)
theory Consensus_Props
  imports Majority Ref_Cluster
begin

text \<open>
  The properties of the consensus module on the LevelDB log: replication at the follower, what a
  leader sends and when it commits, votes, and the start of a client update.
\<close>

abbreviation sound_node :: "'db leveldb \<Rightarrow> codec \<Rightarrow> ('db leveldb_log, 's) raft \<Rightarrow> bool" where
  "sound_node L E st \<equiv> node_ok (LevelDBLog L E) (log_inv L E) st"

subsection \<open>Instances for the witnesses\<close>

text \<open>A follower of term 2 with a log of three entries, and requests of a leader of term 2.\<close>

definition ref_follower :: "(ref_db leveldb_log, (ref_db, (string \<times> string) list) leveldb_store) raft" where
  "ref_follower =
     (let c = (Context 2)\<lparr>c_term := 2\<rparr>
      in (ref_node 2)\<lparr>context_of := c, rlog := update_meta refV c ref_log3\<rparr>)"

definition ref_append :: "u64 \<Rightarrow> u64 \<Rightarrow> entry list \<Rightarrow> append_request" where
  "ref_append prev prev_term es =
     \<lparr>aq_term = 2, aq_leader_id = 1, aq_prev_log_index = prev, aq_prev_log_term = prev_term, aq_entries = es,
      aq_leader_commit = 2, aq_epoch = 0\<rparr>"

lemma ref_follower_log:
  "log_inv ref_leveldb ref_codec (rlog ref_follower)"
  "log_ents ref_leveldb ref_codec (rlog ref_follower) = [ref_entry 1, ref_entry 1, ref_entry 2]"
  "lg_start (rlog ref_follower) = 1" "lg_last (rlog ref_follower) = 3"
  "c_term (context_of ref_follower) = 2" "commit_index (context_of ref_follower) = 0"
  "o_log_trans_count (opt ref_follower) = 0"
  using ldb.update_metaD [OF ref_log3_facts(1)] ref_log3_facts
  by (simp_all add: ref_follower_def Let_def Context_def ref_node_def ref_option_def)

lemma ref_follower_ok: "sound_node ref_leveldb ref_codec ref_follower"
  using ref_follower_log(1) ldb.update_meta_saved [OF ref_log3_facts(1)]
  by (simp add: node_ok_def ref_follower_def Let_def)

lemma ref_follower_room: "n < 100 \<Longrightarrow> log_room refV n ref_follower"
  by (simp add: log_room_def ref_follower_log)

lemma ref_append_accepts: "append_accepts refV (log_ents ref_leveldb ref_codec) (ref_append 3 2 es) ref_follower"
  "append_accepts refV (log_ents ref_leveldb ref_codec) (ref_append 1 1 es) ref_follower"
  by (simp_all add: append_accepts_def ref_append_def ref_follower_log ref_entry_def)

subsection \<open>Replication at the follower\<close>

text \<open>C5: AppendEntries never faults on a sound node and keeps it sound. It answers success exactly when the
  request's term is not behind, the previous index is within the log and, where the log still has it, carries the
  previous term; then the log is the received entries merged over the old log: overlapping entries of
  equal term stay, the log is cut at the first differing term, the rest is appended. The
  term rises to that of the request and the commit index to the leader's.\<close>

theorem append_entries_merges:
  assumes "sound_node L E st" "log_room (LevelDBLog L E) (length (aq_entries q)) st"
  shows "\<exists>r st'. on_append_entries_request (LevelDBLog L E) now q st = Inr (r, st') \<and> sound_node L E st' \<and>
    (ar_success r \<longleftrightarrow> append_accepts (LevelDBLog L E) (log_ents L E) q st) \<and>
    ar_term r = max (c_term (context_of st)) (aq_term q) \<and>
    c_term (context_of st') = max (c_term (context_of st)) (aq_term q) \<and>
    (ar_success r \<longrightarrow> log_ents L E (rlog st') = append_merged (LevelDBLog L E) (log_ents L E) q (rlog st) \<and>
       lg_start (rlog st') = lg_start (rlog st) \<and> ar_last_log_index r = lg_last (rlog st') \<and>
       commit_index (context_of st') = max (commit_index (context_of st)) (aq_leader_commit q))"
  using ldb.append_request_result [OF assms, of now] by simp

theorem append_entries_merges_witness:
  "\<exists>r st'. on_append_entries_request refV 0 (ref_append 1 1 [ref_entry 2, ref_entry 2]) ref_follower = Inr (r, st') \<and>
     ar_success r \<and> log_ents ref_leveldb ref_codec (rlog st') = [ref_entry 1, ref_entry 2, ref_entry 2]"
proof -
  let ?q = "ref_append 1 1 [ref_entry 2, ref_entry 2]"
  have "append_merged refV (log_ents ref_leveldb ref_codec) ?q (rlog ref_follower) = [ref_entry 1, ref_entry 2, ref_entry 2]"
    by (simp add: append_merged_def ref_follower_log ref_append_def ref_entry_def)
  then show ?thesis
    using append_entries_merges [OF ref_follower_ok ref_follower_room, of ?q 0] ref_append_accepts(2)
    by (auto simp: ref_append_def)
qed

text \<open>After a successful AppendEntries the log matches the leader's message: every received entry at or
  above the start of the log is there under its index with its term, and the entries up to the previous index are
  the ones that were there.\<close>

theorem append_entries_agrees:
  assumes "sound_node L E st" "log_room (LevelDBLog L E) (length (aq_entries q)) st"
    and "on_append_entries_request (LevelDBLog L E) now q st = Inr (r, st')" "ar_success r"
  shows "(\<forall>n < length (aq_entries q). lg_start (rlog st) \<le> aq_prev_log_index q + of_nat (Suc n) \<longrightarrow>
       (\<exists>e. LevelDBLog_entry L E (rlog st') (aq_prev_log_index q + of_nat (Suc n)) = Some e \<and>
            e_term e = e_term (aq_entries q ! n))) \<and>
    (\<forall>i. i \<le> aq_prev_log_index q \<longrightarrow> LevelDBLog_entry L E (rlog st') i = LevelDBLog_entry L E (rlog st) i)"
proof -
  let ?p = "unat (aq_prev_log_index q)" and ?s = "unat (lg_start (rlog st))" and ?l = "rlog st" and ?l' = "rlog st'"
  have R: "log_inv L E ?l" "log_inv L E ?l'" "aq_prev_log_index q \<le> lg_last ?l" "lg_start ?l' = lg_start ?l"
      "log_ents L E ?l' = append_merged (LevelDBLog L E) (log_ents L E) q ?l"
    using ldb.append_request_result [OF assms(1,2), of now] assms by (auto simp: append_accepts_def node_ok_def)
  have last': "unat (lg_last ?l') + 1 = ?s + length (log_ents L E ?l')" using ldb.last_eq [OF R(2)] R(4) by simp
  have room: "unat (lg_last ?l) + length (aq_entries q) < 2 ^ 64 - 1" using assms(2) by (simp add: log_room_def)
  have "\<exists>e. LevelDBLog_entry L E ?l' (aq_prev_log_index q + of_nat (Suc n)) = Some e \<and> e_term e = e_term (aq_entries q ! n)"
    if n: "n < length (aq_entries q)" "lg_start ?l \<le> aq_prev_log_index q + of_nat (Suc n)" for n
  proof -
    let ?i = "aq_prev_log_index q + of_nat (Suc n)"
    have u: "unat ?i = Suc (?p + n)"
      using unat_add_of_nat [of "aq_prev_log_index q" "Suc n"] room R(3) n(1) by (simp add: idx_order)
    have s: "?s \<le> Suc (?p + n)" using n(2) u by (simp add: idx_order)
    have "Suc (?p + n) - ?s < length (log_ents L E ?l')"
      using ldb.append_merged_in_range [OF R(1), of q n] R s n(1) by simp
    then have "?i \<le> lg_last ?l'" using last' u s by (simp add: idx_order)
    then have "LevelDBLog_entry L E ?l' ?i = Some (log_ents L E ?l' ! (Suc (?p + n) - ?s))"
      using ldb.entry_ents [OF R(2), of ?i] R(4) n(2) u by simp
    with ldb.append_merged_terms [OF R(1), of q n] R s n(1) show ?thesis by simp
  qed
  moreover have "LevelDBLog_entry L E ?l' i = LevelDBLog_entry L E ?l i" if i: "i \<le> aq_prev_log_index q" for i
  proof (cases "lg_start ?l \<le> i")
    case True
    note P = ldb.append_merged_prefix [OF R(1), of "unat i" q]
    have "unat i - ?s < length (log_ents L E ?l')" using P(2) True i R(3,5) by (simp add: idx_order)
    then have "i \<le> lg_last ?l'" using last' True by (simp add: idx_order)
    then show ?thesis
      using ldb.entry_ents [OF R(2), of i] ldb.entry_ents [OF R(1), of i] True i R P(1) by (simp add: idx_order)
  next
    case False
    then show ?thesis using ldb.entry_None [OF R(1), of i] ldb.entry_None [OF R(2), of i] R(4) by (simp add: not_le)
  qed
  ultimately show ?thesis by blast
qed

theorem append_entries_agrees_witness:
  "\<exists>r st'. on_append_entries_request refV 0 (ref_append 3 2 [ref_entry 2]) ref_follower = Inr (r, st') \<and>
     (\<exists>e. LevelDBLog_entry ref_leveldb ref_codec (rlog st') 4 = Some e \<and> e_term e = 2)"
proof -
  let ?q = "ref_append 3 2 [ref_entry 2]"
  have room: "log_room refV (length (aq_entries ?q)) ref_follower" by (rule ref_follower_room) (simp add: ref_append_def)
  obtain r st' where r: "on_append_entries_request refV 0 ?q ref_follower = Inr (r, st')" "ar_success r"
    using ldb.append_request_result [OF ref_follower_ok room, of 0] ref_append_accepts(1) by blast
  have "\<exists>e. LevelDBLog_entry ref_leveldb ref_codec (rlog st') 4 = Some e \<and> e_term e = 2"
    using append_entries_agrees [OF ref_follower_ok room r] by (simp add: ref_follower_log ref_append_def ref_entry_def)
  with r show ?thesis by blast
qed

text \<open>AppendEntries is idempotent on the log: a second delivery of a message that was accepted is accepted
  again and leaves the entries as they are.\<close>

theorem append_entries_duplicate:
  assumes "sound_node L E st" "log_room (LevelDBLog L E) (length (aq_entries q)) st"
    and "on_append_entries_request (LevelDBLog L E) now q st = Inr (r, st')" "ar_success r"
    and "log_room (LevelDBLog L E) (length (aq_entries q)) st'"
  shows "\<exists>r2 st2. on_append_entries_request (LevelDBLog L E) now2 q st' = Inr (r2, st2) \<and> ar_success r2 \<and>
    log_ents L E (rlog st2) = log_ents L E (rlog st')"
proof -
  let ?l = "rlog st" and ?l' = "rlog st'" and ?s = "unat (lg_start (rlog st))"
  have R: "sound_node L E st'" "append_accepts (LevelDBLog L E) (log_ents L E) q st"
      "c_term (context_of st') = aq_term q" "lg_start ?l' = lg_start ?l"
      "log_ents L E ?l' = append_merged (LevelDBLog L E) (log_ents L E) q ?l"
    using ldb.append_request_result [OF assms(1,2), of now] assms(3,4) by (auto simp: append_accepts_def)
  have I: "log_inv L E ?l" "log_inv L E ?l'" using assms(1) R(1) by (simp_all add: node_ok_def)
  have acc: "append_accepts (LevelDBLog L E) (log_ents L E) q st'"
    using R I ldb.append_merged_covers [OF I(1), of q] ldb.append_merged_prefix [OF I(1), of "unat (aq_prev_log_index q)" q]
      ldb.last_eq [OF I(2)] ldb.last_eq [OF I(1)]
    by (auto simp: append_accepts_def idx_order)
  obtain r2 st2 where r2: "on_append_entries_request (LevelDBLog L E) now2 q st' = Inr (r2, st2)" "ar_success r2"
      "log_ents L E (rlog st2) = append_merged (LevelDBLog L E) (log_ents L E) q ?l'"
    using ldb.append_request_result [OF R(1) assms(5), of now2] acc by blast
  have "append_merged (LevelDBLog L E) (log_ents L E) q ?l' = log_ents L E ?l'"
    by (rule ldb.append_merged_idem [OF I]) (use R in \<open>simp_all add: append_accepts_def\<close>)
  with r2 show ?thesis by auto
qed

theorem append_entries_duplicate_witness:
  "\<exists>r st' r2 st2. on_append_entries_request refV 0 (ref_append 3 2 [ref_entry 2]) ref_follower = Inr (r, st') \<and>
     on_append_entries_request refV 1 (ref_append 3 2 [ref_entry 2]) st' = Inr (r2, st2) \<and> ar_success r2 \<and>
     log_ents ref_leveldb ref_codec (rlog st2) = log_ents ref_leveldb ref_codec (rlog st')"
proof -
  let ?q = "ref_append 3 2 [ref_entry 2]"
  have room: "log_room refV (length (aq_entries ?q)) ref_follower" by (rule ref_follower_room) (simp add: ref_append_def)
  obtain r st' where r: "on_append_entries_request refV 0 ?q ref_follower = Inr (r, st')" "ar_success r"
      "sound_node ref_leveldb ref_codec st'" "lg_start (rlog st') = 1"
      "log_ents ref_leveldb ref_codec (rlog st') = append_merged refV (log_ents ref_leveldb ref_codec) ?q (rlog ref_follower)"
    using ldb.append_request_result [OF ref_follower_ok room, of 0] ref_append_accepts(1) ref_follower_log(3) by auto
  have "length (log_ents ref_leveldb ref_codec (rlog st')) = 4"
    unfolding r(5) by (simp add: append_merged_def ref_follower_log ref_append_def)
  then have room2: "log_room refV (length (aq_entries ?q)) st'"
    using ldb.last_eq [of ref_leveldb ref_codec "rlog st'"] r(3,4) by (simp add: node_ok_def log_room_def ref_append_def)
  show ?thesis using append_entries_duplicate [OF ref_follower_ok room r(1,2) room2, of 1] r(1) by auto
qed

text \<open>A commit index taken over from the leader is within the follower's log, provided the leader capped it at the
  last entry it sent, which \<^verbatim>\<open>send_append_entries\<close> does, and the message is not below the start of the log.\<close>

theorem append_commit_in_log:
  assumes "sound_node L E st" "log_room (LevelDBLog L E) (length (aq_entries q)) st"
    and "on_append_entries_request (LevelDBLog L E) now q st = Inr (r, st')" "ar_success r"
    and "lg_start (rlog st) \<le> aq_prev_log_index q + 1"
    and "unat (aq_leader_commit q) \<le> unat (aq_prev_log_index q) + length (aq_entries q)"
  shows "commit_index (context_of st') = max (commit_index (context_of st)) (aq_leader_commit q) \<and>
    aq_leader_commit q \<le> lg_last (rlog st')"
proof -
  have R: "log_inv L E (rlog st)" "log_inv L E (rlog st')" "aq_prev_log_index q \<le> lg_last (rlog st)"
      "lg_start (rlog st') = lg_start (rlog st)"
      "log_ents L E (rlog st') = append_merged (LevelDBLog L E) (log_ents L E) q (rlog st)"
      "commit_index (context_of st') = max (commit_index (context_of st)) (aq_leader_commit q)"
    using ldb.append_request_result [OF assms(1,2), of now] assms(1,3,4) by (auto simp: append_accepts_def node_ok_def)
  have "unat (aq_prev_log_index q) + length (aq_entries q) < unat (lg_start (rlog st)) + length (log_ents L E (rlog st'))"
    using ldb.append_merged_length [OF R(1), of q] R(3,5) assms(5) by simp
  also have "\<dots> = unat (lg_last (rlog st')) + 1" using ldb.last_eq [OF R(2)] R(4) by simp
  finally have "unat (aq_leader_commit q) \<le> unat (lg_last (rlog st'))" using assms(6) by linarith
  with R(6) show ?thesis by (simp add: idx_order)
qed

theorem append_commit_in_log_witness:
  "\<exists>r st'. on_append_entries_request refV 0 (ref_append 3 2 []) ref_follower = Inr (r, st') \<and>
     commit_index (context_of st') = 2 \<and> 2 \<le> lg_last (rlog st')"
proof -
  let ?q = "ref_append 3 2 []"
  have room: "log_room refV (length (aq_entries ?q)) ref_follower" by (rule ref_follower_room) (simp add: ref_append_def)
  obtain r st' where r: "on_append_entries_request refV 0 ?q ref_follower = Inr (r, st')" "ar_success r"
    using ldb.append_request_result [OF ref_follower_ok room, of 0] ref_append_accepts(1) by blast
  then show ?thesis
    using append_commit_in_log [OF ref_follower_ok room r] by (simp add: ref_follower_log ref_append_def)
qed

subsection \<open>The leader\<close>

text \<open>C27: What a leader sends to a peer it serves from its log, that is, if the index before the peer's next index is still in the log,
  or is 0, or is the index of its last snapshot: one AppendEntries message with that index and its term (0 for the index 0, the term of the
  snapshot for its index), and with the entries of the log from the peer's next index on, or from the first entry that is left if
  that is later. Without a transfer limit these are all, with a limit of \<open>n\<close> at most \<open>n + 1\<close>. The commit index in the message is neither beyond
  the leader's own nor beyond the previous index plus the number of entries sent.\<close>

theorem send_append_entries_slice:
  assumes "sound_node L E st" "next_index p \<noteq> 0"
    and "if lg_start (rlog st) \<le> next_index p - 1 then next_index p - 1 \<le> lg_last (rlog st)
      else next_index p = 1 \<or> next_index p - 1 = last_included_index (context_of st)"
  shows "\<exists>q. send_append_entries_to (LevelDBLog L E) S p st = Inr (0, send_raft_RPC (p_id p) (AppendEntries q) st) \<and>
    aq_term q = c_term (context_of st) \<and> aq_leader_id q = c_id (context_of st) \<and> aq_prev_log_index q = next_index p - 1 \<and>
    aq_prev_log_term q =
      (if lg_start (rlog st) \<le> next_index p - 1
       then e_term (log_ents L E (rlog st) ! (unat (next_index p - 1) - unat (lg_start (rlog st))))
       else if next_index p = 1 then 0 else last_included_term (context_of st)) \<and>
    aq_entries q = (let rest = drop (unat (next_index p) - unat (lg_start (rlog st))) (log_ents L E (rlog st))
      in if o_log_trans_count (opt st) = 0 then rest else take (Suc (unat (o_log_trans_count (opt st)))) rest) \<and>
    aq_leader_commit q \<le> commit_index (context_of st) \<and>
    unat (aq_leader_commit q) \<le> unat (aq_prev_log_index q) + length (aq_entries q)"
proof -
  let ?prev = "next_index p - 1" and ?l = "rlog st"
  let ?pt = "if lg_start ?l \<le> ?prev then e_term (log_ents L E ?l ! (unat ?prev - unat (lg_start ?l)))
      else if next_index p = 1 then 0 else last_included_term (context_of st)"
  have I: "log_inv L E ?l" using assms(1) by (simp add: node_ok_def)
  have pt: "prev_log_term (LevelDBLog L E) st ?prev = Some (Some ?pt)"
    using ldb.entry_ents [OF I, of ?prev] assms(3) by (auto simp: prev_log_term_def split: if_splits)
  define es where "es = (let rest = drop (unat (next_index p) - unat (lg_start ?l)) (log_ents L E ?l)
      in if o_log_trans_count (opt st) = 0 then rest else take (Suc (unat (o_log_trans_count (opt st)))) rest)"
  have es: "LevelDBLog_entries L E ?l (next_index p) (o_log_trans_count (opt st)) = Inr (True, es)"
    using ldb.entries_spec [OF I] by (simp add: es_def)
  have "length es \<le> length (log_ents L E ?l) - (unat (next_index p) - unat (lg_start ?l))"
    by (simp add: es_def Let_def)
  moreover have "1 \<le> unat (next_index p)" using assms(2) unat_eq_zero [of "next_index p"] by linarith
  ultimately have "unat ?prev + length es \<le> unat (lg_last ?l)"
    using ldb.last_eq [OF I] assms(3) unat_dec [OF assms(2)] by (auto simp: idx_order split: if_splits)
  then have "unat (?prev + of_nat (length es)) = unat ?prev + length es"
    using ldb.last_bound [OF I] by (intro unat_add_of_nat) simp
  then have c: "unat (min (commit_index (context_of st)) (?prev + of_nat (length es))) \<le> unat ?prev + length es"
    by (auto simp: min_def idx_order)
  let ?q = "\<lparr>aq_term = c_term (context_of st), aq_leader_id = c_id (context_of st), aq_prev_log_index = ?prev,
      aq_prev_log_term = ?pt, aq_entries = es,
      aq_leader_commit = min (commit_index (context_of st)) (?prev + of_nat (length es)), aq_epoch = epoch (context_of st)\<rparr>"
  have "send_append_entries_to (LevelDBLog L E) S p st = Inr (0, send_raft_RPC (p_id p) (AppendEntries ?q) st)"
    using pt es by (simp add: send_append_entries_to_def Let_def)
  with c show ?thesis unfolding es_def [symmetric] by (intro exI [of _ ?q]) simp
qed

theorem send_append_entries_witness:
  "\<exists>q. send_append_entries_to refV refS ((Peer 3 ''host'' 10801)\<lparr>next_index := 2\<rparr>) ref_follower =
      Inr (0, send_raft_RPC 3 (AppendEntries q) ref_follower) \<and> aq_entries q = [ref_entry 1, ref_entry 2]"
  using send_append_entries_slice [OF ref_follower_ok, of "(Peer 3 ''host'' 10801)\<lparr>next_index := 2\<rparr>" refS]
  by (auto simp: Peer_def ref_follower_log)

text \<open>\<^verbatim>\<open>advance_commit_index\<close> never faults and gives the largest index that a majority has: an index is at most
  the result exactly when more than half of the match indices of the peers and the leader's own last
  index reach it.\<close>

theorem advance_commit_index_majority:
  "\<exists>n. advance_commit_index V st = Inr n \<and>
     (\<forall>m. m \<le> n \<longleftrightarrow>
        length (filter (\<lambda>x. m \<le> x) (map (\<lambda>(k, p). match_index p) (peer_set st) @ [last_index V (rlog st)])) >
        (length (peer_set st) + 1) div 2)"
  unfolding advance_commit_index_def by (rule middle_at) simp

text \<open>\<^verbatim>\<open>advance_epoch\<close> never faults and gives the largest epoch that a majority has confirmed, the leader
  included.\<close>

theorem advance_epoch_majority:
  "\<exists>n. advance_epoch st = Inr n \<and>
     (\<forall>m. m \<le> n \<longleftrightarrow>
        length (filter (\<lambda>x. m \<le> x) (map (\<lambda>(k, p). latest_epoch p) (peer_set st) @ [epoch (context_of st)])) >
        (length (peer_set st) + 1) div 2)"
  unfolding advance_epoch_def by (rule middle_at) simp

text \<open>An index is on a majority when more than half of the members, the peers by their recorded match index and the leader by its
  last index, have it.\<close>

definition match_majority :: "peers \<Rightarrow> u64 \<Rightarrow> u64 \<Rightarrow> bool" where
  "match_majority ps own n \<longleftrightarrow>
     length (filter (\<lambda>x. n \<le> x) (map (\<lambda>(k, p). match_index p) ps @ [own])) > (length ps + 1) div 2"

text \<open>The last part of both response handlers, with the largest index \<open>n\<close> on a majority.\<close>

lemma try_advance_commit_spec:
  assumes "log_inv L E (rlog st)" "try_advance_commit (LevelDBLog L E) st = Inr (x, st')"
  obtains n where "\<And>m. m \<le> n \<longleftrightarrow> match_majority (peer_set st) (lg_last (rlog st)) m" "peer_set st' = peer_set st"
    "if commit_index (context_of st) < n \<and> (\<exists>e. LevelDBLog_entry L E (rlog st) n = Some e \<and> e_term e = c_term (context_of st))
     then commit_index (context_of st') = n \<and> m_commit_index (LevelDBLog_meta_data L E (rlog st')) = Some n
     else commit_index (context_of st') = commit_index (context_of st)"
proof -
  obtain n where n: "advance_commit_index (LevelDBLog L E) st = Inr n"
    and maj: "\<And>m. m \<le> n \<longleftrightarrow> match_majority (peer_set st) (lg_last (rlog st)) m"
    using middle_at [of "map (\<lambda>(k, p). match_index p) (peer_set st) @ [lg_last (rlog st)]" "length (peer_set st)"]
    by (auto simp: advance_commit_index_def match_majority_def)
  let ?b = "commit_index (context_of st) < n \<and> (\<exists>e. LevelDBLog_entry L E (rlog st) n = Some e \<and> e_term e = c_term (context_of st))"
  have "st' = (if ?b then st\<lparr>context_of := (context_of st)\<lparr>commit_index := n\<rparr>,
      rlog := snd (LevelDBLog_set_meta_commit_index L E (rlog st) n)\<rparr> else st)"
    using assms(2) n by (auto simp: try_advance_commit_def res_bind_Inr_iff not_le split: if_splits)
  then show thesis using set_meta_value(2) [OF assms(1), of n] by (intro that [OF maj]) auto
qed

text \<open>Sending to a peer changes neither what is known of the peers nor the commit index.\<close>

lemma send_append_entries_to_frame:
  assumes "send_append_entries_to V S p st = Inr (x, st')"
  shows "peer_set st' = peer_set st \<and> commit_index (context_of st') = commit_index (context_of st)"
proof -
  consider "st' = st" | y where "send_install_snapshot V S p st = Inr (y, st')"
    | q where "st' = send_raft_RPC (p_id p) (AppendEntries q) st"
    using assms by (auto simp: send_append_entries_to_def Let_def res_bind_Inr_iff split: option.splits if_splits)
  then show ?thesis
    by cases (auto simp: send_install_snapshot_def send_raft_RPC_def Let_def split: option.splits if_splits prod.splits)
qed

lemma peer_update_twice: "peer_update k f (peer_update k g ps) = peer_update k (\<lambda>p. f (g p)) ps"
  by (simp add: peer_update_def split_beta comp_def)

lemma match_index_update:
  assumes "\<And>p. match_index (f p) = (if b then i else match_index p)"
  shows "map (\<lambda>(k, p). match_index p) (peer_update j f ps) = map (\<lambda>(k, p). if k = j \<and> b then i else match_index p) ps"
  using assms by (auto simp: peer_update_def)

text \<open>A successful answer of the own term records the match index of the peer that answered and then looks for an index to commit.\<close>

lemma accepted_response:
  assumes "log_inv L E (rlog st)" "on_append_entries_response_async (LevelDBLog L E) S r st = Inr (x, st')"
    and "ar_term r = c_term (context_of st)" "ar_success r"
  obtains n where "\<And>m. m \<le> n \<longleftrightarrow> match_majority (peer_set st') (lg_last (rlog st)) m"
    "map (\<lambda>(k, p). match_index p) (peer_set st') =
       map (\<lambda>(k, p). if k = ar_peer_id r then ar_last_log_index r else match_index p) (peer_set st)"
    "if commit_index (context_of st) < n \<and> (\<exists>e. LevelDBLog_entry L E (rlog st) n = Some e \<and> e_term e = c_term (context_of st))
     then commit_index (context_of st') = n \<and> m_commit_index (LevelDBLog_meta_data L E (rlog st')) = Some n
     else commit_index (context_of st') = commit_index (context_of st)"
proof -
  let ?f = "\<lambda>p. p\<lparr>latest_epoch := ar_epoch r, match_index := ar_last_log_index r, next_index := ar_last_log_index r + 1\<rparr>"
  let ?st1 = "st\<lparr>peer_set := peer_update (ar_peer_id r) ?f (peer_set st)\<rparr>"
  have t: "try_advance_commit (LevelDBLog L E) ?st1 = Inr (x, st')"
    using assms(2-4) by (auto simp: on_append_entries_response_async_def Let_def peer_update_twice split: option.splits)
  have I: "log_inv L E (rlog ?st1)" using assms(1) by simp
  show thesis
  proof (rule try_advance_commit_spec [OF I t], rule that)
    fix n assume ps: "peer_set st' = peer_set ?st1"
    show "map (\<lambda>(k, p). match_index p) (peer_set st') =
        map (\<lambda>(k, p). if k = ar_peer_id r then ar_last_log_index r else match_index p) (peer_set st)"
      unfolding ps using match_index_update [of ?f True "ar_last_log_index r"] by simp
  qed (simp_all cong: if_cong)
qed

text \<open>Any other answer changes neither the match indices nor the commit index.\<close>

lemma other_response:
  assumes "on_append_entries_response_async V S r st = Inr (x, st')" "\<not> (ar_term r = c_term (context_of st) \<and> ar_success r)"
  shows "map (\<lambda>(k, p). match_index p) (peer_set st') = map (\<lambda>(k, p). match_index p) (peer_set st) \<and>
    commit_index (context_of st') = commit_index (context_of st)"
  using assms
  by (auto simp: on_append_entries_response_async_def Let_def res_bind_Inr_iff step_down_def set_ctx_log_def become_follower_def
      peer_update_def split_beta comp_def dest!: send_append_entries_to_frame split: option.splits if_splits)

text \<open>C7: What the answer to AppendEntries does to the commit index of the node that gets it. Only a successful answer of the node's own
  term changes what it knows of the log of a peer, and that is the match index of the peer that answered. The commit index changes only
  on such an answer, and only forward, to an index that is on a majority and has an entry of the node's own term; it is stored with
  the log. If the largest index on a majority is of that kind, the commit index becomes that index.\<close>

theorem commit_needs_majority:
  assumes "log_inv L E (rlog st)" "on_append_entries_response_async (LevelDBLog L E) S r st = Inr (x, st')"
  shows "map (\<lambda>(k, p). match_index p) (peer_set st') =
      map (\<lambda>(k, p). if k = ar_peer_id r \<and> ar_term r = c_term (context_of st) \<and> ar_success r then ar_last_log_index r
        else match_index p) (peer_set st) \<and>
    (commit_index (context_of st') \<noteq> commit_index (context_of st) \<longrightarrow>
      ar_term r = c_term (context_of st) \<and> ar_success r \<and> commit_index (context_of st) < commit_index (context_of st') \<and>
      match_majority (peer_set st') (lg_last (rlog st)) (commit_index (context_of st')) \<and>
      (\<exists>e. LevelDBLog_entry L E (rlog st) (commit_index (context_of st')) = Some e \<and> e_term e = c_term (context_of st)) \<and>
      m_commit_index (LevelDBLog_meta_data L E (rlog st')) = Some (commit_index (context_of st'))) \<and>
    (\<forall>n e. ar_term r = c_term (context_of st) \<and> ar_success r \<and> commit_index (context_of st) < n \<and>
      (\<forall>m. m \<le> n \<longleftrightarrow> match_majority (peer_set st') (lg_last (rlog st)) m) \<and>
      LevelDBLog_entry L E (rlog st) n = Some e \<and> e_term e = c_term (context_of st) \<longrightarrow> commit_index (context_of st') = n)"
proof (cases "ar_term r = c_term (context_of st) \<and> ar_success r")
  case True
  show ?thesis
  proof (rule accepted_response [OF assms conjunct1 [OF True] conjunct2 [OF True]])
    fix n
    assume n: "\<And>m. m \<le> n \<longleftrightarrow> match_majority (peer_set st') (lg_last (rlog st)) m"
      "map (\<lambda>(k, p). match_index p) (peer_set st') =
         map (\<lambda>(k, p). if k = ar_peer_id r then ar_last_log_index r else match_index p) (peer_set st)"
      "if commit_index (context_of st) < n \<and> (\<exists>e. LevelDBLog_entry L E (rlog st) n = Some e \<and> e_term e = c_term (context_of st))
       then commit_index (context_of st') = n \<and> m_commit_index (LevelDBLog_meta_data L E (rlog st')) = Some n
       else commit_index (context_of st') = commit_index (context_of st)"
    have un: "k = n" if "\<forall>m. m \<le> k \<longleftrightarrow> match_majority (peer_set st') (lg_last (rlog st)) m" for k
      using that n(1) by (meson order_antisym order_refl)
    have "match_majority (peer_set st') (lg_last (rlog st)) n" using n(1) by blast
    then show ?thesis using n(2,3) un True by (auto split: if_splits)
  qed
next
  case False
  then show ?thesis using other_response [OF assms(2)] by auto
qed

theorem commit_needs_majority_witness:
  "\<exists>x st'. on_append_entries_response_async refV refS
       \<lparr>ar_term = 2, ar_success = True, ar_peer_id = 1, ar_last_log_index = 3, ar_epoch = 0\<rparr>
       (ref_follower\<lparr>peer_set := [(1, Peer 1 [] 0), (3, Peer 3 [] 0)]\<rparr>) = Inr (x, st') \<and>
     commit_index (context_of st') = 3 \<and> m_commit_index (LevelDBLog_meta_data ref_leveldb ref_codec (rlog st')) = Some 3"
proof -
  let ?st = "ref_follower\<lparr>peer_set := [(1, Peer 1 [] 0), (3, Peer 3 [] 0)]\<rparr>"
  let ?r = "\<lparr>ar_term = 2, ar_success = True, ar_peer_id = 1, ar_last_log_index = 3, ar_epoch = 0\<rparr>"
  have I: "log_inv ref_leveldb ref_codec (rlog ?st)" by (simp add: ref_follower_log)
  have e: "LevelDBLog_entry ref_leveldb ref_codec (rlog ref_follower) 3 = Some (ref_entry 2)"
    using ldb.entry_ents [OF ref_follower_log(1), of 3] by (simp add: ref_follower_log)
  obtain st' where st': "on_append_entries_response_async refV refS ?r ?st = Inr (0, st')" "commit_index (context_of st') = 3"
    using e by (simp add: on_append_entries_response_async_def Let_def peer_update_def try_advance_commit_def advance_commit_index_def
        ref_follower_log Peer_def vec_at_def ref_entry_def)
  from commit_needs_majority [OF I st'(1)] st' show ?thesis by (auto simp: ref_follower_log)
qed

text \<open>The answer to a snapshot moves the commit index under the same conditions.\<close>

lemma install_response_commit:
  assumes "log_inv L E (rlog st)" "on_install_snapshot_response_async (LevelDBLog L E) r st = Inr (x, st')"
    and "commit_index (context_of st') \<noteq> commit_index (context_of st)"
  shows "ir_term r \<le> c_term (context_of st) \<and> ir_bytes_stored r \<noteq> None \<and> commit_index (context_of st) < commit_index (context_of st') \<and>
    match_majority (peer_set st') (lg_last (rlog st)) (commit_index (context_of st')) \<and>
    (\<exists>e. LevelDBLog_entry L E (rlog st) (commit_index (context_of st')) = Some e \<and> e_term e = c_term (context_of st))"
proof -
  let ?i = "last_included_index (context_of st)"
  let ?st1 = "st\<lparr>peer_set := peer_update (ir_peer_id r) (\<lambda>p. p\<lparr>latest_epoch := ir_epoch r, match_index := ?i, next_index := ?i + 1\<rparr>) (peer_set st)\<rparr>"
  have t: "try_advance_commit (LevelDBLog L E) ?st1 = Inr (x, st')" "ir_term r \<le> c_term (context_of st)" "ir_bytes_stored r \<noteq> None"
    using assms(2,3)
    by (auto simp: on_install_snapshot_response_async_def Let_def peer_update_twice step_down_def set_ctx_log_def become_follower_def
        not_less split: option.splits if_splits)
  have I: "log_inv L E (rlog ?st1)" using assms(1) by simp
  from t(1) show ?thesis
    by (rule try_advance_commit_spec [OF I]) (use assms(3) t(2,3) in \<open>auto split: if_splits\<close>)
qed

end
