(* ===== verification/Vote_Props.thy ===== *)
theory Vote_Props
  imports Consensus_Props
begin

text \<open>
  Votes, terms and roles of one node and of the cluster: when a vote is granted and that it is
  stored first, what a restart keeps, and election safety.
\<close>

subsection \<open>One node\<close>

text \<open>C9: A vote is granted only to a candidate whose log is at least as up to date, whose term is not behind, and
  when the voter has not heard from a leader lately and has not voted for another in that term; by the time
  of the answer the term and the vote are stored, and the node is in the candidate's term.\<close>

theorem vote_granted_stored:
  assumes "sound_node L E st" "on_request_vote_request (LevelDBLog L E) now q st = (r, st')" "vr_vote_granted r"
    and "vq_candidate_id q \<noteq> 0"
  shows "(let t = (if log_ents L E (rlog st) = [] then 0 else e_term (last (log_ents L E (rlog st))))
      in t < vq_last_log_term q \<or> vq_last_log_term q = t \<and> lg_last (rlog st) \<le> vq_last_log_index q) \<and>
    c_term (context_of st) \<le> vq_term q \<and>
    \<not> fst (within now (o_withhold_votes_ms (opt st)) (withhold_votes_timer st)) \<and>
    (voted_for (context_of st) = vq_candidate_id q \<or> voted_for (context_of st) = 0 \<or> c_term (context_of st) < vq_term q) \<and>
    vr_term r = vq_term q \<and> voted_for (context_of st') = vq_candidate_id q \<and>
    m_current_term (LevelDBLog_meta_data L E (rlog st')) = Some (vq_term q) \<and>
    m_voted_for (LevelDBLog_meta_data L E (rlog st')) = Some (vq_candidate_id q)"
proof -
  note R = ldb.request_vote_ok [OF assms(1,2)]
  have G: "vr_term r = vq_term q" "c_term (context_of st') = vq_term q" "voted_for (context_of st') = vq_candidate_id q"
    using R(6) assms(3) by simp_all
  have Q: "quiet (context_of st) (context_of st')" by (rule R(2))
  have "log_is_ok (LevelDBLog L E) (rlog st) q"
    "\<not> fst (within now (o_withhold_votes_ms (opt st)) (withhold_votes_timer st))"
    using assms(2,3) by (auto simp: on_request_vote_request_def Let_def split_beta split: if_splits)
  moreover from this(1) have "let t = (if log_ents L E (rlog st) = [] then 0 else e_term (last (log_ents L E (rlog st))))
      in t < vq_last_log_term q \<or> vq_last_log_term q = t \<and> lg_last (rlog st) \<le> vq_last_log_index q"
    using ldb.last_term [of L E "rlog st"] assms(1) by (simp add: log_is_ok_def node_ok_def)
  moreover have "voted_for (context_of st) = vq_candidate_id q \<or> voted_for (context_of st) = 0 \<or> c_term (context_of st) < vq_term q"
    using Q G by (auto simp: quiet_def)
  moreover have "c_term (context_of st) \<le> vq_term q" using Q G(2) by (simp add: quiet_def)
  moreover have "vote_saved (LevelDBLog L E) (context_of st') (rlog st')" using R(1) by (simp add: node_ok_def)
  ultimately show ?thesis using G assms(4) by (simp add: vote_saved_def)
qed

lemma ref_node_ok: "i \<in> {1, 2, 3} \<Longrightarrow> sound_node ref_leveldb ref_codec (ref_node i)"
  using ldbk.init_running(1) [OF ref_log0_good ref_init] by (simp add: node_ok_def log_good_def)

theorem vote_granted_stored_witness:
  "m_voted_for (LevelDBLog_meta_data ref_leveldb ref_codec (rlog (snd ref_vote))) = Some 1"
proof -
  have "on_request_vote_request refV 2100 ref_vote_request (ref_node 2) = (fst ref_vote, snd ref_vote)"
    by (simp add: ref_vote_def)
  from vote_granted_stored [OF ref_node_ok this] show ?thesis by (simp add: ref_vote_fields ref_vote_request_def)
qed

text \<open>A response that carries a larger term makes any node a follower of that term without a vote, whatever the kind
  of the response, and the term is stored.\<close>

theorem response_steps_down:
  assumes "sound_node L E st" "c_term (context_of st) < t"
  shows "\<exists>st'. (\<forall>now g b ok ep. on_request_vote_response_async (LevelDBLog L E) now \<lparr>vr_term = t, vr_vote_granted = g, vr_peer_id = p, vr_log_ok = ok, vr_epoch = ep\<rparr> st
        = Inr (0, st') \<and>
      on_append_entries_response_async (LevelDBLog L E) S \<lparr>ar_term = t, ar_success = ok, ar_peer_id = p, ar_last_log_index = i, ar_epoch = ep\<rparr> st
        = Inr (0, st') \<and>
      on_install_snapshot_response_async (LevelDBLog L E) \<lparr>ir_term = t, ir_peer_id = p, ir_bytes_stored = b, ir_epoch = ep\<rparr> st = Inr (0, st')) \<and>
    role (context_of st') = kFollower \<and> c_term (context_of st') = t \<and> voted_for (context_of st') = 0 \<and>
    leader_id (context_of st') = 0 \<and> log_ents L E (rlog st') = log_ents L E (rlog st) \<and>
    m_current_term (LevelDBLog_meta_data L E (rlog st')) = Some t"
proof -
  let ?st' = "step_down (LevelDBLog L E) t p st"
  have I: "log_inv L E (rlog st)" using assms(1) by (simp add: node_ok_def)
  let ?bf = "become_follower (LevelDBLog L E) t (context_of st) (rlog st)"
  have B: "log_inv L E (snd ?bf)" "log_ents L E (snd ?bf) = log_ents L E (rlog st)"
    using I assms(2) ldb.update_metaD [OF I] by (simp_all add: become_follower_def Let_def)
  have "role (context_of ?st') = kFollower" "c_term (context_of ?st') = t" "voted_for (context_of ?st') = 0"
    "leader_id (context_of ?st') = 0"
    using assms(2) by (simp_all add: step_down_def set_ctx_log_def ctx_simps Let_def)
  moreover have "log_ents L E (rlog ?st') = log_ents L E (rlog st)"
    "m_current_term (LevelDBLog_meta_data L E (rlog ?st')) = Some t"
    using B set_meta_frame(2) [OF B(1)] set_meta_value(1) [OF B(1)] by (simp_all add: step_down_def set_ctx_log_def Let_def)
  ultimately show ?thesis
    using assms(2)
    by (intro exI [of _ ?st'])
      (simp add: on_request_vote_response_async_def on_append_entries_response_async_def on_install_snapshot_response_async_def)
qed

theorem response_steps_down_witness:
  "\<exists>st'. on_append_entries_response_async refV refS \<lparr>ar_term = 9, ar_success = True, ar_peer_id = 1, ar_last_log_index = 3, ar_epoch = 0\<rparr>
      ref_follower = Inr (0, st') \<and> c_term (context_of st') = 9"
  using response_steps_down [OF ref_follower_ok, of 9 1 refS 3] by (auto simp: ref_follower_log)

text \<open>What a successful start on the database of a node takes over from it.\<close>

lemma restart_fields:
  assumes "node_ok (LevelDBLog L E) (log_good L E) st" "unat (lg_last (rlog st)) < reopen_limit"
    and "LevelDBLog_reopen L E (rlog st) = Inr l" "o_id o0 = c_id (context_of st)"
    and "RaftConsensus_init (LevelDBLog L E) now rnd o0 l kv = Inr (Running st')"
  shows "c_term (context_of st') = c_term (context_of st) \<and> role (context_of st') = kFollower \<and>
    voted_for (context_of st') = opt_u64 (m_voted_for (LevelDBLog_meta_data L E (rlog st))) \<and>
    (voted_for (context_of st) = 0 \<or> voted_for (context_of st') = voted_for (context_of st)) \<and>
    log_ents L E (rlog st') = log_ents L E (rlog st)"
proof -
  have G: "log_good L E (rlog st)" using assms(1) by (simp add: node_ok_def)
  have l: "log_good L E l" "LevelDBLog_meta_data L E l = LevelDBLog_meta_data L E (rlog st)"
    using ldbc.reopen_spec [OF G _ assms(3)] assms(2) by simp_all
  have ents: "log_ents L E l = log_ents L E (rlog st)"
  proof -
    have "l = (if log_ents L E (rlog st) = [] then (rlog st)\<lparr>lg_start := 1, lg_last := 0\<rparr> else rlog st)"
      using assms(3) reopen_scan [of L E "rlog st"] G assms(2) by (simp add: LevelDBLog_reopen_def log_good_def reopen_limit_def)
    then show ?thesis by (simp add: log_ents_def)
  qed
  note I = ldbk.init_running [OF l(1) assms(5)]
  have saved: "m_current_term (LevelDBLog_meta_data L E l) = Some (c_term (context_of st))"
    "voted_for (context_of st) \<noteq> 0 \<longrightarrow> m_voted_for (LevelDBLog_meta_data L E l) = Some (voted_for (context_of st))"
    using assms(1) l(2) by (simp_all add: node_ok_def vote_saved_def)
  have c: "c_term (context_of st') = c_term (context_of st)" "role (context_of st') = kFollower"
      "voted_for (context_of st') = opt_u64 (m_voted_for (LevelDBLog_meta_data L E (rlog st)))"
    using saved l(2) by (simp_all add: I(2) load_context_def Let_def Context_def opt_u64_def split: option.splits)
  moreover have "log_ents L E (rlog st') = log_ents L E (rlog st)"
    using ldbk.init_running_ents [OF l(1) assms(5)] ents by simp
  ultimately show ?thesis using saved(2) l(2) by (auto simp: opt_u64_def)
qed

text \<open>C23: A node that stops at any point and is started again on its database, and whose start succeeds, is a follower with the term and the
  entries it had, and its vote is the one the database holds (0 if there is none). If the node had voted in its term, that is the vote it had.
  If it had not, the database can hold a vote all the same, which the node then believes to have given: see \<open>restart_after_step_down\<close>. The last index is assumed to be
  below the limit of the constructor's scan.\<close>

theorem restart_keeps_vote:
  assumes "node_ok (LevelDBLog L E) (log_good L E) st" "unat (lg_last (rlog st)) < reopen_limit"
    and "LevelDBLog_reopen L E (rlog st) = Inr l" "o_id o0 = c_id (context_of st)"
    and "RaftConsensus_init (LevelDBLog L E) now rnd o0 l kv = Inr (Running st')"
  shows "c_term (context_of st') = c_term (context_of st) \<and> role (context_of st') = kFollower \<and>
    voted_for (context_of st') = opt_u64 (m_voted_for (LevelDBLog_meta_data L E (rlog st))) \<and>
    (voted_for (context_of st) = 0 \<or> voted_for (context_of st') = voted_for (context_of st)) \<and>
    log_ents L E (rlog st') = log_ents L E (rlog st)"
  by (rule restart_fields [OF assms])

text \<open>A node that meets a larger term in a response has no vote in that term, but stores the peer that answered as its vote: after a
  restart it has voted for that peer.\<close>

theorem restart_after_step_down:
  fixes st :: "('db leveldb_log, 's) raft"
  assumes "node_ok (LevelDBLog L E) (log_good L E) st" "c_term (context_of st) < t"
    and "on_append_entries_response_async (LevelDBLog L E) S \<lparr>ar_term = t, ar_success = ok, ar_peer_id = p, ar_last_log_index = i, ar_epoch = ep\<rparr> st
      = Inr (x, st1)"
    and "unat (lg_last (rlog st1)) < reopen_limit" "LevelDBLog_reopen L E (rlog st1) = Inr l" "o_id o0 = c_id (context_of st1)"
    and "RaftConsensus_init (LevelDBLog L E) now rnd o0 l kv = Inr (Running st')"
  shows "voted_for (context_of st1) = 0 \<and> voted_for (context_of st') = p"
proof -
  have st1: "st1 = step_down (LevelDBLog L E) t p st" using assms(2,3) by (simp add: on_append_entries_response_async_def)
  have "kept (LevelDBLog L E) (log_good L E) st st1" unfolding st1 by (rule ldbk.step_down_kept [OF assms(1,2)])
  then have ok: "node_ok (LevelDBLog L E) (log_good L E) st1" by (simp add: kept_def)
  have "log_inv L E (snd (become_follower (LevelDBLog L E) t (context_of st) (rlog st)))"
    using assms(1,2) ldb.update_metaD [of L E "rlog st"] by (simp add: become_follower_def Let_def node_ok_def log_good_def)
  from set_meta_value(1) [OF this] have "m_voted_for (LevelDBLog_meta_data L E (rlog st1)) = Some p"
    by (simp add: st1 step_down_def set_ctx_log_def Let_def meta_empty_def opt_u64_def)
  with restart_fields [OF ok assms(4-7)] have "voted_for (context_of st') = p" by (simp add: opt_u64_def)
  then show ?thesis using assms(2) by (simp add: st1 step_down_def set_ctx_log_def ctx_simps Let_def)
qed

lemma ref_candidate_log:
  "node_ok refV (log_good ref_leveldb ref_codec) ref_candidate" "lg_last (rlog ref_candidate) = 0"
  "c_id (context_of ref_candidate) = 1" "voted_for (context_of ref_candidate) = 1" "c_term (context_of ref_candidate) = 1"
  "LevelDBLog_reopen ref_leveldb ref_codec (rlog ref_candidate) = Inr (rlog ref_candidate)"
proof -
  have N: "node_ok refV (log_good ref_leveldb ref_codec) (ref_node 1)"
    by (rule ldbk.init_running(1) [OF ref_log0_good ref_init]) simp
  have "c_term (context_of (ref_node 1)) \<noteq> - 1" by (simp add: ref_node_def Context_def)
  from ldbk.main_thread_act_kept [OF N this ref_tick] show ok: "node_ok refV (log_good ref_leveldb ref_codec) ref_candidate" by simp
  show z: "lg_last (rlog ref_candidate) = 0" "c_id (context_of ref_candidate) = 1" "voted_for (context_of ref_candidate) = 1"
    "c_term (context_of ref_candidate) = 1"
    using ref_log_simps2(3) by (simp_all add: ref_candidate_fields Context_def)
  have s: "lg_start (rlog ref_candidate) = 1" "log_ents ref_leveldb ref_codec (rlog ref_candidate) = []"
    using ref_log_simps2(2,4) by (simp_all add: ref_candidate_fields)
  have "(rlog ref_candidate)\<lparr>lg_start := 1, lg_last := 0\<rparr> = rlog ref_candidate"
    using s(1) z(1) by (metis leveldb_log.surjective leveldb_log.update_convs(1,2) leveldb_log.select_convs(1,2))
  then show "LevelDBLog_reopen ref_leveldb ref_codec (rlog ref_candidate) = Inr (rlog ref_candidate)"
    using reopen_scan [of ref_leveldb ref_codec "rlog ref_candidate"] ok z(1) s(2)
    by (simp add: LevelDBLog_reopen_def node_ok_def log_good_def)
qed

theorem restart_keeps_vote_witness:
  "\<exists>st'. RaftConsensus_init refV 5000 7 (ref_option 1) (rlog ref_candidate) ref_store0 = Inr (Running st') \<and>
     c_term (context_of st') = 1 \<and> voted_for (context_of st') = 1 \<and> role (context_of st') = kFollower"
proof -
  have v: "validate ((ref_option 1)\<lparr>o_withhold_votes_ms := o_election_timeout_ms (ref_option 1)\<rparr>)" "\<not> o_bootstrap (ref_option 1)"
    by (simp_all add: ref_option_def validate_def)
  have G: "log_good ref_leveldb ref_codec (rlog ref_candidate)" using ref_candidate_log(1) by (simp add: node_ok_def)
  have "meta_data refV ref_log0 = meta_empty"
    by (simp add: LevelDBLog_meta_data_def meta_empty_def ref_log0_def ref_leveldb_def)
  then have "meta_apply_index refV (rlog ref_candidate) = 0"
    using ldbk.apply_of_meta [OF G] ldbk.update_metaD(5) [OF ref_log_simps(1)] ldbk.update_metaD(5) [OF ref_log0_good]
    by (simp add: ref_candidate_fields meta_empty_def del: LevelDBLog_sel)
  then obtain st' where st': "RaftConsensus_init refV 5000 7 (ref_option 1) (rlog ref_candidate) ref_store0 = Inr (Running st')"
    using ldbk.init_starts [OF G v, of 5000 7 ref_store0] by (auto simp del: LevelDBLog_sel)
  have "o_id (ref_option 1) = c_id (context_of ref_candidate)" by (simp add: ref_option_def ref_candidate_log)
  note R = restart_keeps_vote [OF ref_candidate_log(1) _ ref_candidate_log(6) this st']
  have "unat (lg_last (rlog ref_candidate)) < reopen_limit" by (simp add: ref_candidate_log reopen_limit_def)
  from R [OF this] ref_candidate_log(4,5) st' show ?thesis by (metis zero_neq_one)
qed

subsection \<open>The cluster\<close>

abbreviation kan_reach where
  "kan_reach L E S P M cl \<equiv> cluster_reach (LevelDBLog L E) (log_good L E) S P (LevelDBLog_reopen L E) M cl"

text \<open>C1: Election safety. In every state a cluster can reach, whatever messages were lost, repeated or reordered and
  whichever nodes were stopped and started again, two leaders of one term are the same node.\<close>

theorem election_safety:
  assumes "kan_reach L E S P M cl" "i \<in> M" "j \<in> M"
    and "role (context_of (nodes cl i)) = kLeader" "role (context_of (nodes cl j)) = kLeader"
    and "c_term (context_of (nodes cl i)) = c_term (context_of (nodes cl j))"
  shows "i = j"
  by (rule inv_one_leader [OF ldbc.reach_inv [OF assms(1)] assms(2-)])

theorem election_safety_witness:
  "ref_reach ref_cluster3 \<and> role (context_of (nodes ref_cluster3 1)) = kLeader \<and>
     \<not> (role (context_of (nodes ref_cluster3 2)) = kLeader \<and> c_term (context_of (nodes ref_cluster3 2)) = 1)"
  using election_safety [OF ref_reach3, of 1 2] by (auto simp: ref_reach3 ref_cluster3_leader)

text \<open>C11: A node votes at most once per term, also across restarts: two granted votes of one node for one term
  went to the same candidate.\<close>

theorem one_vote_per_term:
  assumes "kan_reach L E S P M cl" "granted cl c p t" "granted cl c' p t"
  shows "c = c'"
  by (rule votes_boundD(5) [OF cluster_invD(5) [OF ldbc.reach_inv [OF assms(1)]] assms(2,3)])

theorem one_vote_per_term_witness: "granted ref_cluster3 1 2 1 \<and> (1::u64) = 1"
  using ref_granted one_vote_per_term [OF ref_reach3 ref_granted ref_granted] by (rule conjI)

text \<open>A granted vote is durable: as long as the voter is still in that term, its database holds the term and the
  candidate, so that a restart cannot undo it.\<close>

theorem granted_vote_on_disk:
  assumes "kan_reach L E S P M cl" "granted cl c p (c_term (context_of (nodes cl p)))"
  shows "m_current_term (LevelDBLog_meta_data L E (rlog (nodes cl p))) = Some (c_term (context_of (nodes cl p))) \<and>
    m_voted_for (LevelDBLog_meta_data L E (rlog (nodes cl p))) = Some c"
proof -
  have I: "cluster_inv (LevelDBLog L E) (log_good L E) M cl" by (rule ldbc.reach_inv [OF assms(1)])
  note B = votes_boundD [OF cluster_invD(5) [OF I] assms(2)]
  have "c \<noteq> 0" "voted_for (context_of (nodes cl p)) = c" using cluster_invD(2) [OF I] B(1,4) by auto
  moreover have "vote_saved (LevelDBLog L E) (context_of (nodes cl p)) (rlog (nodes cl p))"
    using cluster_invD(4) [OF I B(2)] by (simp add: node_ok_def)
  ultimately show ?thesis by (simp add: vote_saved_def)
qed

theorem granted_vote_on_disk_witness:
  "m_voted_for (LevelDBLog_meta_data ref_leveldb ref_codec (rlog (nodes ref_cluster3 2))) = Some 1"
proof -
  have "on_request_vote_request refV 2100 ref_vote_request (ref_node 2) = (fst ref_vote, snd ref_vote)"
    by (simp add: ref_vote_def)
  then have "c_term (context_of (nodes ref_cluster3 2)) = 1"
    using ldb.request_vote_ok(6) [OF ref_node_ok, of 2] by (simp add: ref_cluster3_def ref_cluster2_def ref_vote_fields ref_vote_request_def)
  then show ?thesis using granted_vote_on_disk [OF ref_reach3, of 1 2] ref_granted by simp
qed

text \<open>C10: A leader was elected: more than half of the members are itself or have granted it their vote in its
  term.\<close>

theorem leader_has_majority:
  assumes "kan_reach L E S P M cl" "i \<in> M" "role (context_of (nodes cl i)) = kLeader"
  shows "card {p \<in> M. p = i \<or> granted cl i p (c_term (context_of (nodes cl i)))} > card M div 2"
proof -
  have I: "cluster_inv (LevelDBLog L E) (log_good L E) M cl" by (rule ldbc.reach_inv [OF assms(1)])
  let ?Q = "quorum_granted (context_of (nodes cl i))"
  have "?Q \<subseteq> {p \<in> M. p = i \<or> granted cl i p (c_term (context_of (nodes cl i)))}" "card ?Q > card M div 2"
    using cluster_invD(7) [OF I] assms(2,3) by (auto simp: votes_counted_def Let_def)
  then show ?thesis
    using card_mono [of "{p \<in> M. p = i \<or> granted cl i p (c_term (context_of (nodes cl i)))}" ?Q] cluster_invD(1) [OF I] by simp
qed

theorem leader_has_majority_witness:
  "card {p \<in> {1, 2, 3}. p = 1 \<or> granted ref_cluster3 1 p 1} > 1"
  using leader_has_majority [OF ref_reach3, of 1] by (simp add: ref_cluster3_leader)

end
