(* ===== verification/Replication_Props.thy ===== *)
theory Replication_Props
  imports Ref_Split Vote_Props
begin

text \<open>
  The logs of a cluster: they match in every run in which a node acts on a decision it took as the leader
  only while it leads, and there is a run of the sources in which they do not. For a new cluster, the
  committed parts of all logs agree and every leader has what was committed.
\<close>

abbreviation kan_led where
  "kan_led L E S P M cl \<equiv>
     led_reach (LevelDBLog L E) (log_ents L E) (log_good L E) S P (LevelDBLog_reopen L E) M cl"

text \<open>C4: Log matching. In every state that a cluster reaches from logs that are prefixes of one log, by
  steps in which heartbeats, answers to appends and client appends of a former leader are not acted on
  and no log is compacted, two logs that have entries of the same term at some position agree up to it.\<close>

theorem log_matching:
  assumes "kan_led L E S P M cl" "i \<in> M" "j \<in> M"
    and "k < length (log_ents L E (rlog (nodes cl i)))" "k < length (log_ents L E (rlog (nodes cl j)))"
    and "e_term (log_ents L E (rlog (nodes cl i)) ! k) = e_term (log_ents L E (rlog (nodes cl j)) ! k)"
  shows "take (Suc k) (log_ents L E (rlog (nodes cl i))) = take (Suc k) (log_ents L E (rlog (nodes cl j)))"
  by (rule ldbc.led_log_matching [OF assms])

theorem log_matching_witness:
  "take (Suc 0) (log_ents ref_leveldb ref_codec (rlog (nodes ref_cluster6 1))) =
     take (Suc 0) (log_ents ref_leveldb ref_codec (rlog (nodes ref_cluster6 2))) \<and>
   log_ents ref_leveldb ref_codec (rlog (nodes ref_cluster6 1)) = [noop_entry 1]"
  using log_matching [OF fresh_reach_led [OF ref_fresh6], of 1 2 0] by (simp add: ref_nodes6 ref_committed_log ref_stores(3))

abbreviation kan_fresh where
  "kan_fresh L E S P M cl \<equiv>
     fresh_reach (LevelDBLog L E) (log_ents L E) (log_good L E) S P (LevelDBLog_reopen L E) M cl"

text \<open>C2: State machine safety. In every state that a new cluster reaches by such steps, whatever messages were
  lost, repeated or reordered and whichever nodes were restarted, two nodes have the same entries up to any index that
  both have committed, and a committed index is in the log.\<close>

theorem committed_entries_agree:
  assumes "kan_fresh L E S P M cl" "i \<in> M" "j \<in> M"
    and "c \<le> unat (commit_index (context_of (nodes cl i)))" "c \<le> unat (commit_index (context_of (nodes cl j)))"
  shows "take c (log_ents L E (rlog (nodes cl i))) = take c (log_ents L E (rlog (nodes cl j))) \<and>
    c \<le> length (log_ents L E (rlog (nodes cl i)))"
  using ldbc.fresh_committed [OF assms] by (rule conjI)

theorem committed_entries_agree_witness:
  "commit_index (context_of (nodes ref_cluster7 1)) = 1 \<and> commit_index (context_of (nodes ref_cluster7 2)) = 1 \<and>
   take 1 (log_ents ref_leveldb ref_codec (rlog (nodes ref_cluster7 1))) =
     take 1 (log_ents ref_leveldb ref_codec (rlog (nodes ref_cluster7 2)))"
  using committed_entries_agree [OF ref_fresh7, of 1 2 1] by (simp add: ref_nodes7 ref_leader7 ref_knows_fields)

text \<open>C3: Leader completeness. In such a state the log of a leader starts with everything that any node in the leader's
  term or before has committed.\<close>

theorem leader_has_committed:
  assumes "kan_fresh L E S P M cl" "i \<in> M" "j \<in> M" "role (context_of (nodes cl j)) = kLeader"
    and "c_term (context_of (nodes cl i)) \<le> c_term (context_of (nodes cl j))"
  shows "prefix (take (unat (commit_index (context_of (nodes cl i)))) (log_ents L E (rlog (nodes cl i))))
    (log_ents L E (rlog (nodes cl j)))"
  by (rule ldbc.fresh_leader_complete [OF assms])

theorem leader_has_committed_witness:
  "take 1 (log_ents ref_leveldb ref_codec (rlog (nodes ref_cluster7 2))) = [noop_entry 1] \<and>
   prefix [noop_entry 1] (log_ents ref_leveldb ref_codec (rlog (nodes ref_cluster7 1)))"
  using leader_has_committed [OF ref_fresh7, of 2 1] by (simp add: ref_nodes7 ref_leader7 ref_knows_fields)

text \<open>C35: Without that restriction log matching fails: a cluster of three nodes reaches a state in which two
  logs have different entries of the same term at the same position.\<close>

theorem log_matching_breaks:
  "\<exists>cl. kan_reach ref_leveldb ref_codec refS ref_proto {1, 2, 3} cl \<and>
    (let xs = log_ents ref_leveldb ref_codec (rlog (nodes cl 1)); ys = log_ents ref_leveldb ref_codec (rlog (nodes cl 2))
     in length xs = 1 \<and> length ys = 1 \<and> e_term (xs ! 0) = e_term (ys ! 0) \<and> xs ! 0 \<noteq> ys ! 0)"
proof -
  have "let xs = log_ents ref_leveldb ref_codec (rlog (nodes split_cluster4 1));
      ys = log_ents ref_leveldb ref_codec (rlog (nodes split_cluster4 2))
    in length xs = 1 \<and> length ys = 1 \<and> e_term (xs ! 0) = e_term (ys ! 0) \<and> xs ! 0 \<noteq> ys ! 0"
    using split_append(2) split_leader_log(2)
    by (simp add: split_nodes split_beaten_def split_entry_def noop_entry_def)
  with split_reach4 show ?thesis by blast
qed

end
