(* ===== verification/Machine_Props.thy ===== *)
theory Machine_Props
  imports Vote_Props
begin

text \<open>
  The state machine on the LevelDB log and store: the apply loop refines the replay of the log,
  results reach their clients once, and what installing a snapshot does to a node; and the
  client operations of the consensus module.
\<close>

interpretation kan: node_env "LevelDBLog L E" "log_ents L E" "log_inv L E" "LevelDBStore D F P" "store_map D" "store_inv D" P
  for L E D F P
  by (intro node_env.intro ldb.log_if_axioms lst.store_if_axioms)

subsection \<open>The apply loop\<close>

text \<open>C6: The apply loop refines the replay of the log: started with committed entries to apply and no snapshot under way,
  it returns to waiting after one pass per entry, without a fault; the apply index, in memory and on disk, is then the commit
  index, the log is unchanged, and the stored map is the old one with the commands of the entries after the old apply index executed in
  log order.\<close>

theorem apply_loop_replays:
  assumes "log_inv L E l" "store_inv D kv" "sm_progress sm = kDone"
    and "LevelDBLog_meta_commit_index L E l = c" "sm_apply sm < c" "c \<le> lg_last l" "lg_start l \<le> sm_apply sm + 1"
    and "\<forall>e \<in> set (log_ents L E l). e_type e \<noteq> kConfigure"
  shows "\<exists>sm' l' kv'. sm_run (Suc (unat c - unat (sm_apply sm))) (LevelDBLog L E) (LevelDBStore D F P) P sm l kv =
      Some (Inr (sm', l', kv')) \<and> log_inv L E l' \<and> log_ents L E l' = log_ents L E l \<and>
    sm_apply sm' = c \<and> LevelDBLog_meta_apply_index L E l' = c \<and>
    store_map D kv' = replay P (take (unat c - unat (sm_apply sm))
      (drop (unat (sm_apply sm + 1) - unat (lg_start l)) (log_ents L E l))) (store_map D kv)"
  using kan.sm_run_replay [where n = "Suc (unat c - unat (sm_apply sm))", OF assms(1-3)] assms(4-) by fastforce

definition ref_write_entry :: "string \<Rightarrow> string \<Rightarrow> entry" where
  "ref_write_entry k v = \<lparr>e_type = kNormal, e_term = 2, e_data = Some (CHR 0x01 # enc_str k @ enc_str v), e_context = None\<rparr>"

definition ref_log_w :: "ref_db leveldb_log" where
  "ref_log_w = snd (LevelDBLog_set_meta_commit_index ref_leveldb ref_codec
     (snd (LevelDBLog_append ref_leveldb ref_codec ref_log3 [ref_write_entry ''k'' ''v''])) 4)"

lemma ref_log_w_facts:
  "log_inv ref_leveldb ref_codec ref_log_w"
  "log_ents ref_leveldb ref_codec ref_log_w = [ref_entry 1, ref_entry 1, ref_entry 2, ref_write_entry ''k'' ''v'']"
  "lg_start ref_log_w = 1" "lg_last ref_log_w = 4" "LevelDBLog_meta_commit_index ref_leveldb ref_codec ref_log_w = 4"
proof -
  let ?e = "ref_write_entry ''k'' ''v''"
  let ?l = "snd (LevelDBLog_append ref_leveldb ref_codec ref_log3 [?e])"
  have A: "log_inv ref_leveldb ref_codec ?l" "log_ents ref_leveldb ref_codec ?l = [ref_entry 1, ref_entry 1, ref_entry 2, ?e]"
      "lg_start ?l = 1"
    using ldb.append_spec [OF ref_log3_facts(1), of "[?e]"] by (simp_all add: ref_log3_facts)
  have "unat (lg_last ?l) = 4" using ldb.append_last [OF ref_log3_facts(1), of "[?e]"] by (simp add: ref_log3_facts)
  then have "lg_last ?l = 4" by (simp add: word_unat_eq_iff)
  with A ldb.set_commit_spec [OF A(1), of 4] ldb.last_index_frame(2) [OF A(1), of 4]
    ldb.commit_of_meta [of ref_leveldb ref_codec ref_log_w]
  show "log_inv ref_leveldb ref_codec ref_log_w"
    "log_ents ref_leveldb ref_codec ref_log_w = [ref_entry 1, ref_entry 1, ref_entry 2, ?e]"
    "lg_start ref_log_w = 1" "lg_last ref_log_w = 4" "LevelDBLog_meta_commit_index ref_leveldb ref_codec ref_log_w = 4"
    by (simp_all add: ref_log_w_def)
qed

lemma ref_write_parse: "ref_unmarshal_update (CHR 0x01 # enc_str k @ enc_str v) = Some \<lparr>uq_write = Some (k, v), uq_remove = None\<rparr>"
  using dec_enc_str [of v "[]"] by (simp add: ref_unmarshal_update_def)

theorem apply_loop_replays_witness:
  "\<exists>sm' l' kv'. sm_run 5 refV refS ref_proto StateMachine ref_log_w ref_store0 = Some (Inr (sm', l', kv')) \<and>
     store_map ref_leveldb kv' = [''k'' \<mapsto> ''v''] \<and> LevelDBLog_meta_apply_index ref_leveldb ref_codec l' = 4"
proof -
  have nc: "\<forall>e \<in> set (log_ents ref_leveldb ref_codec ref_log_w). e_type e \<noteq> kConfigure"
    by (simp add: ref_log_w_facts ref_entry_def ref_write_entry_def)
  have "replay ref_proto [ref_entry 1, ref_entry 1, ref_entry 2, ref_write_entry ''k'' ''v''] (store_map ref_leveldb ref_store0) = [''k'' \<mapsto> ''v'']"
    by (simp add: replay_entry_def ref_entry_def ref_write_entry_def entry_data_def ref_proto_def ref_write_parse update_map_def)
      (simp add: ref_unmarshal_update_def Let_def split_beta store_map_def ref_leveldb_def ref_store0_def)
  then show ?thesis
    using apply_loop_replays [where sm = StateMachine and c = 4 and kv = ref_store0 and F = ref_files and P = ref_proto,
        OF ref_log_w_facts(1) ref_store_inv] nc
    by (auto simp: ref_log_w_facts StateMachine_def)
qed

text \<open>The result of an applied command is handed out once: after a pass that executes a well-formed command, the result of
  its index is there, taking it returns it, and taking it again returns nothing.\<close>

theorem apply_result_once:
  assumes "log_inv L E l" "store_inv D kv" "sm_progress sm = kDone"
    and "LevelDBLog_meta_commit_index L E l = c" "sm_apply sm < c" "c \<le> lg_last l" "lg_start l \<le> sm_apply sm + 1"
    and "e = log_ents L E l ! (unat (sm_apply sm + 1) - unat (lg_start l))" "e_type e = kNormal"
    and "unmarshal_update_request P (entry_data e) = Some r" "fst (update_map r (store_map D kv)) = 0"
  shows "\<exists>ctl sm' l' kv' sm2. sm_step (LevelDBLog L E) (LevelDBStore D F P) P sm l kv = Inr (ctl, sm', l', kv') \<and>
    fetch_response_msg (sm_apply sm + 1) sm' = (Some ''success at statemachine'', sm2) \<and>
    fetch_response_msg (sm_apply sm + 1) sm2 = (None, sm2)"
proof -
  have le: "sm_apply sm + 1 \<le> lg_last l" using assms(5,6) by (metis inc_le order_trans)
  have ent: "LevelDBLog_entry L E l (sm_apply sm + 1) = Some e"
    using ldb.entry_ents [OF assms(1), of "sm_apply sm + 1"] assms(7,8) le by simp
  have ret: "fst (LevelDBStore_update_handle D kv r) = 0"
    using lst.update_spec [OF assms(2), of F P r] assms(11) by (simp add: prod_eq_iff)
  have "\<not> c < sm_apply sm" "c \<noteq> sm_apply sm" using assms(5) by auto
  then show ?thesis
    using assms(3,4,9,10) ent ret
    by (simp add: sm_step_def sm_apply_entry_def do_apply_def split_beta fetch_response_msg_def)
qed

theorem apply_result_once_witness:
  "\<exists>ctl sm' l' kv'. sm_step refV refS ref_proto (StateMachine\<lparr>sm_apply := 3\<rparr>) ref_log_w ref_store0 = Inr (ctl, sm', l', kv') \<and>
     fst (fetch_response_msg 4 sm') = Some ''success at statemachine''"
proof -
  let ?sm = "StateMachine\<lparr>sm_apply := 3\<rparr>" and ?e = "ref_write_entry ''k'' ''v''"
  have p: "unmarshal_update_request ref_proto (entry_data ?e) = Some \<lparr>uq_write = Some (''k'', ''v''), uq_remove = None\<rparr>"
    by (simp add: ref_proto_def entry_data_def ref_write_entry_def ref_write_parse)
  have u: "fst (update_map \<lparr>uq_write = Some (''k'', ''v''), uq_remove = None\<rparr> m) = 0" for m
    by (simp add: update_map_def)
  have "\<exists>ctl sm' l' kv' sm2. sm_step refV refS ref_proto ?sm ref_log_w ref_store0 = Inr (ctl, sm', l', kv') \<and>
    fetch_response_msg (sm_apply ?sm + 1) sm' = (Some ''success at statemachine'', sm2) \<and>
    fetch_response_msg (sm_apply ?sm + 1) sm2 = (None, sm2)"
    by (rule apply_result_once [OF ref_log_w_facts(1) ref_store_inv _ _ _ _ _ _ _ p u, where c = 4])
      (simp_all add: ref_log_w_facts StateMachine_def ref_write_entry_def)
  then show ?thesis by (auto simp: StateMachine_def)
qed

end
