(* ===== verification/Client_Props.thy ===== *)
theory Client_Props
  imports Machine_Props
begin

text \<open>
  Client operations on a node and the installation of snapshots: where an update goes in the log
  and when it may be answered, what a node is after it installed a snapshot, and two places
  where the code does not do what it means to.
\<close>

subsection \<open>Updates\<close>

lemma modify_append_entry:
  assumes "sound_node L E st" "log_room (LevelDBLog L E) 1 st" "modify_begin cmd st = Some e"
    and "modify_append (LevelDBLog L E) e st = ((t, i), st')"
  shows "t = c_term (context_of st) \<and> i = lg_last (rlog st) + 1 \<and>
    log_ents L E (rlog st') = log_ents L E (rlog st) @ [e] \<and> LevelDBLog_entry L E (rlog st') i = Some e \<and>
    e_data e = Some cmd \<and> is_leader st \<and> sound_node L E st'"
proof -
  have I: "log_inv L E (rlog st)" using assms(1) by (simp add: node_ok_def)
  have room: "unat (lg_last (rlog st)) + length [e] < 2 ^ 64 - 1" using assms(2) by (simp add: log_room_def)
  let ?l = "snd (LevelDBLog_append L E (rlog st) [e])"
  have A: "log_inv L E ?l" "log_ents L E ?l = log_ents L E (rlog st) @ [e]" "lg_start ?l = lg_start (rlog st)"
    using ldb.append_spec [OF I, of "[e]"] room by simp_all
  have lst: "lg_last ?l = lg_last (rlog st) + 1"
    using append_unfold [of L E "rlog st" "[e]"] log_invD(2) [OF I] by (simp add: Let_def)
  have st': "st' = st\<lparr>rlog := ?l, heartbeat_timer := set_urgent (heartbeat_timer st)\<rparr>"
      "(t, i) = LevelDBLog_last_term_and_index L E ?l"
    using assms(4) by (simp_all add: modify_append_def Let_def)
  have e: "e_term e = c_term (context_of st)" "e_data e = Some cmd" "is_leader st"
    using assms(3) by (auto simp: modify_begin_def split: if_splits)
  have ti: "t = e_term e" "i = lg_last (rlog st) + 1"
    using ldb.last_term [OF A(1)] st'(2) A(2) lst by simp_all
  have "lg_start ?l \<le> lg_last ?l"
    using ldb.last_eq [OF A(1)] A(2) by (simp add: idx_order)
  then have "LevelDBLog_entry L E ?l (lg_last ?l) = Some (log_ents L E ?l ! (unat (lg_last ?l) - unat (lg_start ?l)))"
    using ldb.entry_ents [OF A(1), of "lg_last ?l"] by simp
  moreover have "unat (lg_last ?l) - unat (lg_start ?l) = length (log_ents L E (rlog st))"
    using ldb.last_eq [OF A(1)] A(2) by simp
  ultimately have "LevelDBLog_entry L E ?l i = Some e" using A(2) ti(2) lst by simp
  moreover have "sound_node L E st'"
    using ldb.modify_append_kept [OF assms(1,2,4)] by (simp add: kept_def)
  ultimately show ?thesis using ti e A(2) st'(1) by simp
qed

text \<open>C26: An update that reaches the log is its last entry, and the term and index the client waits for are those of this entry:
  on a node that has not changed in between, its own term and the index after the old last one.\<close>

theorem modify_aims_at_entry:
  assumes "sound_node L E st" "log_room (LevelDBLog L E) 1 st" "modify_begin cmd st = Some e"
    and "modify_append (LevelDBLog L E) e st = ((t, i), st')"
  shows "t = c_term (context_of st) \<and> i = lg_last (rlog st) + 1 \<and>
    log_ents L E (rlog st') = log_ents L E (rlog st) @ [e] \<and> LevelDBLog_entry L E (rlog st') i = Some e \<and>
    e_data e = Some cmd \<and> is_leader st \<and> sound_node L E st'"
  by (rule modify_append_entry [OF assms])

text \<open>A leader with the log of \<open>ref_follower\<close>.\<close>

definition ref_old_leader :: "(ref_db leveldb_log, (ref_db, (string \<times> string) list) leveldb_store) raft" where
  "ref_old_leader = ref_follower\<lparr>context_of := (context_of ref_follower)\<lparr>leader_id := 2, role := kLeader\<rparr>\<rparr>"

lemma ref_old_leader_facts:
  "sound_node ref_leveldb ref_codec ref_old_leader" "log_room refV 1 ref_old_leader" "is_leader ref_old_leader"
  "c_term (context_of ref_old_leader) = 2" "rlog ref_old_leader = rlog ref_follower"
  "c_id (context_of ref_old_leader) = 2" "leader_id (context_of ref_old_leader) = 2"
  using ref_follower_ok ref_follower_room [of 1] ref_follower_log(5)
  by (simp_all add: ref_old_leader_def node_ok_def vote_saved_def log_room_def is_leader_def)
    (simp_all add: ref_follower_def Let_def Context_def)

theorem modify_aims_at_entry_witness:
  "\<exists>e st'. modify_begin ''set'' ref_old_leader = Some e \<and> modify_append refV e ref_old_leader = ((2, 4), st')"
proof -
  obtain e where e: "modify_begin ''set'' ref_old_leader = Some e"
    by (simp add: modify_begin_def ref_old_leader_facts)
  obtain t i st' where m: "modify_append refV e ref_old_leader = ((t, i), st')"
    by (metis surj_pair)
  from modify_aims_at_entry [OF ref_old_leader_facts(1,2) e m] have "t = 2" "i = 4"
    by (simp_all add: ref_old_leader_facts ref_follower_log)
  with e m show ?thesis by blast
qed

text \<open>A node that hears of a leader keeps the leader it already knows, also when the term is new: the term is raised
  before \<open>become_follower\<close>, which therefore sees no larger term and does not reset the leader.\<close>

lemma hear_leader_keeps:
  assumes "leader_id (context_of st) \<noteq> 0"
  shows "leader_id (context_of (hear_leader V now t lid st)) = leader_id (context_of st)"
    "c_id (context_of (hear_leader V now t lid st)) = c_id (context_of st)"
  using assms by (auto simp: hear_leader_def Let_def set_ctx_log_def become_follower_def)

text \<open>C38: A deposed leader keeps accepting updates: a leader that receives AppendEntries of a larger term becomes a follower of that
  term, but still counts as the leader, and the next update it is given becomes an entry of the new term, which
  it was never elected for.\<close>

theorem deposed_leader_accepts:
  assumes "sound_node L E st" "log_room (LevelDBLog L E) (length (aq_entries q)) st" "is_leader st" "c_id (context_of st) \<noteq> 0"
    and "c_term (context_of st) < aq_term q" "cmd \<noteq> []"
  shows "\<exists>r st' e. on_append_entries_request (LevelDBLog L E) now q st = Inr (r, st') \<and> role (context_of st') = kFollower \<and>
    c_term (context_of st') = aq_term q \<and> is_leader st' \<and> modify_begin cmd st' = Some e \<and> e_term e = aq_term q"
proof (cases rule: ldb.append_request_cases [where now = now, OF assms(1,2), case_names stale gap mismatch success])
  case (stale r)
  then show ?thesis using assms(5) by simp
next
  case (gap r)
  then show ?thesis
    using ldb.hear_leader_ok(4,5) [OF assms(1), of "aq_term q" now "aq_leader_id q"] hear_leader_keeps [of st] assms(3-)
    by (simp add: is_leader_def modify_begin_def)
next
  case (mismatch r l')
  then show ?thesis
    using ldb.hear_leader_ok(4,5) [OF assms(1), of "aq_term q" now "aq_leader_id q"] hear_leader_keeps [of st] assms(3-)
    by (simp add: is_leader_def modify_begin_def)
next
  case (success r l' st1)
  then show ?thesis
    using ldb.hear_leader_ok(4,5) [OF assms(1), of "aq_term q" now "aq_leader_id q"] hear_leader_keeps [of st] assms(3-)
    by (simp add: is_leader_def modify_begin_def)
qed

theorem deposed_leader_accepts_witness:
  "\<exists>r st' e. on_append_entries_request refV 0 ((ref_append 3 2 [])\<lparr>aq_term := 5\<rparr>) ref_old_leader = Inr (r, st') \<and>
     role (context_of st') = kFollower \<and> is_leader st' \<and> modify_begin ''set'' st' = Some e \<and> e_term e = 5"
  using deposed_leader_accepts [OF ref_old_leader_facts(1), of "(ref_append 3 2 [])\<lparr>aq_term := 5\<rparr>" "''set''" 0]
    ref_old_leader_facts by (auto simp: ref_append_def log_room_def)

subsection \<open>Snapshots\<close>

text \<open>The whole effect of an accepted snapshot.\<close>

lemma install_resets:
  assumes "sound_node L E st" "c_term (context_of st) \<le> iq_term q" "unmarshal_snapshot P (iq_data q) = Some sn"
    and "store_inv D (kv_store st)" "iq_last_included_index q \<noteq> - 1"
    and "on_install_snapshot_request (LevelDBLog L E) (LevelDBStore D F P) P now q st = (ret, r, st')"
  shows "ret = 0 \<and> sound_node L E st' \<and> role (context_of st') = kFollower \<and> c_term (context_of st') = iq_term q \<and>
    log_ents L E (rlog st') = [] \<and> lg_start (rlog st') = max (iq_last_included_index q + 1) (lg_start (rlog st)) \<and>
    commit_index (context_of st') = iq_last_included_index q \<and> sm_apply (machine st') = iq_last_included_index q \<and>
    LevelDBLog_meta_commit_index L E (rlog st') = iq_last_included_index q \<and>
    LevelDBLog_meta_apply_index L E (rlog st') = iq_last_included_index q \<and>
    last_included_index (context_of st') = last_included_index (context_of st) \<and>
    map_of (rev (s_data sn)) \<subseteq>\<^sub>m store_map D (kv_store st')"
proof -
  let ?V = "LevelDBLog L E" and ?idx = "iq_last_included_index q"
  let ?st1 = "hear_leader ?V now (iq_term q) (iq_leader_id q) st"
  note H = ldb.hear_leader_ok [OF assms(1,2), of now "iq_leader_id q"]
  have I: "log_inv L E (rlog ?st1)" "lg_start (rlog ?st1) = lg_start (rlog st)" using H(1,7) by (simp_all add: node_ok_def)
  have kv: "kv_store ?st1 = kv_store st" "last_included_index (context_of ?st1) = last_included_index (context_of st)"
    by (simp_all add: hear_leader_def Let_def set_ctx_log_def ctx_simps)
  let ?ap = "LevelDBStore_apply_snapshot D (kv_store st) sn"
  have ap: "fst ?ap" "map_of (rev (s_data sn)) \<subseteq>\<^sub>m store_map D (snd ?ap)"
    using lst.apply_snap_spec [OF assms(4), of F P sn] by simp_all
  define l2 where "l2 = LevelDBLog_truncate_suffix L E (LevelDBLog_truncate_prefix L E (rlog ?st1) (?idx + 1)) ?idx"
  define l3 where "l3 = snd (LevelDBLog_set_meta_commit_index L E l2 ?idx)"
  define l4 where "l4 = snd (LevelDBLog_set_meta_apply_index L E l3 ?idx)"
  have res: "ret = 0 \<and> rlog st' = l4 \<and> context_of st' = (context_of ?st1)\<lparr>commit_index := ?idx\<rparr> \<and>
      sm_apply (machine st') = ?idx \<and> kv_store st' = snd ?ap"
    using assms(2,3,6) ap(1) kv(1)
    by (auto simp: on_install_snapshot_request_def Let_def StateMachine_apply_snapshot_def split_beta l4_def l3_def l2_def not_less
        split: if_splits)
  have p: "log_inv L E (LevelDBLog_truncate_prefix L E (rlog ?st1) (?idx + 1))"
      "lg_start (LevelDBLog_truncate_prefix L E (rlog ?st1) (?idx + 1)) = max (?idx + 1) (lg_start (rlog st))"
    using ldb.prefix_spec [OF I(1), of "?idx + 1"] I(2) by simp_all
  have "unat (?idx + 1) = Suc (unat ?idx)" using unat_inc [of ?idx] assms(5) by simp
  then have "Suc (unat ?idx) \<le> unat (max (?idx + 1) (lg_start (rlog st)))"
    by (auto simp: max_def idx_order)
  then have l2: "log_inv L E l2" "lg_start l2 = max (?idx + 1) (lg_start (rlog st))" "log_ents L E l2 = []"
    using ldb.suffix_spec [OF p(1), of ?idx] p(2) by (auto simp: l2_def)
  have l3: "log_inv L E l3" "lg_start l3 = lg_start l2" "log_ents L E l3 = []"
      "m_commit_index (LevelDBLog_meta_data L E l3) = Some ?idx"
    using ldb.set_commit_spec [OF l2(1), of ?idx] l2(3) by (simp_all add: l3_def)
  have l4: "log_inv L E l4" "lg_start l4 = lg_start l2" "log_ents L E l4 = []"
      "m_commit_index (LevelDBLog_meta_data L E l4) = Some ?idx" "m_apply_index (LevelDBLog_meta_data L E l4) = Some ?idx"
    using ldb.set_apply_spec [OF l3(1), of ?idx] l3 by (simp_all add: l4_def)
  have "sound_node L E st'"
    using ldb.install_request_ok [OF assms(1,6)] by simp
  then show ?thesis
    using res l2(2) l4 H(4,5) kv ap(2) ldb.commit_of_meta [OF l4(1)] ldb.apply_of_meta [OF l4(1)] by simp
qed

text \<open>C25: Installing a snapshot: when the request's term is not behind, its content parses and the store takes it, the node is a
  follower of that term, the log holds no entry and continues after the snapshot or after
  its old start, and the commit index and both apply indices are the index of the snapshot.\<close>

theorem install_snapshot_resets:
  assumes "sound_node L E st" "c_term (context_of st) \<le> iq_term q" "unmarshal_snapshot P (iq_data q) = Some sn"
    and "store_inv D (kv_store st)" "iq_last_included_index q \<noteq> - 1"
    and "on_install_snapshot_request (LevelDBLog L E) (LevelDBStore D F P) P now q st = (ret, r, st')"
  shows "ret = 0 \<and> sound_node L E st' \<and> role (context_of st') = kFollower \<and> c_term (context_of st') = iq_term q \<and>
    log_ents L E (rlog st') = [] \<and> lg_start (rlog st') = max (iq_last_included_index q + 1) (lg_start (rlog st)) \<and>
    commit_index (context_of st') = iq_last_included_index q \<and> sm_apply (machine st') = iq_last_included_index q \<and>
    LevelDBLog_meta_commit_index L E (rlog st') = iq_last_included_index q \<and>
    LevelDBLog_meta_apply_index L E (rlog st') = iq_last_included_index q \<and>
    last_included_index (context_of st') = last_included_index (context_of st) \<and>
    map_of (rev (s_data sn)) \<subseteq>\<^sub>m store_map D (kv_store st')"
  by (rule install_resets [OF assms])

definition ref_sn :: snapshot where
  "ref_sn = \<lparr>s_last_included_index = 7, s_last_included_term = 2, s_data = [(''k'', ''v'')]\<rparr>"

definition ref_install :: install_request where
  "ref_install = \<lparr>iq_term = 3, iq_leader_id = 1, iq_last_included_index = 7, iq_last_included_term = 2,
     iq_data = the (marshal_snapshot ref_proto ref_sn), iq_epoch = 0\<rparr>"

lemma ref_install_parse: "unmarshal_snapshot ref_proto (iq_data ref_install) = Some ref_sn"
proof -
  have "marshal_snapshot ref_proto ref_sn = Some (the (marshal_snapshot ref_proto ref_sn))"
    by (simp add: ref_proto_def ref_marshal_snapshot_def)
  with ref_snapshot_codec_ok show ?thesis unfolding snapshot_codec_ok_def ref_install_def by simp
qed

theorem install_snapshot_resets_witness:
  "\<exists>ret r st'. on_install_snapshot_request refV refS ref_proto 0 ref_install ref_follower = (ret, r, st') \<and> ret = 0 \<and>
     commit_index (context_of st') = 7 \<and> log_ents ref_leveldb ref_codec (rlog st') = [] \<and> lg_start (rlog st') = 8 \<and>
     store_map ref_leveldb (kv_store st') ''k'' = Some ''v''"
proof -
  obtain ret r st' where m: "on_install_snapshot_request refV refS ref_proto 0 ref_install ref_follower = (ret, r, st')"
    by (metis prod_cases3)
  have "c_term (context_of ref_follower) \<le> iq_term ref_install" "iq_last_included_index ref_install \<noteq> - 1"
      "iq_last_included_index ref_install = 7"
    by (simp_all add: ref_install_def ref_follower_log)
  with install_snapshot_resets [OF ref_follower_ok _ ref_install_parse ref_store_inv _ m] m
  show ?thesis by (auto simp: ref_follower_log map_le_def ref_sn_def)
qed






end
