(* ===== verification/Store_Props.thy ===== *)
theory Store_Props
  imports Reference_Env
begin

text \<open>
  The properties of the key/value store: updates and reads, the meaning of range and search
  queries, and the way of a snapshot from one store to another.
\<close>

text \<open>An update request changes the stored map as the request says: a write maps its key to its
  content, a removal unmaps its key, and a request with neither is refused and changes nothing. A read that follows returns
  what the map holds, with code -1 and message FAIL for a key that is not there.\<close>

theorem store_update_read:
  assumes "store_inv L st" "sq_read q = Some k"
  shows "(fst (LevelDBStore_update_handle L st r), store_map L (snd (LevelDBStore_update_handle L st r))) =
      update_map r (store_map L st) \<and>
    LevelDBStore_select_handle L (snd (LevelDBStore_update_handle L st r)) q =
      (case snd (update_map r (store_map L st)) k of
         Some v \<Rightarrow> (0, select_response_init\<lparr>sr_code := 0, sr_msg := ''OK'', sr_read := Some v\<rparr>)
       | None \<Rightarrow> (-1, select_response_init\<lparr>sr_code := -1, sr_msg := ''FAIL''\<rparr>))"
proof -
  note U = lst.update_spec [OF assms(1), of undefined undefined r]
  have "store_map L (snd (LevelDBStore_update_handle L st r)) = snd (update_map r (store_map L st))"
    using U by (simp add: prod_eq_iff)
  with U lst.read_spec [of L "snd (LevelDBStore_update_handle L st r)" q k undefined undefined] assms show ?thesis by simp
qed

theorem store_update_read_witness:
  "fst (LevelDBStore_select_handle ref_leveldb (snd (LevelDBStore_update_handle ref_leveldb ref_store0
      \<lparr>uq_write = Some (''k'', ''v''), uq_remove = None\<rparr>)) \<lparr>sq_read = Some ''k'', sq_range = None, sq_search = None\<rparr>) = 0"
  using store_update_read [OF ref_store_inv, of "\<lparr>sq_read = Some ''k'', sq_range = None, sq_search = None\<rparr>" "''k''"
      ref_store0 "\<lparr>uq_write = Some (''k'', ''v''), uq_remove = None\<rparr>"]
  by (simp add: update_map_def)

lemma range_loop_eq:
  assumes "sorted_wrt (<) (map fst its)" "limit \<noteq> - 1" "limit \<noteq> 0 \<longrightarrow> count \<le> limit"
  shows "range_loop e limit count its acc =
    acc @ (let ks = filter (\<lambda>k. e = [] \<or> k \<le> e) (map fst its)
           in if limit = 0 then ks else take (unat limit - unat count) ks)"
  using assms
proof (induction e limit count its acc rule: range_loop.induct)
  case (2 e limit count k v its acc)
  have inc: "limit \<noteq> 0 \<Longrightarrow> unat (count + 1) = Suc (unat count)"
    using 2(3,4) by (intro unat_inc) (auto simp: word_order.extremum_unique)
  show ?case
  proof (cases "limit \<noteq> 0 \<and> count + 1 > limit")
    case True
    then have "unat limit - unat count = 0" using inc by (simp add: idx_order)
    with True show ?thesis by (simp add: Let_def)
  next
    case False
    then have le: "limit \<noteq> 0 \<longrightarrow> count + 1 \<le> limit" by auto
    show ?thesis
    proof (cases "e \<noteq> [] \<and> k > e")
      case True
      have "\<not> fst x \<le> e" if "x \<in> set its" for x using that 2(2) True by fastforce
      then have "filter (\<lambda>k. e = [] \<or> k \<le> e) (map fst its) = []" using True by (auto simp: filter_empty_conv)
      moreover have "\<not> k \<le> e" using True leD by blast
      ultimately show ?thesis using True False by (simp add: Let_def)
    next
      case k: False
      let ?c = "if limit \<noteq> 0 then count + 1 else count"
      have "range_loop e limit ?c its (acc @ [k]) = (acc @ [k]) @
          (let ks = filter (\<lambda>k. e = [] \<or> k \<le> e) (map fst its) in if limit = 0 then ks else take (unat limit - unat ?c) ks)"
        by (rule 2(1) [OF False k]) (use 2 le in auto)
      moreover have "limit \<noteq> 0 \<Longrightarrow> unat limit - unat count = Suc (unat limit - unat (count + 1))"
        using inc le by (simp add: idx_order Suc_diff_Suc)
      ultimately show ?thesis using False k by (auto simp: Let_def)
    qed
  qed
qed simp

lemma dropWhile_sorted_filter:
  "sorted_wrt (<) (map fst xs) \<Longrightarrow> dropWhile (\<lambda>(k, v). k < s) xs = filter (\<lambda>(k, v). s \<le> k) (xs :: ('a :: linorder \<times> 'b) list)"
proof (induction xs)
  case (Cons x xs)
  obtain k v where x: "x = (k, v)" by (cases x)
  show ?case
  proof (cases "k < s")
    case True
    with Cons x show ?thesis by auto
  next
    case False
    then have "filter (\<lambda>(k, v). s \<le> k) xs = xs" using Cons.prems x by (fastforce simp: filter_id_conv)
    with False x show ?thesis by auto
  qed
qed simp

lemma store_range_eq:
  assumes "leveldb_ok L" "limit \<noteq> - 1"
  shows "store_range L st s e limit =
    (0, let ks = filter (\<lambda>k. s \<le> k \<and> (e = [] \<or> k \<le> e)) (map fst (db_iter L (kv_fp st)))
        in if limit = 0 then ks else take (unat limit) ks)"
proof -
  let ?its = "db_iter L (kv_fp st)"
  have srt: "sorted_wrt (<) (map fst ?its)" by (rule leveldb_okD(4) [OF assms(1)])
  have its: "(if s \<noteq> [] then dropWhile (\<lambda>(k, v). k < s) ?its else ?its) = filter (\<lambda>(k, v). s \<le> k) ?its"
    using dropWhile_sorted_filter [OF srt, of s] by (auto simp: filter_id_conv)
  have ks: "map fst (filter (\<lambda>(k, v). s \<le> k) ?its) = filter (\<lambda>k. s \<le> k) (map fst ?its)"
    by (simp add: filter_map comp_def case_prod_unfold)
  have "range_loop e limit 0 (filter (\<lambda>(k, v). s \<le> k) ?its) [] =
      (let ks = filter (\<lambda>k. e = [] \<or> k \<le> e) (filter (\<lambda>k. s \<le> k) (map fst ?its)) in if limit = 0 then ks else take (unat limit) ks)"
    using range_loop_eq [of "filter (\<lambda>(k, v). s \<le> k) ?its" limit 0 e "[]"] assms(2)
    by (simp add: ks sorted_wrt_filter [OF srt] Let_def)
  then show ?thesis by (simp add: store_range_def its filter_filter conj_commute)
qed

text \<open>C29: A range query returns, in increasing order, exactly the stored keys from the start key to the end
  key inclusive (an empty bound is no bound), cut after the limit when one is given.\<close>

theorem store_range_spec:
  assumes "leveldb_ok L" "limit \<noteq> - 1"
  shows "store_range L st s e limit =
    (0, let ks = filter (\<lambda>k. s \<le> k \<and> (e = [] \<or> k \<le> e)) (map fst (db_iter L (kv_fp st)))
        in if limit = 0 then ks else take (unat limit) ks)"
  by (rule store_range_eq [OF assms])

theorem store_range_witness:
  "store_range ref_leveldb (ref_store0\<lparr>kv_fp := [(''c'', ''3''), (''a'', ''1''), (''b'', ''2'')]\<rparr>) ''a'' ''b'' 5 =
     (0, [''a'', ''b''])"
  by (subst store_range_spec [OF ref_leveldb_ok(1)]) (simp_all add: ref_leveldb_def less_char_def)

lemma search_loop_eq:
  assumes "limit \<noteq> - 1" "limit \<noteq> 0 \<longrightarrow> count \<le> limit"
  shows "search_loop s limit count its acc =
    acc @ filter (str_contains s) (map fst (if limit = 0 then its else take (Suc (unat limit - unat count)) its))"
  using assms
proof (induction s limit count its acc rule: search_loop.induct)
  case (2 s limit count k v its acc)
  have inc: "limit \<noteq> 0 \<Longrightarrow> unat (count + 1) = Suc (unat count)"
    using 2(2,3) by (intro unat_inc) (auto simp: word_order.extremum_unique)
  let ?acc = "if str_contains s k then acc @ [k] else acc"
  show ?case
  proof (cases "limit \<noteq> 0 \<and> count + 1 > limit")
    case True
    then have "unat limit - unat count = 0" using inc by (simp add: idx_order)
    with True show ?thesis by (simp add: Let_def)
  next
    case False
    let ?c = "if limit \<noteq> 0 then count + 1 else count"
    have "search_loop s limit ?c its ?acc =
        ?acc @ filter (str_contains s) (map fst (if limit = 0 then its else take (Suc (unat limit - unat ?c)) its))"
      by (rule 2(1) [OF refl False]) (use 2(2,3) False in auto)
    moreover have "limit \<noteq> 0 \<Longrightarrow> unat limit - unat count = Suc (unat limit - unat (count + 1))"
      using inc False by (auto simp: idx_order Suc_diff_Suc)
    ultimately show ?thesis using False by (auto simp: Let_def)
  qed
qed simp

text \<open>A search returns, in increasing order, exactly the keys that contain the search string; with a limit
  it looks at the first limit + 1 keys of the database only, whether they match or not.\<close>

theorem store_search_spec:
  assumes "limit \<noteq> - 1"
  shows "store_search L st s limit =
    (0, filter (str_contains s)
          (map fst (if limit = 0 then db_iter L (kv_fp st) else take (Suc (unat limit)) (db_iter L (kv_fp st)))))"
  using search_loop_eq [OF assms, of 0 s "db_iter L (kv_fp st)" "[]"] by (simp add: store_search_def)

theorem store_search_witness:
  "store_search ref_leveldb (ref_store0\<lparr>kv_fp := [(''ax'', ''3''), (''b'', ''1''), (''cx'', ''2'')]\<rparr>) ''x'' 1 =
     (0, [''ax''])"
  by (subst store_search_spec) (simp_all add: ref_leveldb_def less_char_def)

text \<open>C24: A snapshot carries the stored map from one store to another: after a successful creation it can be loaded,
  the loaded index and term are those it was created with, its content parses, and applying it gives
  the map of the first store on top of what \<^verbatim>\<open>DestroyDB\<close> left of the second one.\<close>

theorem snapshot_roundtrip:
  assumes "leveldb_ok L" "files_ok F" "snapshot_codec_ok P" "LevelDBStore_create_snapshot L F P a i t = (True, a')"
  shows "\<exists>content sn. LevelDBStore_load_snapshot F P a' = Some (content, i, t) \<and>
    unmarshal_snapshot P content = Some sn \<and> store_map L a' = store_map L a \<and>
    (fst (LevelDBStore_apply_snapshot L b sn) \<longrightarrow>
     store_map L (snd (LevelDBStore_apply_snapshot L b sn)) =
       db_Get L (db_Destroy L (kv_fp b)) ++ store_map L a)"
proof -
  let ?sn = "\<lparr>s_last_included_index = i, s_last_included_term = t, s_data = db_iter L (kv_fp a)\<rparr>"
  let ?tmp = "snapshot_path a @ snapshot_temp_file" and ?self = "snapshot_path a @ snapshot_self_file"
  obtain content where c: "marshal_snapshot P ?sn = Some content"
    using assms(4) by (auto simp: LevelDBStore_create_snapshot_def Let_def split: option.splits)
  let ?w = "fs_write F (kv_fs a) ?tmp content"
  have w: "fst ?w" and a': "a' = a\<lparr>kv_fs := fs_rename F (snd ?w) ?tmp ?self\<rparr>"
    using assms(4) c by (auto simp: LevelDBStore_create_snapshot_def Let_def split: prod.splits if_splits)
  have "fs_read F (snd ?w) ?tmp = Some content" using assms(2) w by (simp add: files_ok_def)
  then have "fs_read F (kv_fs a') ?self = Some content" using assms(2) by (simp add: files_ok_def a')
  moreover have u: "unmarshal_snapshot P content = Some ?sn" using assms(3) c by (simp add: snapshot_codec_ok_def)
  ultimately have load: "LevelDBStore_load_snapshot F P a' = Some (content, i, t)"
    by (simp add: LevelDBStore_load_snapshot_def a')
  have "distinct (map fst (db_iter L (kv_fp a)))"
    using leveldb_okD(4) [OF assms(1)] strict_sorted_iff by blast
  then have "map_of (rev (db_iter L (kv_fp a))) = store_map L a"
    using leveldb_okD(5) [OF assms(1)] 
      map_of_inject_set [of "rev (db_iter L (kv_fp a))" "db_iter L (kv_fp a)"]
    by (simp add: store_map_def rev_map [symmetric])
  then have "fst (LevelDBStore_apply_snapshot L b ?sn) \<longrightarrow>
      store_map L (snd (LevelDBStore_apply_snapshot L b ?sn)) = db_Get L (db_Destroy L (kv_fp b)) ++ store_map L a"
    using apply_snapshot_map [OF assms(1), of b ?sn] by simp
  with load u show ?thesis by (auto simp: a' store_map_def)
qed

theorem snapshot_roundtrip_witness:
  "\<exists>content sn. LevelDBStore_load_snapshot ref_files ref_proto
      (snd (LevelDBStore_create_snapshot ref_leveldb ref_files ref_proto (ref_store0\<lparr>kv_fp := [(''a'', ''1'')]\<rparr>) 7 2)) =
        Some (content, 7, 2) \<and>
    store_map ref_leveldb (snd (LevelDBStore_apply_snapshot ref_leveldb ref_store0 sn)) = [''a'' \<mapsto> ''1'']"
proof -
  let ?a = "ref_store0\<lparr>kv_fp := [(''a'', ''1'')]\<rparr>"
  let ?r = "LevelDBStore_create_snapshot ref_leveldb ref_files ref_proto ?a 7 2"
  have "fst ?r"
    by (simp add: LevelDBStore_create_snapshot_def ref_proto_def ref_marshal_snapshot_def ref_files_def)
  then have r: "?r = (True, snd ?r)" by (simp add: prod_eq_iff)
  have "fst (LevelDBStore_apply_snapshot ref_leveldb ref_store0 sn)" for sn
    by (simp add: LevelDBStore_apply_snapshot_def ref_leveldb_def)
  then show ?thesis
    using snapshot_roundtrip [OF ref_leveldb_ok(1) ref_files_ok ref_snapshot_codec_ok r, of ref_store0]
    by (auto simp: store_map_def ref_leveldb_def ref_store0_def)
qed

end
