(* ===== verification/Wire.thy ===== *)
theory Wire
  imports Bytes
begin

text \<open>
  The bytes on the wire (\<^verbatim>\<open>src/source/Core\<close> and the message headers of \<^verbatim>\<open>src/source/RPC\<close>): the network
  header of a message, the headers of RPC requests and responses, and the byte buffer of a
  connection. A packed header is the sequence of its fields; \<open>to_net_endian\<close> gives the
  16 and 32 bit fields it names network byte order, the reserved fields keep the byte order of the host,
  which is little-endian on the machines the program is built for.
\<close>

subsection \<open>Fields\<close>

definition net16 :: "u16 \<Rightarrow> string" where
  "net16 x = be_bytes 2 (unat x)"

definition net32 :: "u32 \<Rightarrow> string" where
  "net32 x = be_bytes 4 (unat x)"

definition host32 :: "u32 \<Rightarrow> string" where
  "host32 x = rev (be_bytes 4 (unat x))"

definition get16 :: "string \<Rightarrow> u16" where
  "get16 s = of_nat (be_val s)"

definition get32 :: "string \<Rightarrow> u32" where
  "get32 s = of_nat (be_val s)"

definition geth32 :: "string \<Rightarrow> u32" where
  "geth32 s = of_nat (be_val (rev s))"

named_theorems wire_simps \<open>fields and headers read back\<close>

lemma field_length [simp]: "length (net16 x) = 2" "length (net32 y) = 4" "length (host32 z) = 4"
  by (simp_all add: net16_def net32_def host32_def)

lemma field_back [wire_simps, simp]: "get16 (net16 x) = x" "get32 (net32 y) = y" "geth32 (host32 z) = z"
proof -
  have "unat x < 256 ^ 2" "unat y < 256 ^ 4" "unat z < 256 ^ 4"
    using unsigned_less [of x, where 'a = nat] unsigned_less [of y, where 'a = nat] unsigned_less [of z, where 'a = nat] by simp_all
  then show "get16 (net16 x) = x" "get32 (net32 y) = y" "geth32 (host32 z) = z"
    by (simp_all add: get16_def net16_def get32_def net32_def geth32_def host32_def be_val_bytes)
qed

lemma be_bytes_val: "be_bytes (length s) (be_val s) = s"
proof (induction s)
  case (Cons c s)
  have "(of_char c * 256 ^ length s + be_val s) div 256 ^ length s = (of_char c :: nat)"
    using be_val_less [of s] by (simp add: div_add1_eq)
  moreover have "(of_char c * 256 ^ length s + be_val s) mod 256 ^ length s = be_val s"
    using be_val_less [of s] by simp
  ultimately show ?case using Cons by simp
qed simp

lemma field_forth [wire_simps]:
  "length s = 2 \<Longrightarrow> net16 (get16 s) = s" "length s = 4 \<Longrightarrow> net32 (get32 s) = s" "length s = 4 \<Longrightarrow> host32 (geth32 s) = s"
  using be_bytes_val [of s] be_val_less [of s] be_bytes_val [of "rev s"] be_val_less [of "rev s"]
  by (simp_all add: net16_def get16_def net32_def get32_def host32_def geth32_def unat_of_nat take_bit_nat_eq_self_iff)

definition bytes :: "nat \<Rightarrow> nat \<Rightarrow> string \<Rightarrow> string" where
  "bytes i n s = take n (drop i s)"

lemma bytes_append [wire_simps, simp]:
  "length a = n \<Longrightarrow> bytes 0 n (a @ s) = a" "length a = n \<Longrightarrow> bytes 0 n a = a"
  "length a \<le> i \<Longrightarrow> bytes i n (a @ s) = bytes (i - length a) n s"
  by (simp_all add: bytes_def)

lemma length_bytes [simp]: "i + n \<le> length s \<Longrightarrow> length (bytes i n s) = n"
  by (simp add: bytes_def)

lemma bytes_join: "bytes i n s @ bytes (i + n) m s = bytes i (n + m) s"
  by (simp add: bytes_def take_add add.commute [of n i])

lemma bytes_all: "length s = n \<Longrightarrow> bytes 0 n s = s"
  by (simp add: bytes_def)

subsection \<open>The network header and message\<close>

record header =
  h_magic :: u16
  h_version :: u16
  h_length :: u32
  h_rev1 :: u32
  h_rev2 :: u32

definition kHeaderMagic :: u16 where
  "kHeaderMagic = 0x746b"

definition kHeaderVersion :: u16 where
  "kHeaderVersion = 1"

definition sizeof_Header :: nat where
  "sizeof_Header = 16"

definition Header_to_net :: "header \<Rightarrow> string" where
  "Header_to_net h = net16 (h_magic h) @ net16 (h_version h) @ net32 (h_length h) @ host32 (h_rev1 h) @ host32 (h_rev2 h)"

definition Header_from_net :: "string \<Rightarrow> header" where
  "Header_from_net s =
     \<lparr>h_magic = get16 (bytes 0 2 s), h_version = get16 (bytes 2 2 s), h_length = get32 (bytes 4 4 s),
      h_rev1 = geth32 (bytes 8 4 s), h_rev2 = geth32 (bytes 12 4 s)\<rparr>"

record message =
  m_header :: header
  m_payload :: string

definition Message :: "string \<Rightarrow> message" where
  "Message d =
     \<lparr>m_header = \<lparr>h_magic = kHeaderMagic, h_version = kHeaderVersion, h_length = of_nat (length d), h_rev1 = 0, h_rev2 = 0\<rparr>,
      m_payload = d\<rparr>"

definition Message_net_str :: "message \<Rightarrow> string" where
  "Message_net_str msg = Header_to_net (m_header msg) @ m_payload msg"

lemma Header_net_length [simp]: "length (Header_to_net h) = 16"
  by (simp add: Header_to_net_def)

lemma Header_roundtrip [wire_simps, simp]: "Header_from_net (Header_to_net h) = h"
  by (simp add: Header_from_net_def Header_to_net_def)

lemma Header_forth [wire_simps]: "length s = 16 \<Longrightarrow> Header_to_net (Header_from_net s) = s"
  using bytes_all [of s 16]
  by (simp add: Header_from_net_def Header_to_net_def field_forth bytes_join [of 0 2 s 2, simplified, symmetric]
      bytes_join [of 0 4 s 4, simplified, symmetric] bytes_join [of 0 8 s 4, simplified, symmetric]
      bytes_join [of 0 12 s 4, simplified, symmetric] numeral_2_eq_2)

subsection \<open>RPC requests\<close>

record rpc_request_header =
  rq_magic :: u16
  rq_version :: u16
  rq_service_id :: u16
  rq_opcode :: u16
  rq_rev1 :: u32
  rq_rev2 :: u32

definition kRpcHeaderMagic :: u16 where
  "kRpcHeaderMagic = 0x7472"

definition kRpcHeaderVersion :: u16 where
  "kRpcHeaderVersion = 1"

definition sizeof_RpcRequestHeader :: nat where
  "sizeof_RpcRequestHeader = 16"

definition RpcRequestHeader_to_net :: "rpc_request_header \<Rightarrow> string" where
  "RpcRequestHeader_to_net h =
     net16 (rq_magic h) @ net16 (rq_version h) @ net16 (rq_service_id h) @ net16 (rq_opcode h) @ host32 (rq_rev1 h) @ host32 (rq_rev2 h)"

definition RpcRequestHeader_from_net :: "string \<Rightarrow> rpc_request_header" where
  "RpcRequestHeader_from_net s =
     \<lparr>rq_magic = get16 (bytes 0 2 s), rq_version = get16 (bytes 2 2 s), rq_service_id = get16 (bytes 4 2 s),
      rq_opcode = get16 (bytes 6 2 s), rq_rev1 = geth32 (bytes 8 4 s), rq_rev2 = geth32 (bytes 12 4 s)\<rparr>"

record rpc_request_message =
  rq_header :: rpc_request_header
  rq_payload :: string

definition RpcRequestMessage :: "u16 \<Rightarrow> u16 \<Rightarrow> string \<Rightarrow> rpc_request_message" where
  "RpcRequestMessage serviceid opcd d =
     \<lparr>rq_header = \<lparr>rq_magic = kRpcHeaderMagic, rq_version = kRpcHeaderVersion, rq_service_id = serviceid, rq_opcode = opcd,
                   rq_rev1 = 0, rq_rev2 = 0\<rparr>,
      rq_payload = d\<rparr>"

definition RpcRequestMessage_net_str :: "rpc_request_message \<Rightarrow> string" where
  "RpcRequestMessage_net_str msg = RpcRequestHeader_to_net (rq_header msg) @ rq_payload msg"

definition RpcRequestMessageParse :: "string \<Rightarrow> rpc_request_message option" where
  "RpcRequestMessageParse s =
     (if length s < sizeof_RpcRequestHeader then None
      else Some \<lparr>rq_header = RpcRequestHeader_from_net (bytes 0 sizeof_RpcRequestHeader s),
                 rq_payload = drop sizeof_RpcRequestHeader s\<rparr>)"

lemma RpcRequestHeader_net_length [simp]: "length (RpcRequestHeader_to_net h) = 16"
  by (simp add: RpcRequestHeader_to_net_def)

lemma RpcRequestHeader_roundtrip [wire_simps, simp]: "RpcRequestHeader_from_net (RpcRequestHeader_to_net h) = h"
  by (simp add: RpcRequestHeader_from_net_def RpcRequestHeader_to_net_def)

subsection \<open>RPC responses\<close>

datatype rpc_response_status = OK | SERVICE_SPECIFIC_ERROR | INVALID_VERSION | INVALID_SERVICE | INVALID_REQUEST
  | SYSTEM_ERROR | NOT_LEADER | REQUEST_PROXY_ERROR

text \<open>The status byte: a received status may be any value of the underlying type.\<close>

definition status_code :: "rpc_response_status \<Rightarrow> u8" where
  "status_code s = (case s of OK \<Rightarrow> 0 | SERVICE_SPECIFIC_ERROR \<Rightarrow> 1 | INVALID_VERSION \<Rightarrow> 2 | INVALID_SERVICE \<Rightarrow> 3
     | INVALID_REQUEST \<Rightarrow> 4 | SYSTEM_ERROR \<Rightarrow> 5 | NOT_LEADER \<Rightarrow> 6 | REQUEST_PROXY_ERROR \<Rightarrow> 7)"

record rpc_response_header =
  rs_status :: u8
  rs_magic :: u16
  rs_version :: u16
  rs_service_id :: u16
  rs_opcode :: u16
  rs_rev1 :: u32
  rs_rev2 :: u32

definition sizeof_RpcResponseHeader :: nat where
  "sizeof_RpcResponseHeader = 17"

definition RpcResponseHeader_to_net :: "rpc_response_header \<Rightarrow> string" where
  "RpcResponseHeader_to_net h =
     be_bytes 1 (unat (rs_status h)) @ net16 (rs_magic h) @ net16 (rs_version h) @ net16 (rs_service_id h) @ net16 (rs_opcode h) @
     host32 (rs_rev1 h) @ host32 (rs_rev2 h)"

definition RpcResponseHeader_from_net :: "string \<Rightarrow> rpc_response_header" where
  "RpcResponseHeader_from_net s =
     \<lparr>rs_status = of_nat (be_val (bytes 0 1 s)), rs_magic = get16 (bytes 1 2 s), rs_version = get16 (bytes 3 2 s),
      rs_service_id = get16 (bytes 5 2 s), rs_opcode = get16 (bytes 7 2 s), rs_rev1 = geth32 (bytes 9 4 s),
      rs_rev2 = geth32 (bytes 13 4 s)\<rparr>"

record rpc_response_message =
  rs_header :: rpc_response_header
  rs_payload :: string

definition RpcResponseMessage :: "u16 \<Rightarrow> u16 \<Rightarrow> string \<Rightarrow> rpc_response_message" where
  "RpcResponseMessage serviceid opcd d =
     \<lparr>rs_header = \<lparr>rs_status = status_code OK, rs_magic = kRpcHeaderMagic, rs_version = kRpcHeaderVersion,
                   rs_service_id = serviceid, rs_opcode = opcd, rs_rev1 = 0, rs_rev2 = 0\<rparr>,
      rs_payload = d\<rparr>"

definition RpcResponseMessage_status :: "rpc_response_status \<Rightarrow> rpc_response_message" where
  "RpcResponseMessage_status st =
     \<lparr>rs_header = \<lparr>rs_status = status_code st, rs_magic = kRpcHeaderMagic, rs_version = kRpcHeaderVersion,
                   rs_service_id = 0, rs_opcode = 0, rs_rev1 = 0, rs_rev2 = 0\<rparr>,
      rs_payload = []\<rparr>"

definition RpcResponseMessage_net_str :: "rpc_response_message \<Rightarrow> string" where
  "RpcResponseMessage_net_str msg = RpcResponseHeader_to_net (rs_header msg) @ rs_payload msg"

definition RpcResponseMessageParse :: "string \<Rightarrow> rpc_response_message option" where
  "RpcResponseMessageParse s =
     (if length s < sizeof_RpcResponseHeader then None
      else Some \<lparr>rs_header = RpcResponseHeader_from_net (bytes 0 sizeof_RpcResponseHeader s),
                 rs_payload = drop sizeof_RpcResponseHeader s\<rparr>)"

lemma RpcResponseHeader_net_length [simp]: "length (RpcResponseHeader_to_net h) = 17"
  by (simp add: RpcResponseHeader_to_net_def)

lemma status_back [wire_simps]: "of_nat (be_val (be_bytes 1 (unat (x :: u8)))) = x"
  using be_val_bytes [of "unat x" 1] unsigned_less [of x, where 'a = nat] by simp

lemma RpcResponseHeader_roundtrip [wire_simps, simp]: "RpcResponseHeader_from_net (RpcResponseHeader_to_net h) = h"
proof -
  have "bytes i n (be_bytes 1 (unat (rs_status h)) @ s) = bytes (i - 1) n s" if "1 \<le> i" for i n s
    using that by (intro bytes_append(3) [THEN trans]) simp_all
  then show ?thesis
    using status_back [of "rs_status h"] by (simp add: RpcResponseHeader_from_net_def RpcResponseHeader_to_net_def del: be_bytes.simps)
qed

subsection \<open>Buffers\<close>

text \<open>
  A buffer is the vector of its bytes. \<open>consume\<close> fills a string, whose old value is kept when nothing is taken;
  \<open>consume_block\<close> copies into a block of memory and reads past the end of the vector when asked for more than there is
  (an undefined behaviour, modelled as a fault). Lengths are cut to 32 bits.
\<close>

type_synonym buffer = string

definition Buffer_append_internal :: "buffer \<Rightarrow> string \<Rightarrow> buffer" where
  "Buffer_append_internal b d = b @ d"

definition Buffer_append :: "buffer \<Rightarrow> message \<Rightarrow> buffer" where
  "Buffer_append b msg = Buffer_append_internal (Buffer_append_internal b (Header_to_net (m_header msg))) (m_payload msg)"

definition Buffer_front_erase :: "buffer \<Rightarrow> u32 \<Rightarrow> buffer" where
  "Buffer_front_erase b sz = (if length b \<le> unat sz then [] else drop (unat sz) b)"

definition Buffer_consume :: "buffer \<Rightarrow> string \<Rightarrow> u32 \<Rightarrow> bool \<times> string \<times> buffer" where
  "Buffer_consume b store sz =
     (if sz = 0 \<or> b = [] then (False, store, b)
      else if length b \<le> unat sz then (True, b, [])
      else (True, take (unat sz) b, drop (unat sz) b))"

definition Buffer_consume_block :: "buffer \<Rightarrow> string \<Rightarrow> u32 \<Rightarrow> (bool \<times> string \<times> buffer) res" where
  "Buffer_consume_block b store sz =
     (if sz = 0 \<or> b = [] then Inr (False, store, b)
      else if length b < unat sz then Inl OutOfRange
      else Inr (True, take (unat sz) b @ drop (unat sz) store, Buffer_front_erase b sz))"

definition Buffer_get_length :: "buffer \<Rightarrow> u32" where
  "Buffer_get_length b = of_nat (length b)"

lemma Buffer_consume_eq [simp]:
  "Buffer_consume b store sz = (sz \<noteq> 0 \<and> b \<noteq> [], if sz \<noteq> 0 \<and> b \<noteq> [] then take (unat sz) b else store, drop (unat sz) b)"
  by (auto simp: Buffer_consume_def unat_eq_zero)

lemma Buffer_front_erase_eq [simp]: "Buffer_front_erase b sz = drop (unat sz) b"
  by (simp add: Buffer_front_erase_def)

lemma Buffer_append_eq [simp]: "Buffer_append b msg = b @ Message_net_str msg"
  by (simp add: Buffer_append_def Buffer_append_internal_def Message_net_str_def)

lemma Buffer_get_length_le: "unat (Buffer_get_length b) \<le> length b"
  by (simp add: Buffer_get_length_def unat_of_nat)

lemma Buffer_get_length_small: "length b < 2 ^ 32 \<Longrightarrow> unat (Buffer_get_length b) = length b"
  by (simp add: Buffer_get_length_def unat_of_nat take_bit_nat_eq_self_iff)

end
