(* ===== verification/Rpc.thy ===== *)
theory Rpc
  imports Wire Consensus_Ops
begin

text \<open>
  The RPC layer of the server: the request of a connection (\<^verbatim>\<open>RPC/RpcInstance\<close>), the dispatcher and its
  executors (\<^verbatim>\<open>RPC/Dispatcher\<close>, \<^verbatim>\<open>RPC/Executor\<close>), and the three services (\<^verbatim>\<open>Protocol/ServiceImpl\<close>). A handler
  ends in exactly one call of \<open>reply_rpc_message\<close> or \<open>reject\<close>; it is modelled by that
  call, a value of \<open>rpc_reply\<close>, and \<open>answer\<close> is the message the call puts on the connection.
\<close>

subsection \<open>Requests of a connection\<close>

record rpc_instance =
  ri_request :: buffer
  ri_message :: rpc_request_message
  ri_msg_size :: int
  ri_service_id :: u16
  ri_opcode :: u16

definition RpcInstance :: "string \<Rightarrow> int \<Rightarrow> rpc_instance" where
  "RpcInstance str_request msg_size =
     \<lparr>ri_request = str_request,
      ri_message = \<lparr>rq_header = \<lparr>rq_magic = 0, rq_version = 0, rq_service_id = 0, rq_opcode = 0, rq_rev1 = 0, rq_rev2 = 0\<rparr>,
                    rq_payload = []\<rparr>,
      ri_msg_size = msg_size, ri_service_id = - 1, ri_opcode = - 1\<rparr>"

text \<open>The size of the rest is computed as a \<^verbatim>\<open>size_t\<close> and passed as a 32-bit number.\<close>

definition validate_request :: "rpc_instance \<Rightarrow> bool \<times> rpc_instance" where
  "validate_request inst =
     (if unat (Buffer_get_length (ri_request inst)) < sizeof_RpcRequestHeader then (False, inst)
      else
        let (ok, head_str, b) = Buffer_consume (ri_request inst) [] (of_nat sizeof_RpcRequestHeader);
            header = RpcRequestHeader_from_net head_str;
            inst1 = inst\<lparr>ri_request := b\<rparr>
        in if rq_magic header \<noteq> kRpcHeaderMagic \<or> rq_version header \<noteq> kRpcHeaderVersion then (False, inst1)
           else
             let inst2 = inst1\<lparr>ri_service_id := rq_service_id header, ri_opcode := rq_opcode header\<rparr>;
                 (ok', msg_str, b') = Buffer_consume (ri_request inst2) [] (of_int (ri_msg_size inst2) - of_nat sizeof_RpcRequestHeader);
                 inst3 = inst2\<lparr>ri_request := b'\<rparr>
             in if msg_str = [] then (False, inst3)
                else (True, inst3\<lparr>ri_message := \<lparr>rq_header = header, rq_payload = msg_str\<rparr>\<rparr>))"

datatype rpc_reply = Reply string | Reject rpc_response_status

definition reply_rpc_message :: "rpc_instance \<Rightarrow> string \<Rightarrow> message" where
  "reply_rpc_message inst msg = Message (RpcResponseMessage_net_str (RpcResponseMessage (ri_service_id inst) (ri_opcode inst) msg))"

definition reject :: "rpc_response_status \<Rightarrow> message" where
  "reject status = Message (RpcResponseMessage_net_str (RpcResponseMessage_status status))"

definition answer :: "rpc_instance \<Rightarrow> rpc_reply \<Rightarrow> message" where
  "answer inst r = (case r of Reply msg \<Rightarrow> reply_rpc_message inst msg | Reject status \<Rightarrow> reject status)"

subsection \<open>Dispatcher and executors\<close>

text \<open>A registered service is an executor: the service and the queue of requests that wait for a thread.\<close>

record 'svc executor =
  service_impl :: 'svc
  rpc_queue :: "rpc_instance list"

record 'svc dispatcher =
  initialized :: bool
  services :: "u16 \<rightharpoonup> 'svc executor"

definition Dispatcher :: "'svc dispatcher" where
  "Dispatcher = \<lparr>initialized = False, services = Map.empty\<rparr>"

definition Dispatcher_init :: "'svc dispatcher \<Rightarrow> bool \<times> 'svc dispatcher" where
  "Dispatcher_init d = (True, d\<lparr>initialized := True\<rparr>)"

text \<open>\<open>init_ok\<close> is the result of \<open>Executor::init\<close> for the service.\<close>

definition register_service :: "u16 \<Rightarrow> 'svc \<Rightarrow> bool \<Rightarrow> 'svc dispatcher \<Rightarrow> 'svc dispatcher" where
  "register_service service_id service init_ok d =
     (if initialized d then d
      else if \<not> init_ok then d
      else d\<lparr>services := (services d)(service_id \<mapsto> \<lparr>service_impl = service, rpc_queue = []\<rparr>)\<rparr>)"

definition Executor_handle_RPC :: "rpc_instance \<Rightarrow> 'svc executor \<Rightarrow> 'svc executor" where
  "Executor_handle_RPC inst ex = ex\<lparr>rpc_queue := rpc_queue ex @ [inst]\<rparr>"

definition Dispatcher_handle_RPC ::
    "rpc_instance \<Rightarrow> 'svc dispatcher \<Rightarrow> rpc_response_status option \<times> rpc_instance \<times> 'svc dispatcher" where
  "Dispatcher_handle_RPC inst d =
     (let (ok, inst') = validate_request inst in
      if \<not> ok then (Some INVALID_REQUEST, inst', d)
      else case services d (ri_service_id inst') of
          Some ex \<Rightarrow> (None, inst', d\<lparr>services := (services d)(ri_service_id inst' \<mapsto> Executor_handle_RPC inst' ex)\<rparr>)
        | None \<Rightarrow> (Some INVALID_SERVICE, inst', d))"

datatype thread_status = kThreadRunning | kThreadSuspend | kThreadTerminating | kThreadDead

text \<open>One turn of a thread of the executor: it ends, sleeps, finds nothing within a second, or takes the oldest request, which
  is then handled by the service.\<close>

definition executor_service_run :: "thread_status \<Rightarrow> 'svc executor \<Rightarrow> thread_status \<times> rpc_instance option \<times> 'svc executor" where
  "executor_service_run ts ex =
     (if ts = kThreadTerminating then (kThreadDead, None, ex)
      else if ts = kThreadSuspend then (ts, None, ex)
      else case rpc_queue ex of [] \<Rightarrow> (ts, None, ex)
        | inst # q \<Rightarrow> (ts, Some inst, ex\<lparr>rpc_queue := q\<rparr>))"

subsection \<open>RaftService\<close>

definition request_vote_impl ::
    "'l LogIf \<Rightarrow> proto \<Rightarrow> int \<Rightarrow> rpc_instance \<Rightarrow> ('l, 's) raft \<Rightarrow> rpc_reply \<times> ('l, 's) raft" where
  "request_vote_impl V P now inst st =
     (if rq_opcode (rq_header (ri_message inst)) \<noteq> kRequestVote then (Reject INVALID_REQUEST, st)
      else case unmarshal_vote_request P (rq_payload (ri_message inst)) of
          None \<Rightarrow> (Reject INVALID_REQUEST, st)
        | Some request \<Rightarrow>
            let (response, st') = on_request_vote_request V now request st
            in (Reply (marshal_vote_response P response), st'))"

definition append_entries_impl ::
    "'l LogIf \<Rightarrow> proto \<Rightarrow> int \<Rightarrow> rpc_instance \<Rightarrow> ('l, 's) raft \<Rightarrow> (rpc_reply \<times> ('l, 's) raft) res" where
  "append_entries_impl V P now inst st =
     (if rq_opcode (rq_header (ri_message inst)) \<noteq> kAppendEntries then Inr (Reject INVALID_REQUEST, st)
      else case unmarshal_append_request P (rq_payload (ri_message inst)) of
          None \<Rightarrow> Inr (Reject INVALID_REQUEST, st)
        | Some request \<Rightarrow>
            res_bind (on_append_entries_request V now request st) (\<lambda>(response, st').
              Inr (Reply (marshal_append_response P response), st')))"

definition install_snapshot_impl ::
    "'l LogIf \<Rightarrow> 's StoreIf \<Rightarrow> proto \<Rightarrow> int \<Rightarrow> rpc_instance \<Rightarrow> ('l, 's) raft \<Rightarrow> rpc_reply \<times> ('l, 's) raft" where
  "install_snapshot_impl V S P now inst st =
     (if rq_opcode (rq_header (ri_message inst)) \<noteq> kInstallSnapshot then (Reject INVALID_REQUEST, st)
      else case unmarshal_install_request P (rq_payload (ri_message inst)) of
          None \<Rightarrow> (Reject INVALID_REQUEST, st)
        | Some request \<Rightarrow>
            let (ret, response, st') = on_install_snapshot_request V S P now request st
            in if ret \<noteq> 0 then (Reject SYSTEM_ERROR, st')
               else (Reply (marshal_install_response P response), st'))"

definition RaftService_handle_RPC ::
    "'l LogIf \<Rightarrow> 's StoreIf \<Rightarrow> proto \<Rightarrow> int \<Rightarrow> rpc_instance \<Rightarrow> ('l, 's) raft \<Rightarrow> (rpc_reply \<times> ('l, 's) raft) res" where
  "RaftService_handle_RPC V S P now inst st =
     (if ri_opcode inst = kRequestVote then Inr (request_vote_impl V P now inst st)
      else if ri_opcode inst = kAppendEntries then append_entries_impl V P now inst st
      else if ri_opcode inst = kInstallSnapshot then Inr (install_snapshot_impl V S P now inst st)
      else Inr (Reject INVALID_REQUEST, st))"

subsection \<open>ClientService\<close>

definition kSelect :: u16 where
  "kSelect = 1"

definition kUpdate :: u16 where
  "kUpdate = 2"

text \<open>
  Two calls of the client handlers block while other threads run: the proxy call to the leader and the query or update of
  the state machine (whose steps are in \<open>Consensus_Ops\<close>). The handlers take their outcomes as functions of the
  arguments of the call: a code and the response string.
\<close>

type_synonym proxy_call = "peer \<Rightarrow> u16 \<Rightarrow> u16 \<Rightarrow> string \<Rightarrow> int \<times> string"
type_synonym machine_call = "string \<Rightarrow> int \<times> string"

definition client_select_impl :: "proxy_call \<Rightarrow> machine_call \<Rightarrow> rpc_instance \<Rightarrow> ('l, 's) raft \<Rightarrow> rpc_reply" where
  "client_select_impl proxy_client_RPC state_machine_query inst st =
     (let h = rq_header (ri_message inst) in
      if rq_opcode h \<noteq> kSelect then Reject INVALID_REQUEST
      else if \<not> is_leader st
      then case get_peer st (current_leader st) of None \<Rightarrow> Reject SYSTEM_ERROR
        | Some client \<Rightarrow>
            let (code, proxy_response_str) = proxy_client_RPC client (rq_service_id h) (rq_opcode h) (rq_payload (ri_message inst))
            in if code \<noteq> 0 then Reject REQUEST_PROXY_ERROR else Reply proxy_response_str
      else
        let (ret, response_str) = state_machine_query (rq_payload (ri_message inst))
        in if ret \<noteq> 0 then Reject SYSTEM_ERROR else Reply response_str)"

definition client_update_impl :: "proxy_call \<Rightarrow> machine_call \<Rightarrow> rpc_instance \<Rightarrow> ('l, 's) raft \<Rightarrow> rpc_reply" where
  "client_update_impl proxy_client_RPC state_machine_modify inst st =
     (let h = rq_header (ri_message inst) in
      if rq_opcode h \<noteq> kUpdate then Reject INVALID_REQUEST
      else if \<not> is_leader st
      then case get_peer st (current_leader st) of None \<Rightarrow> Reject SYSTEM_ERROR
        | Some client \<Rightarrow>
            let (code, proxy_response_str) = proxy_client_RPC client (rq_service_id h) (rq_opcode h) (rq_payload (ri_message inst))
            in if code \<noteq> 0 then Reject REQUEST_PROXY_ERROR else Reply proxy_response_str
      else
        let (ret, response_str) = state_machine_modify (rq_payload (ri_message inst))
        in if ret \<noteq> 0 then Reject SYSTEM_ERROR else Reply response_str)"

definition ClientService_handle_RPC ::
    "proxy_call \<Rightarrow> machine_call \<Rightarrow> machine_call \<Rightarrow> rpc_instance \<Rightarrow> ('l, 's) raft \<Rightarrow> rpc_reply" where
  "ClientService_handle_RPC proxy query modify inst st =
     (if ri_opcode inst = kSelect then client_select_impl proxy query inst st
      else if ri_opcode inst = kUpdate then client_update_impl proxy modify inst st
      else Reject INVALID_REQUEST)"

subsection \<open>ControlService\<close>

definition kSnapshot :: u16 where
  "kSnapshot = 1"

definition kStat :: u16 where
  "kStat = 2"

text \<open>The protobuf helpers on the control messages: a parsed request says whether its optional part is there, a response holds
  code, message and the optional hint or context.\<close>

record control_proto =
  unmarshal_snapshot_request :: "string \<Rightarrow> bool option"
  marshal_snapshot_response :: "int \<Rightarrow> string \<Rightarrow> string option \<Rightarrow> string"
  unmarshal_stat_request :: "string \<Rightarrow> bool option"
  marshal_stat_response :: "int \<Rightarrow> string \<Rightarrow> string option \<Rightarrow> string"

fun to_string :: "nat \<Rightarrow> string" where
  "to_string n = (if n < 10 then [char_of (48 + n)] else to_string (n div 10) @ [char_of (48 + n mod 10)])"

declare to_string.simps [simp del]

text \<open>\<open>snapshot_ret\<close> is the code of \<open>state_machine_snapshot\<close>, whose steps are in \<open>Consensus_Ops\<close>; \<open>stat\<close> is the text of
  \<open>cluster_stat\<close>.\<close>

definition control_snapshot_impl :: "control_proto \<Rightarrow> int \<Rightarrow> rpc_instance \<Rightarrow> ('l, 's) raft \<Rightarrow> rpc_reply" where
  "control_snapshot_impl C snapshot_ret inst st =
     (if rq_opcode (rq_header (ri_message inst)) \<noteq> kSnapshot then Reject INVALID_REQUEST
      else case unmarshal_snapshot_request C (rq_payload (ri_message inst)) of None \<Rightarrow> Reject INVALID_REQUEST
        | Some has_snapshot \<Rightarrow>
            if has_snapshot
            then if snapshot_ret \<noteq> 0 then Reject SYSTEM_ERROR
              else Reply (marshal_snapshot_response C 0 ''OK'' (Some (''current_leader:'' @ to_string (unat (current_leader st)))))
            else Reply (marshal_snapshot_response C 0 ''OK'' None))"

definition control_stat_impl :: "control_proto \<Rightarrow> string \<Rightarrow> rpc_instance \<Rightarrow> rpc_reply" where
  "control_stat_impl C stat inst =
     (if rq_opcode (rq_header (ri_message inst)) \<noteq> kStat then Reject INVALID_REQUEST
      else case unmarshal_stat_request C (rq_payload (ri_message inst)) of None \<Rightarrow> Reject INVALID_REQUEST
        | Some has_stat \<Rightarrow> Reply (marshal_stat_response C 0 ''OK'' (if has_stat then Some stat else None)))"

definition ControlService_handle_RPC :: "control_proto \<Rightarrow> int \<Rightarrow> string \<Rightarrow> rpc_instance \<Rightarrow> ('l, 's) raft \<Rightarrow> rpc_reply" where
  "ControlService_handle_RPC C snapshot_ret stat inst st =
     (if ri_opcode inst = kSnapshot then control_snapshot_impl C snapshot_ret inst st
      else if ri_opcode inst = kStat then control_stat_impl C stat inst
      else Reject INVALID_REQUEST)"

subsection \<open>What a request becomes\<close>

lemma validate_request_ok:
  fixes sid op :: u16
  assumes "payload \<noteq> []" "length payload + 16 < 2 ^ 32"
  defines "s \<equiv> RpcRequestMessage_net_str (RpcRequestMessage sid op payload)"
  shows "validate_request (RpcInstance s (int (length s))) =
    (True, \<lparr>ri_request = [], ri_message = RpcRequestMessage sid op payload, ri_msg_size = int (length s),
            ri_service_id = sid, ri_opcode = op\<rparr>)"
proof -
  let ?h = "rq_header (RpcRequestMessage sid op payload)"
  have s: "s = RpcRequestHeader_to_net ?h @ payload" "length s = 16 + length payload" "s \<noteq> []"
    using assms(1) by (simp_all add: s_def RpcRequestMessage_net_str_def) (simp_all add: RpcRequestMessage_def)
  have len: "unat (Buffer_get_length s) = 16 + length payload"
    using Buffer_get_length_small [of s] assms(2) s(2) by simp
  have rest: "(of_int (int (length s)) - 16 :: u32) = of_nat (length payload)" using s(2) by simp
  have "unat (of_nat (length payload) :: u32) = length payload"
    using assms(2) by (simp add: unat_of_nat take_bit_nat_eq_self_iff)
  moreover have "(of_nat (length payload) :: u32) \<noteq> 0"
    using calculation assms(1) by (metis length_0_conv unsigned_0)
  moreover have "take 16 s = RpcRequestHeader_to_net ?h" "drop 16 s = payload" using s(1) by simp_all
  ultimately show ?thesis
    using len rest assms(1) s(3)
    by (simp add: validate_request_def RpcInstance_def sizeof_RpcRequestHeader_def Let_def) (auto simp: RpcRequestMessage_def)
qed

end
