(* ===== verification/Net_Conn.thy ===== *)
theory Net_Conn
  imports Wire
begin

text \<open>
  A server connection (\<^verbatim>\<open>src/source/Network/TcpConnAsync.cpp\<close> and \<^verbatim>\<open>NetConn.h\<close>): the reader, which cuts the byte stream
  into messages and hands their payloads to the dispatcher, and the writer, which sends the
  queued messages block by block.

  An asynchronous operation is split where the code splits it: starting a read records which handler is bound
  to it (\<open>reading\<close>), the handlers are the operations that run when it completes. Writes in flight
  are recorded with their length (\<open>writing\<close>); their bytes are read from the block of the connection
  when they complete, since \<^verbatim>\<open>async_write\<close> does not copy the buffer it is given. The payloads given to the
  dispatcher are collected in \<open>dispatched\<close>.
\<close>

datatype conn_stat = kWorking | kPending | kError | kClosed

datatype send_status = SendStatus_kSend | SendStatus_kDone

datatype read_op = ReadHeader | ReadBody

datatype socket_error = connection_reset | timed_out | bad_descriptor | eof | operation_aborted | other_error

definition kFixedIoBufferSize :: u32 where
  "kFixedIoBufferSize = 2048"

text \<open>The settings of the server that a connection reads.\<close>

record net_limits =
  recv_max_msg_size :: int
  send_max_msg_size :: int
  ops_cancel_time_out :: int

record conn =
  conn_stat :: conn_stat
  was_cancelled :: bool
  ops_cancel_timer :: bool
  recv_header :: header
  recv_buffer :: buffer
  reading :: "read_op option"
  send_status :: send_status
  send_buffer :: buffer
  send_block :: string
  writing :: "u32 list"
  sent :: string
  dispatched :: "string list"

definition TcpConnAsync :: conn where
  "TcpConnAsync =
     \<lparr>conn_stat = kPending, was_cancelled = False, ops_cancel_timer = False,
      recv_header = \<lparr>h_magic = 0, h_version = 0, h_length = 0, h_rev1 = 0, h_rev2 = 0\<rparr>, recv_buffer = [], reading = None,
      send_status = SendStatus_kDone, send_buffer = [], send_block = replicate (unat kFixedIoBufferSize) (CHR 0x00),
      writing = [], sent = [], dispatched = []\<rparr>"

subsection \<open>Socket helpers\<close>

definition sock_shutdown_and_close :: "conn \<Rightarrow> conn" where
  "sock_shutdown_and_close c = (if conn_stat c = kClosed then c else c\<lparr>conn_stat := kClosed\<rparr>)"

definition ops_cancel :: "conn \<Rightarrow> conn" where
  "ops_cancel c = c\<lparr>conn_stat := kError, was_cancelled := True\<rparr>"

definition set_ops_cancel_timeout :: "net_limits \<Rightarrow> conn \<Rightarrow> conn" where
  "set_ops_cancel_timeout lim c = (if ops_cancel_time_out lim = 0 then c else c\<lparr>ops_cancel_timer := True\<rparr>)"

definition revoke_ops_cancel_timeout :: "conn \<Rightarrow> conn" where
  "revoke_ops_cancel_timeout c = c\<lparr>ops_cancel_timer := False\<rparr>"

definition ops_cancel_timeout_call :: "socket_error option \<Rightarrow> conn \<Rightarrow> conn" where
  "ops_cancel_timeout_call ec c = (case ec of None \<Rightarrow> sock_shutdown_and_close (ops_cancel c) | Some e \<Rightarrow> c)"

definition handle_socket_ec :: "socket_error \<Rightarrow> conn \<Rightarrow> bool \<times> conn" where
  "handle_socket_ec ec c =
     (let close_socket =
        (if ec = connection_reset \<or> ec = timed_out \<or> ec = bad_descriptor then True
         else if ec = eof then True
         else if ec = operation_aborted then False
         else True)
      in (close_socket,
          if close_socket \<or> was_cancelled c
          then sock_shutdown_and_close (ops_cancel (revoke_ops_cancel_timeout c)) else c))"

subsection \<open>Reading\<close>

definition parse_header :: "net_limits \<Rightarrow> conn \<Rightarrow> int \<times> conn" where
  "parse_header lim c =
     (if unat (Buffer_get_length (recv_buffer c)) < sizeof_Header then (1, c)
      else
        let (ok, head_str, b) = Buffer_consume (recv_buffer c) [] (of_nat sizeof_Header);
            h = Header_from_net head_str;
            c' = c\<lparr>recv_header := h, recv_buffer := b\<rparr>
        in if h_magic h \<noteq> kHeaderMagic \<or> h_version h \<noteq> kHeaderVersion then (-1, c')
           else if recv_max_msg_size lim \<noteq> 0 \<and> h_length h > of_int (recv_max_msg_size lim) then (-1, c')
           else (0, c'))"

definition parse_msg_body :: "conn \<Rightarrow> int \<times> message \<times> conn" where
  "parse_msg_body c =
     (if Buffer_get_length (recv_buffer c) < h_length (recv_header c)
      then (1, \<lparr>m_header = \<lparr>h_magic = 0, h_version = 0, h_length = 0, h_rev1 = 0, h_rev2 = 0\<rparr>, m_payload = []\<rparr>, c)
      else
        let (ok, msg_str, b) = Buffer_consume (recv_buffer c) [] (h_length (recv_header c))
        in (0, \<lparr>m_header = recv_header c, m_payload = msg_str\<rparr>, c\<lparr>recv_buffer := b\<rparr>))"

definition dispatch :: "message \<Rightarrow> conn \<Rightarrow> conn" where
  "dispatch msg c = c\<lparr>dispatched := dispatched c @ [m_payload msg]\<rparr>"

function do_read :: "net_limits \<Rightarrow> conn \<Rightarrow> conn" and do_read_msg :: "net_limits \<Rightarrow> conn \<Rightarrow> conn" where
  "do_read lim c =
     (if conn_stat c \<noteq> kWorking then c
      else if was_cancelled c then c
      else if unat (Buffer_get_length (recv_buffer c)) < sizeof_Header
      then (set_ops_cancel_timeout lim c)\<lparr>reading := Some ReadHeader\<rparr>
      else case parse_header lim c of (ret, c') \<Rightarrow>
        if ret = 0 then do_read_msg lim c'
        else if ret > 0 then do_read lim c'
        else sock_shutdown_and_close c')"
| "do_read_msg lim c =
     (if conn_stat c \<noteq> kWorking then c
      else if was_cancelled c then c
      else if Buffer_get_length (recv_buffer c) < h_length (recv_header c)
      then (set_ops_cancel_timeout lim c)\<lparr>reading := Some ReadBody\<rparr>
      else case parse_msg_body c of (ret, msg, c') \<Rightarrow>
        if ret = 0 then do_read lim (dispatch msg c')
        else if ret > 0 then do_read_msg lim c'
        else sock_shutdown_and_close c')"
  by pat_completeness auto
termination
proof (relation "measure (case_sum (\<lambda>(l, c). 2 * length (recv_buffer c)) (\<lambda>(l, c). 2 * length (recv_buffer c) + 1))", goal_cases)
  case 1
  show ?case by simp
next
  case (2 lim c ret c')
  then show ?case
    using Buffer_get_length_le [of "recv_buffer c"]
    by (auto simp: parse_header_def sizeof_Header_def Let_def split: if_splits)
next
  case (3 lim c ret c')
  then show ?case by (auto simp: parse_header_def Let_def split: if_splits)
next
  case (4 lim c ret y)
  then show ?case by (auto simp: parse_msg_body_def dispatch_def split: if_splits)
next
  case (5 lim c ret y)
  then show ?case by (auto simp: parse_msg_body_def split: if_splits)
qed

declare do_read.simps [simp del] do_read_msg.simps [simp del]

definition read_handler :: "net_limits \<Rightarrow> socket_error + string \<Rightarrow> conn \<Rightarrow> conn" where
  "read_handler lim r c0 =
     (let c = revoke_ops_cancel_timeout c0 in
      case r of Inl ec \<Rightarrow> snd (handle_socket_ec ec c)
      | Inr str \<Rightarrow>
          let c1 = c\<lparr>recv_buffer := Buffer_append_internal (recv_buffer c) str\<rparr> in
          if unat (Buffer_get_length (recv_buffer c1)) < sizeof_Header then do_read lim c1
          else case parse_header lim c1 of (ret, c2) \<Rightarrow>
            if ret = 0 then do_read_msg lim c2
            else if ret > 0 then do_read lim c2
            else sock_shutdown_and_close c2)"

definition read_msg_handler :: "net_limits \<Rightarrow> socket_error + string \<Rightarrow> conn \<Rightarrow> conn" where
  "read_msg_handler lim r c0 =
     (let c = revoke_ops_cancel_timeout c0 in
      case r of Inl ec \<Rightarrow> snd (handle_socket_ec ec c)
      | Inr str \<Rightarrow>
          let c1 = c\<lparr>recv_buffer := Buffer_append_internal (recv_buffer c) str\<rparr> in
          case parse_msg_body c1 of (ret, msg, c2) \<Rightarrow>
            if ret = 0 then do_read lim (dispatch msg c2)
            else if ret > 0 then do_read_msg lim c2
            else sock_shutdown_and_close c2)"

definition conn_start :: "net_limits \<Rightarrow> conn \<Rightarrow> conn" where
  "conn_start lim c = do_read lim (c\<lparr>conn_stat := kWorking\<rparr>)"

definition conn_stop :: "conn \<Rightarrow> conn" where
  "conn_stop c = c\<lparr>conn_stat := kPending\<rparr>"

text \<open>Bytes that arrive complete the outstanding read; there is none on a closed socket.\<close>

definition on_bytes :: "net_limits \<Rightarrow> string \<Rightarrow> conn \<Rightarrow> conn" where
  "on_bytes lim s c =
     (if conn_stat c = kClosed then c
      else case reading c of None \<Rightarrow> c
      | Some ReadHeader \<Rightarrow> read_handler lim (Inr s) (c\<lparr>reading := None\<rparr>)
      | Some ReadBody \<Rightarrow> read_msg_handler lim (Inr s) (c\<lparr>reading := None\<rparr>))"

subsection \<open>Writing\<close>

definition do_write_ready :: "conn \<Rightarrow> bool" where
  "do_write_ready c \<longleftrightarrow> send_status c = SendStatus_kDone \<and> conn_stat c = kWorking \<and> \<not> was_cancelled c"

definition do_write_locked :: "net_limits \<Rightarrow> conn \<Rightarrow> conn res" where
  "do_write_locked lim c =
     (if Buffer_get_length (send_buffer c) = 0 then Inr (c\<lparr>send_status := SendStatus_kDone\<rparr>)
      else
        let to_write = min (Buffer_get_length (send_buffer c)) kFixedIoBufferSize in
        res_bind (Buffer_consume_block (send_buffer c) (send_block c) to_write) (\<lambda>(ok, blk, b).
          Inr ((set_ops_cancel_timeout lim
                 (c\<lparr>send_buffer := b, send_block := blk, send_status := SendStatus_kSend\<rparr>))
               \<lparr>writing := writing c @ [to_write]\<rparr>)))"

definition do_write :: "net_limits \<Rightarrow> conn \<Rightarrow> conn res" where
  "do_write lim c = (if do_write_ready c then do_write_locked lim c else Inr c)"

definition send_queue :: "message \<Rightarrow> conn \<Rightarrow> conn" where
  "send_queue msg c = c\<lparr>send_buffer := Buffer_append (send_buffer c) msg\<rparr>"

definition async_send_message :: "net_limits \<Rightarrow> message \<Rightarrow> conn \<Rightarrow> (int \<times> conn) res" where
  "async_send_message lim msg c =
     (if send_max_msg_size lim \<noteq> 0 \<and> h_length (m_header msg) > of_int (send_max_msg_size lim) then Inr (-1, c)
      else res_bind (do_write lim (send_queue msg c)) (\<lambda>c'. Inr (0, c')))"

definition write_handler :: "net_limits \<Rightarrow> socket_error option \<Rightarrow> conn \<Rightarrow> conn res" where
  "write_handler lim ec c0 =
     (let c = revoke_ops_cancel_timeout c0 in
      case ec of Some e \<Rightarrow> Inr (snd (handle_socket_ec e c))
      | None \<Rightarrow> do_write lim (c\<lparr>send_status := SendStatus_kDone\<rparr>))"

text \<open>The oldest write in flight completes: its bytes are on the wire, then its handler runs.\<close>

definition on_written :: "net_limits \<Rightarrow> conn \<Rightarrow> conn res" where
  "on_written lim c =
     (case writing c of [] \<Rightarrow> Inr c
      | n # ns \<Rightarrow> write_handler lim None (c\<lparr>writing := ns, sent := sent c @ take (unat n) (send_block c)\<rparr>))"

end
