(* ===== verification/Rpc_Client.thy ===== *)
theory Rpc_Client
  imports Rpc Net_Conn
begin

text \<open>
  The client side of RPC (\<^verbatim>\<open>src/source/Client\<close>): the status codes, the settings, the synchronous and the asynchronous call of
  \<open>RpcClientImpl\<close> with their timers, and the two connection classes below them.
\<close>

subsection \<open>Status and settings\<close>

text \<open>\<open>RpcClientStatus\<close> is an enumeration over 8 bits; its first eight values are those of \<open>RpcResponseStatus\<close>, and a status received
  from a server is cast to it, whatever its value.\<close>

type_synonym rpc_client_status = u8

definition client_OK :: rpc_client_status where
  "client_OK = 0"

definition NETWORK_BEFORE_ERROR :: rpc_client_status where
  "NETWORK_BEFORE_ERROR = 10"

definition NETWORK_CONNECT_ERROR :: rpc_client_status where
  "NETWORK_CONNECT_ERROR = 11"

definition NETWORK_SEND_ERROR :: rpc_client_status where
  "NETWORK_SEND_ERROR = 12"

definition NETWORK_RECV_ERROR :: rpc_client_status where
  "NETWORK_RECV_ERROR = 13"

definition RPC_CALL_TIMEOUT :: rpc_client_status where
  "RPC_CALL_TIMEOUT = 20"

definition RECV_FORMAT_ERROR :: rpc_client_status where
  "RECV_FORMAT_ERROR = 21"

definition PROTOBUF_FORMAT_ERROR :: rpc_client_status where
  "PROTOBUF_FORMAT_ERROR = 22"

lemmas client_status_defs = client_OK_def NETWORK_BEFORE_ERROR_def NETWORK_CONNECT_ERROR_def NETWORK_SEND_ERROR_def
  NETWORK_RECV_ERROR_def RPC_CALL_TIMEOUT_def RECV_FORMAT_ERROR_def PROTOBUF_FORMAT_ERROR_def

record client_setting =
  serv_addr :: string
  serv_port :: u32
  cs_send_max_msg_size :: u32
  cs_recv_max_msg_size :: u32
  log_level :: u32
  has_handler :: bool
  has_io_service :: bool

definition RpcClientSetting :: client_setting where
  "RpcClientSetting =
     \<lparr>serv_addr = [], serv_port = 0, cs_send_max_msg_size = 0, cs_recv_max_msg_size = 0, log_level = 7, has_handler = False,
      has_io_service = False\<rparr>"

text \<open>The state of \<open>RpcClientImpl\<close>; a connection is there or not, and \<open>rpc_call_timer\<close> is the flag of the pending timer, with
  whether it guards a synchronous call.\<close>

record client_impl =
  conn_sync :: bool
  conn_async :: bool
  was_timeout :: bool
  rpc_call_timer :: "bool option"

definition RpcClientImpl :: client_impl where
  "RpcClientImpl = \<lparr>conn_sync = False, conn_async = False, was_timeout = False, rpc_call_timer = None\<rparr>"

definition set_rpc_call_timeout :: "u32 \<Rightarrow> bool \<Rightarrow> client_impl \<Rightarrow> client_impl" where
  "set_rpc_call_timeout sec sync im =
     (if sec = 0 then im else im\<lparr>was_timeout := False, rpc_call_timer := Some sync\<rparr>)"

text \<open>The timer expires: the connection it was set for is shut down. Its pointer may have been reset in the meantime.\<close>

definition rpc_call_timeout :: "bool \<Rightarrow> client_impl \<Rightarrow> client_impl res" where
  "rpc_call_timeout sync im =
     (let im1 = im\<lparr>was_timeout := True, rpc_call_timer := None\<rparr> in
      if sync then (if conn_sync im1 then Inr im1 else Inl NullDeref)
      else (if conn_async im1 then Inr im1 else Inl NullDeref))"

subsection \<open>Calls\<close>

text \<open>
  The world of a synchronous call: whether a connection can be made, whether the request was sent, the message received, if any,
  and whether the timer w_expired before the operation failed.
\<close>

record sync_world =
  w_connects :: bool
  w_sends :: "message \<Rightarrow> bool"
  w_receives :: "message \<Rightarrow> message option"
  w_expired :: bool

definition check_response :: "u16 \<Rightarrow> u16 \<Rightarrow> message \<Rightarrow> rpc_client_status \<times> string option" where
  "check_response service_id opcode net_message =
     (case RpcResponseMessageParse (m_payload net_message) of None \<Rightarrow> (RECV_FORMAT_ERROR, None)
      | Some rsp \<Rightarrow>
          if rs_magic (rs_header rsp) \<noteq> kRpcHeaderMagic \<or> rs_service_id (rs_header rsp) \<noteq> service_id \<or>
             rs_opcode (rs_header rsp) \<noteq> opcode
          then (RECV_FORMAT_ERROR, None)
          else if rs_status (rs_header rsp) \<noteq> status_code OK then (rs_status (rs_header rsp), None)
          else (client_OK, Some (rs_payload rsp)))"

definition call_RPC ::
    "sync_world \<Rightarrow> u16 \<Rightarrow> u16 \<Rightarrow> string \<Rightarrow> u32 \<Rightarrow> client_impl \<Rightarrow> (rpc_client_status \<times> string option) \<times> client_impl" where
  "call_RPC w service_id opcode payload timeout_sec im =
     (if \<not> conn_sync im \<and> \<not> w_connects w then ((NETWORK_CONNECT_ERROR, None), im)
      else
        let im1 = im\<lparr>conn_sync := True\<rparr>;
            request = Message (RpcRequestMessage_net_str (RpcRequestMessage service_id opcode payload));
            im2 = (if timeout_sec > 0 then set_rpc_call_timeout timeout_sec True im1 else im1);
            failed = (\<lambda>e. ((if was_timeout im2 \<or> w_expired w then RPC_CALL_TIMEOUT else e, None),
                           im2\<lparr>conn_sync := False, was_timeout := was_timeout im2 \<or> w_expired w,
                               rpc_call_timer := if w_expired w then None else rpc_call_timer im2\<rparr>))
        in if \<not> w_sends w request then failed NETWORK_SEND_ERROR
           else case w_receives w request of None \<Rightarrow> failed NETWORK_RECV_ERROR
             | Some net_message \<Rightarrow> (check_response service_id opcode net_message, im2))"

definition async_recv_wrapper :: "message \<Rightarrow> rpc_client_status \<times> u16 \<times> u16 \<times> string" where
  "async_recv_wrapper net_message =
     (case RpcResponseMessageParse (m_payload net_message) of None \<Rightarrow> (RECV_FORMAT_ERROR, - 1, - 1, [])
      | Some rsp \<Rightarrow>
          if rs_magic (rs_header rsp) \<noteq> kRpcHeaderMagic then (RECV_FORMAT_ERROR, - 1, - 1, [])
          else if rs_status (rs_header rsp) \<noteq> status_code OK then (rs_status (rs_header rsp), - 1, - 1, [])
          else (client_OK, rs_service_id (rs_header rsp), rs_opcode (rs_header rsp), rs_payload rsp))"

text \<open>The asynchronous call returns when the request is queued (\<open>can_send\<close>).\<close>

definition call_RPC_async ::
    "bool \<Rightarrow> (message \<Rightarrow> bool) \<Rightarrow> u16 \<Rightarrow> u16 \<Rightarrow> string \<Rightarrow> u32 \<Rightarrow> client_impl \<Rightarrow> rpc_client_status \<times> client_impl" where
  "call_RPC_async can_connect can_send service_id opcode payload timeout_sec im =
     (if \<not> conn_async im \<and> \<not> can_connect then (NETWORK_CONNECT_ERROR, im)
      else
        let im1 = im\<lparr>conn_async := True\<rparr>;
            request = Message (RpcRequestMessage_net_str (RpcRequestMessage service_id opcode payload));
            im2 = (if timeout_sec > 0 then set_rpc_call_timeout timeout_sec False im1 else im1)
        in if \<not> can_send request
           then (if was_timeout im2 then RPC_CALL_TIMEOUT else NETWORK_SEND_ERROR, im2\<lparr>conn_async := False\<rparr>)
           else (client_OK, im2))"

text \<open>\<open>RpcClient\<close> checks that it is initialised, and for asynchronous calls that it has a handler; a peer maps the status to a code.\<close>

definition RpcClient_call_RPC ::
    "bool \<Rightarrow> sync_world \<Rightarrow> u16 \<Rightarrow> u16 \<Rightarrow> string \<Rightarrow> u32 \<Rightarrow> client_impl \<Rightarrow> (rpc_client_status \<times> string option) \<times> client_impl" where
  "RpcClient_call_RPC is_init w service_id opcode payload timeout_sec im =
     (if \<not> is_init then ((NETWORK_BEFORE_ERROR, None), im) else call_RPC w service_id opcode payload timeout_sec im)"

definition RpcClient_call_RPC_async ::
    "bool \<Rightarrow> client_setting \<Rightarrow> bool \<Rightarrow> (message \<Rightarrow> bool) \<Rightarrow> u16 \<Rightarrow> u16 \<Rightarrow> string \<Rightarrow> u32 \<Rightarrow> client_impl \<Rightarrow>
       rpc_client_status \<times> client_impl" where
  "RpcClient_call_RPC_async is_init cs can_connect can_send service_id opcode payload timeout_sec im =
     (if \<not> is_init then (NETWORK_BEFORE_ERROR, im)
      else if \<not> has_handler cs then (NETWORK_BEFORE_ERROR, im)
      else call_RPC_async can_connect can_send service_id opcode payload timeout_sec im)"

definition proxy_client_RPC ::
    "bool \<Rightarrow> sync_world \<Rightarrow> u16 \<Rightarrow> u16 \<Rightarrow> string \<Rightarrow> client_impl \<Rightarrow> (int \<times> string option) \<times> client_impl" where
  "proxy_client_RPC is_init w service_id opcode payload im =
     (let ((status, respload), im') = RpcClient_call_RPC is_init w service_id opcode payload 0 im
      in ((if status = client_OK then 0 else -1, respload), im'))"

end
