(* ===== verification/Framing.thy ===== *)
theory Framing
  imports Net_Conn
begin

text \<open>
  The reader of a connection against a reference definition that cuts a whole byte stream into messages: whatever the
  blocks in which the stream arrives, the connection is where the reference
  is after the bytes received so far.
\<close>

subsection \<open>The reference\<close>

datatype framing = InHeader string | InBody header string | BadHeader

function frames :: "(header \<Rightarrow> bool) \<Rightarrow> string \<Rightarrow> string list \<times> framing" where
  "frames ok s =
     (if length s < 16 then ([], InHeader s)
      else let h = Header_from_net (take 16 s); r = drop 16 s in
        if \<not> ok h then ([], BadHeader)
        else if length r < unat (h_length h) then ([], InBody h r)
        else let (ps, e) = frames ok (drop (unat (h_length h)) r) in (take (unat (h_length h)) r # ps, e))"
  by pat_completeness auto
termination by (relation "measure (\<lambda>(ok, s). length s)") auto

declare frames.simps [simp del]

definition frames_body :: "(header \<Rightarrow> bool) \<Rightarrow> header \<Rightarrow> string \<Rightarrow> string list \<times> framing" where
  "frames_body ok h r =
     (if length r < unat (h_length h) then ([], InBody h r)
      else let (ps, e) = frames ok (drop (unat (h_length h)) r) in (take (unat (h_length h)) r # ps, e))"

lemma frames_step:
  "frames ok s =
     (if length s < 16 then ([], InHeader s)
      else if ok (Header_from_net (take 16 s)) then frames_body ok (Header_from_net (take 16 s)) (drop 16 s)
      else ([], BadHeader))"
  by (subst frames.simps) (simp add: frames_body_def Let_def)

text \<open>Where the stream stands, as a function of the bytes so far: more bytes are added to the unfinished part.\<close>

definition frames_more :: "(header \<Rightarrow> bool) \<Rightarrow> framing \<Rightarrow> string \<Rightarrow> string list \<times> framing" where
  "frames_more ok e t = (case e of InHeader b \<Rightarrow> frames ok (b @ t) | InBody h b \<Rightarrow> frames_body ok h (b @ t) | BadHeader \<Rightarrow> ([], BadHeader))"

lemma frames_append:
  "frames ok (s @ t) = (let (ps, e) = frames ok s; (qs, e') = frames_more ok e t in (ps @ qs, e'))"
proof (induction ok s rule: frames.induct)
  case (1 ok s)
  let ?h = "Header_from_net (take 16 s)" and ?r = "drop 16 s"
  consider (short) "length s < 16" | (bad) "16 \<le> length s" "\<not> ok ?h"
    | (part) "16 \<le> length s" "ok ?h" "length ?r < unat (h_length ?h)"
    | (full) "16 \<le> length s" "ok ?h" "unat (h_length ?h) \<le> length ?r" by linarith
  then show ?case
  proof cases
    case short
    then show ?thesis by (simp add: frames_step [of ok s] frames_more_def)
  next
    case bad
    then show ?thesis by (simp add: frames_step [of ok s] frames_step [of ok "s @ t"] frames_more_def)
  next
    case part
    then show ?thesis
      by (simp add: frames_step [of ok s] frames_step [of ok "s @ t"] frames_body_def [of _ _ ?r] frames_more_def split: prod.split)
  next
    case full
    let ?n = "unat (h_length ?h)"
    have IH: "frames ok (drop ?n ?r @ t) =
        (let (ps, e) = frames ok (drop ?n ?r); (qs, e') = frames_more ok e t in (ps @ qs, e'))"
      by (rule 1) (use full in simp_all)
    have "\<not> length (?r @ t) < ?n" using full(3) by simp
    then have st: "frames ok (s @ t) = (let (ps, e) = frames ok (drop ?n ?r @ t) in (take ?n ?r # ps, e))"
      "frames ok s = (let (ps, e) = frames ok (drop ?n ?r) in (take ?n ?r # ps, e))"
      using full by (simp_all add: frames_step [of ok s] frames_step [of ok "s @ t"] frames_body_def not_less)
    show ?thesis unfolding st IH by (simp split: prod.split)
  qed
qed

subsection \<open>The connection against the reference\<close>

definition header_ok :: "net_limits \<Rightarrow> header \<Rightarrow> bool" where
  "header_ok lim h \<longleftrightarrow> h_magic h = kHeaderMagic \<and> h_version h = kHeaderVersion \<and>
     (recv_max_msg_size lim = 0 \<or> h_length h \<le> of_int (recv_max_msg_size lim))"

definition stands_at :: "conn \<Rightarrow> framing \<Rightarrow> bool" where
  "stands_at c e \<longleftrightarrow> \<not> was_cancelled c \<and>
     (case e of InHeader b \<Rightarrow> conn_stat c = kWorking \<and> reading c = Some ReadHeader \<and> recv_buffer c = b
      | InBody h b \<Rightarrow> conn_stat c = kWorking \<and> reading c = Some ReadBody \<and> recv_buffer c = b \<and> recv_header c = h
      | BadHeader \<Rightarrow> conn_stat c = kClosed)"

definition conn_follows :: "conn \<Rightarrow> conn \<Rightarrow> string list \<times> framing \<Rightarrow> bool" where
  "conn_follows c c' f \<longleftrightarrow> dispatched c' = dispatched c @ fst f \<and> stands_at c' (snd f)"

lemma parse_header_cases:
  assumes "length (recv_buffer c) < 2 ^ 32" "16 \<le> length (recv_buffer c)"
  defines "h \<equiv> Header_from_net (take 16 (recv_buffer c))"
  shows "parse_header lim c = (if header_ok lim h then 0 else -1, c\<lparr>recv_header := h, recv_buffer := drop 16 (recv_buffer c)\<rparr>)"
proof -
  have ne: "recv_buffer c \<noteq> []" using assms(2) by auto
  show ?thesis
    using assms(2) Buffer_get_length_small [OF assms(1)] ne
    by (auto simp: parse_header_def sizeof_Header_def header_ok_def h_def Let_def not_le)
qed

lemma parse_body_cases:
  assumes "length (recv_buffer c) < 2 ^ 32" "unat (h_length (recv_header c)) \<le> length (recv_buffer c)"
  shows "parse_msg_body c = (0, \<lparr>m_header = recv_header c, m_payload = take (unat (h_length (recv_header c))) (recv_buffer c)\<rparr>,
    c\<lparr>recv_buffer := drop (unat (h_length (recv_header c))) (recv_buffer c)\<rparr>)"
  using assms(2) Buffer_get_length_small [OF assms(1)] by (auto simp: parse_msg_body_def word_less_nat_alt unat_eq_zero)

lemma body_short:
  "length (recv_buffer c) < 2 ^ 32 \<Longrightarrow>
     Buffer_get_length (recv_buffer c) < h_length (recv_header c) \<longleftrightarrow> length (recv_buffer c) < unat (h_length (recv_header c))"
  by (simp add: word_less_nat_alt Buffer_get_length_small)

lemma set_ops_cancel_timeout_fields [simp]:
  "conn_stat (set_ops_cancel_timeout lim c) = conn_stat c" "was_cancelled (set_ops_cancel_timeout lim c) = was_cancelled c"
  "recv_buffer (set_ops_cancel_timeout lim c) = recv_buffer c" "recv_header (set_ops_cancel_timeout lim c) = recv_header c"
  "dispatched (set_ops_cancel_timeout lim c) = dispatched c" "send_status (set_ops_cancel_timeout lim c) = send_status c"
  "send_buffer (set_ops_cancel_timeout lim c) = send_buffer c" "send_block (set_ops_cancel_timeout lim c) = send_block c"
  "writing (set_ops_cancel_timeout lim c) = writing c" "sent (set_ops_cancel_timeout lim c) = sent c"
  by (simp_all add: set_ops_cancel_timeout_def)

lemma reader_follows:
  "conn_stat c = kWorking \<Longrightarrow> \<not> was_cancelled c \<Longrightarrow> length (recv_buffer c) < 2 ^ 32 \<Longrightarrow>
     conn_follows c (do_read lim c) (frames (header_ok lim) (recv_buffer c))"
  "conn_stat c = kWorking \<Longrightarrow> \<not> was_cancelled c \<Longrightarrow> length (recv_buffer c) < 2 ^ 32 \<Longrightarrow>
     conn_follows c (do_read_msg lim c) (frames_body (header_ok lim) (recv_header c) (recv_buffer c))"
proof (induction lim c and lim c rule: do_read_do_read_msg.induct)
  case (1 lim c)
  let ?h = "Header_from_net (take 16 (recv_buffer c))" and ?b = "drop 16 (recv_buffer c)"
  show ?case
  proof (cases "length (recv_buffer c) < 16")
    case True
    then have "do_read lim c = (set_ops_cancel_timeout lim c)\<lparr>reading := Some ReadHeader\<rparr>"
      using 1 by (simp add: do_read.simps [of lim c] sizeof_Header_def Buffer_get_length_small)
    with True 1 show ?thesis by (simp add: frames_step [of _ "recv_buffer c"] conn_follows_def stands_at_def)
  next
    case False
    let ?c = "c\<lparr>recv_header := ?h, recv_buffer := ?b\<rparr>"
    have ph: "parse_header lim c = (if header_ok lim ?h then 0 else -1, ?c)"
      using parse_header_cases [of c lim] False 1 by simp
    show ?thesis
    proof (cases "header_ok lim ?h")
      case True
      have "do_read lim c = do_read_msg lim ?c"
        using 1 False True ph by (simp add: do_read.simps [of lim c] sizeof_Header_def Buffer_get_length_small)
      moreover have "conn_follows ?c (do_read_msg lim ?c) (frames_body (header_ok lim) ?h ?b)"
        using "1.IH"(1) [of 0 ?c] 1 False True ph by (simp add: sizeof_Header_def Buffer_get_length_small)
      ultimately show ?thesis using False True by (simp add: frames_step [of _ "recv_buffer c"] conn_follows_def)
    next
      case bad: False
      have "do_read lim c = sock_shutdown_and_close ?c"
        using 1 False bad ph by (simp add: do_read.simps [of lim c] sizeof_Header_def Buffer_get_length_small)
      with 1 False bad show ?thesis
        by (simp add: frames_step [of _ "recv_buffer c"] conn_follows_def stands_at_def sock_shutdown_and_close_def)
    qed
  qed
next
  case (2 lim c)
  let ?n = "unat (h_length (recv_header c))"
  show ?case
  proof (cases "length (recv_buffer c) < ?n")
    case True
    then have "do_read_msg lim c = (set_ops_cancel_timeout lim c)\<lparr>reading := Some ReadBody\<rparr>"
      using 2 by (simp add: do_read_msg.simps [of lim c] body_short)
    with True 2 show ?thesis by (simp add: frames_body_def conn_follows_def stands_at_def)
  next
    case False
    let ?m = "\<lparr>m_header = recv_header c, m_payload = take ?n (recv_buffer c)\<rparr>"
    let ?c = "c\<lparr>recv_buffer := drop ?n (recv_buffer c)\<rparr>"
    have pb: "parse_msg_body c = (0, ?m, ?c)" using parse_body_cases [of c] False 2 by simp
    have "do_read_msg lim c = do_read lim (dispatch ?m ?c)"
      using 2 False pb by (simp add: do_read_msg.simps [of lim c] body_short)
    moreover have "conn_follows (dispatch ?m ?c) (do_read lim (dispatch ?m ?c)) (frames (header_ok lim) (drop ?n (recv_buffer c)))"
      using "2.IH"(1) [of 0 "(?m, ?c)" ?m ?c] 2 False pb by (simp add: body_short dispatch_def)
    ultimately show ?thesis
      using False by (simp add: frames_body_def conn_follows_def dispatch_def split_beta)
  qed
qed

text \<open>How long a buffer can get before the next bytes arrive.\<close>

definition small_limit :: "net_limits \<Rightarrow> bool" where
  "small_limit lim \<longleftrightarrow> 0 < recv_max_msg_size lim \<and> recv_max_msg_size lim < 2 ^ 31"

lemma recv_max_unat: "small_limit lim \<Longrightarrow> unat (of_int (recv_max_msg_size lim) :: u32) = nat (recv_max_msg_size lim)"
  by (simp add: small_limit_def unsigned_of_int nat_take_bit_eq take_bit_nat_eq_self_iff nat_less_iff)

lemma header_ok_small: "small_limit lim \<Longrightarrow> header_ok lim h \<Longrightarrow> unat (h_length h) < 2 ^ 31"
  using recv_max_unat [of lim] by (auto simp: small_limit_def header_ok_def word_le_nat_alt)

lemma frames_end:
  "case snd (frames ok s) of InHeader b \<Rightarrow> length b < 16 | InBody h b \<Rightarrow> ok h \<and> length b < unat (h_length h) | BadHeader \<Rightarrow> True"
proof (induction ok s rule: frames.induct)
  case (1 ok s)
  show ?case
    by (subst frames_step) (use 1 in \<open>auto simp: frames_body_def split: prod.split\<close>)
qed

lemma frames_end_small:
  assumes "small_limit lim" "snd (frames (header_ok lim) s) = e" "e \<noteq> BadHeader" "length t \<le> 2048"
  shows "\<exists>b. (e = InHeader b \<or> (\<exists>h. e = InBody h b)) \<and> length (b @ t) < 2 ^ 32"
proof (cases e)
  case (InHeader b)
  then show ?thesis using frames_end [of "header_ok lim" s] assms by auto
next
  case (InBody h b)
  then show ?thesis using frames_end [of "header_ok lim" s] header_ok_small [of lim h] assms by auto
qed (use assms in simp)

lemma on_bytes_follows:
  assumes "small_limit lim" "stands_at c (snd (frames (header_ok lim) s))" "length t \<le> 2048"
  shows "conn_follows c (on_bytes lim t c) (frames_more (header_ok lim) (snd (frames (header_ok lim) s)) t)"
proof (cases "snd (frames (header_ok lim) s)")
  case BadHeader
  then show ?thesis using assms(2) by (simp add: on_bytes_def stands_at_def frames_more_def conn_follows_def)
next
  case (InHeader b)
  have small: "length (b @ t) < 2 ^ 32" using frames_end_small [OF assms(1) InHeader _ assms(3)] by auto
  let ?c = "c\<lparr>reading := None, ops_cancel_timer := False, recv_buffer := b @ t\<rparr>"
  have c: "conn_stat ?c = kWorking" "\<not> was_cancelled ?c" "length (recv_buffer ?c) < 2 ^ 32"
    using assms(2) small by (simp_all add: InHeader stands_at_def)
  have "on_bytes lim t c = do_read lim ?c"
    using assms(2) c by (simp add: InHeader stands_at_def on_bytes_def read_handler_def revoke_ops_cancel_timeout_def Let_def
        Buffer_append_internal_def do_read.simps [of lim ?c])
  with reader_follows(1) [OF c, of lim] show ?thesis
    by (simp add: InHeader frames_more_def conn_follows_def)
next
  case (InBody h b)
  have small: "length (b @ t) < 2 ^ 32" using frames_end_small [OF assms(1) InBody _ assms(3)] by auto
  let ?c = "c\<lparr>reading := None, ops_cancel_timer := False, recv_buffer := b @ t\<rparr>"
  have c: "conn_stat ?c = kWorking" "\<not> was_cancelled ?c" "length (recv_buffer ?c) < 2 ^ 32" "recv_header c = h"
    using assms(2) small by (simp_all add: InBody stands_at_def)
  have "on_bytes lim t c = do_read_msg lim ?c"
    using assms(2) c parse_body_cases [OF c(3)] body_short [OF c(3)]
    by (auto simp: InBody stands_at_def on_bytes_def read_msg_handler_def revoke_ops_cancel_timeout_def Let_def
        Buffer_append_internal_def do_read_msg.simps [of lim ?c] parse_msg_body_def split: prod.split)
  with reader_follows(2) [OF c(1-3), of lim] c(4) show ?thesis
    by (simp add: InBody frames_more_def conn_follows_def)
qed

lemma stream_follows:
  assumes "small_limit lim" "\<forall>t \<in> set ts. length t \<le> 2048"
  shows "conn_follows TcpConnAsync (fold (on_bytes lim) ts (conn_start lim TcpConnAsync)) (frames (header_ok lim) (concat ts))"
  using assms(2)
proof (induction ts rule: rev_induct)
  case Nil
  let ?c = "TcpConnAsync\<lparr>conn_stat := kWorking\<rparr>"
  have "conn_follows ?c (do_read lim ?c) (frames (header_ok lim) (recv_buffer ?c))"
    by (rule reader_follows) (simp_all add: TcpConnAsync_def)
  then show ?case by (simp add: conn_start_def conn_follows_def TcpConnAsync_def)
next
  case (snoc t ts)
  let ?c = "fold (on_bytes lim) ts (conn_start lim TcpConnAsync)"
  have IH: "conn_follows TcpConnAsync ?c (frames (header_ok lim) (concat ts))" using snoc by simp
  then have "conn_follows ?c (on_bytes lim t ?c) (frames_more (header_ok lim) (snd (frames (header_ok lim) (concat ts))) t)"
    using snoc.prems by (intro on_bytes_follows [OF assms(1)]) (simp_all add: conn_follows_def)
  with IH show ?case by (simp add: frames_append conn_follows_def split_beta)
qed

subsection \<open>Streams of messages\<close>

lemma frames_message:
  assumes "header_ok lim (m_header (Message d))" "length d < 2 ^ 32"
  shows "frames (header_ok lim) (Message_net_str (Message d) @ s) =
    (let (ps, e) = frames (header_ok lim) s in (d # ps, e))"
proof -
  have "unat (h_length (m_header (Message d))) = length d"
    using assms(2) by (simp add: Message_def unat_of_nat take_bit_nat_eq_self_iff)
  then show ?thesis
    using assms(1) by (subst frames_step) (simp add: Message_net_str_def frames_body_def, simp add: Message_def)
qed

lemma frames_messages:
  assumes "\<forall>d \<in> set ds. header_ok lim (m_header (Message d)) \<and> length d < 2 ^ 32"
  shows "frames (header_ok lim) (concat (map (\<lambda>d. Message_net_str (Message d)) ds)) = (ds, InHeader [])"
  using assms
proof (induction ds)
  case Nil
  then show ?case by (simp add: frames_step [of _ "[]"])
next
  case (Cons d ds)
  then show ?case by (simp add: frames_message)
qed

lemma header_ok_Message:
  assumes "small_limit lim" "int (length d) \<le> recv_max_msg_size lim"
  shows "header_ok lim (m_header (Message d))" "length d < 2 ^ 32"
proof -
  show "length d < 2 ^ 32" using assms by (simp add: small_limit_def)
  have "(of_nat (length d) :: u32) \<le> of_int (recv_max_msg_size lim)"
    using assms recv_max_unat [OF assms(1)]
    by (simp add: word_le_nat_alt unat_of_nat small_limit_def take_bit_nat_eq_self_iff le_nat_iff)
  then show "header_ok lim (m_header (Message d))" by (simp add: header_ok_def Message_def)
qed

end
