(* ===== verification/Client_Conn.thy ===== *)
theory Client_Conn
  imports Rpc_Client Framing
begin

text \<open>
  The connections of the client (\<^verbatim>\<open>src/source/Client/TcpConnAsync.cpp\<close> and \<^verbatim>\<open>TcpConnSync.cpp\<close>). The asynchronous one is the server's
  connection without the operation timeout: it is modelled on the same record, whose fields \<open>was_cancelled\<close> and \<open>ops_cancel_timer\<close> it never
  touches, and shown equal to it, so that what is proved of the server's reader holds for it. The payloads given to
  the wrapper handler are collected in \<open>dispatched\<close>. The synchronous one reads in a loop until a message is there.
\<close>

subsection \<open>The asynchronous connection\<close>

definition cl_TcpConnAsync :: conn where
  "cl_TcpConnAsync = TcpConnAsync\<lparr>conn_stat := kWorking\<rparr>"

definition cl_handle_socket_ec :: "socket_error \<Rightarrow> conn \<Rightarrow> bool \<times> conn" where
  "cl_handle_socket_ec ec c =
     (let close_socket =
        (if ec = connection_reset \<or> ec = timed_out \<or> ec = bad_descriptor then True
         else if ec = eof then True
         else if ec = operation_aborted then False
         else True)
      in (close_socket, if close_socket then sock_shutdown_and_close c else c))"

definition cl_parse_header :: "client_setting \<Rightarrow> conn \<Rightarrow> int \<times> conn" where
  "cl_parse_header cs c =
     (if unat (Buffer_get_length (recv_buffer c)) < sizeof_Header then (1, c)
      else
        let (ok, head_str, b) = Buffer_consume (recv_buffer c) [] (of_nat sizeof_Header);
            h = Header_from_net head_str;
            c' = c\<lparr>recv_header := h, recv_buffer := b\<rparr>
        in if h_magic h \<noteq> kHeaderMagic \<or> h_version h \<noteq> kHeaderVersion then (-1, c')
           else if cs_recv_max_msg_size cs \<noteq> 0 \<and> h_length h > cs_recv_max_msg_size cs then (-1, c')
           else (0, c'))"

definition cl_parse_msg_body :: "conn \<Rightarrow> int \<times> message \<times> conn" where
  "cl_parse_msg_body c =
     (if Buffer_get_length (recv_buffer c) < h_length (recv_header c)
      then (1, \<lparr>m_header = \<lparr>h_magic = 0, h_version = 0, h_length = 0, h_rev1 = 0, h_rev2 = 0\<rparr>, m_payload = []\<rparr>, c)
      else
        let (ok, msg_str, b) = Buffer_consume (recv_buffer c) [] (h_length (recv_header c))
        in (0, \<lparr>m_header = recv_header c, m_payload = msg_str\<rparr>, c\<lparr>recv_buffer := b\<rparr>))"

function cl_do_read :: "client_setting \<Rightarrow> conn \<Rightarrow> conn" and cl_do_read_msg :: "client_setting \<Rightarrow> conn \<Rightarrow> conn" where
  "cl_do_read cs c =
     (if conn_stat c \<noteq> kWorking then c
      else if unat (Buffer_get_length (recv_buffer c)) < sizeof_Header
      then c\<lparr>reading := Some ReadHeader\<rparr>
      else case cl_parse_header cs c of (ret, c') \<Rightarrow>
        if ret = 0 then cl_do_read_msg cs c'
        else if ret > 0 then cl_do_read cs c'
        else sock_shutdown_and_close c')"
| "cl_do_read_msg cs c =
     (if conn_stat c \<noteq> kWorking then c
      else if Buffer_get_length (recv_buffer c) < h_length (recv_header c)
      then c\<lparr>reading := Some ReadBody\<rparr>
      else case cl_parse_msg_body c of (ret, msg, c') \<Rightarrow>
        if ret = 0 then cl_do_read cs (dispatch msg c')
        else if ret > 0 then cl_do_read_msg cs c'
        else sock_shutdown_and_close c')"
  by pat_completeness auto
termination
proof (relation "measure (case_sum (\<lambda>(l, c). 2 * length (recv_buffer c)) (\<lambda>(l, c). 2 * length (recv_buffer c) + 1))", goal_cases)
  case 1
  show ?case by simp
next
  case (2 cs c ret c')
  then show ?case
    using Buffer_get_length_le [of "recv_buffer c"]
    by (auto simp: cl_parse_header_def sizeof_Header_def Let_def split: if_splits)
next
  case (3 cs c ret c')
  then show ?case by (auto simp: cl_parse_header_def Let_def split: if_splits)
next
  case (4 cs c ret y)
  then show ?case by (auto simp: cl_parse_msg_body_def dispatch_def split: if_splits)
next
  case (5 cs c ret y)
  then show ?case by (auto simp: cl_parse_msg_body_def split: if_splits)
qed

declare cl_do_read.simps [simp del] cl_do_read_msg.simps [simp del]

definition cl_read_handler :: "client_setting \<Rightarrow> socket_error + string \<Rightarrow> conn \<Rightarrow> conn" where
  "cl_read_handler cs r c =
     (case r of Inl ec \<Rightarrow> snd (cl_handle_socket_ec ec c)
      | Inr str \<Rightarrow>
          let c1 = c\<lparr>recv_buffer := Buffer_append_internal (recv_buffer c) str\<rparr> in
          if unat (Buffer_get_length (recv_buffer c1)) < sizeof_Header then cl_do_read cs c1
          else case cl_parse_header cs c1 of (ret, c2) \<Rightarrow>
            if ret = 0 then cl_do_read_msg cs c2
            else if ret > 0 then cl_do_read cs c2
            else sock_shutdown_and_close c2)"

definition cl_read_msg_handler :: "client_setting \<Rightarrow> socket_error + string \<Rightarrow> conn \<Rightarrow> conn" where
  "cl_read_msg_handler cs r c =
     (case r of Inl ec \<Rightarrow> snd (cl_handle_socket_ec ec c)
      | Inr str \<Rightarrow>
          let c1 = c\<lparr>recv_buffer := Buffer_append_internal (recv_buffer c) str\<rparr> in
          case cl_parse_msg_body c1 of (ret, msg, c2) \<Rightarrow>
            if ret = 0 then cl_do_read cs (dispatch msg c2)
            else if ret > 0 then cl_do_read_msg cs c2
            else sock_shutdown_and_close c2)"

definition cl_on_bytes :: "client_setting \<Rightarrow> string \<Rightarrow> conn \<Rightarrow> conn" where
  "cl_on_bytes cs s c =
     (if conn_stat c = kClosed then c
      else case reading c of None \<Rightarrow> c
      | Some ReadHeader \<Rightarrow> cl_read_handler cs (Inr s) (c\<lparr>reading := None\<rparr>)
      | Some ReadBody \<Rightarrow> cl_read_msg_handler cs (Inr s) (c\<lparr>reading := None\<rparr>))"

definition cl_do_write :: "conn \<Rightarrow> (bool \<times> conn) res" where
  "cl_do_write c =
     (if send_status c \<noteq> SendStatus_kDone then Inr (True, c)
      else if conn_stat c \<noteq> kWorking then Inr (False, c)
      else if Buffer_get_length (send_buffer c) = 0 then Inr (True, c)
      else
        let to_write = min (Buffer_get_length (send_buffer c)) kFixedIoBufferSize in
        res_bind (Buffer_consume_block (send_buffer c) (send_block c) to_write) (\<lambda>(ok, blk, b).
          Inr (True, c\<lparr>send_buffer := b, send_block := blk, send_status := SendStatus_kSend, writing := writing c @ [to_write]\<rparr>)))"

definition cl_write_handler :: "socket_error option \<Rightarrow> conn \<Rightarrow> conn res" where
  "cl_write_handler ec c =
     (case ec of Some e \<Rightarrow> Inr (snd (cl_handle_socket_ec e c))
      | None \<Rightarrow> res_bind (cl_do_write (c\<lparr>send_status := SendStatus_kDone\<rparr>)) (\<lambda>(b, c'). Inr c'))"

definition send_net_message :: "client_setting \<Rightarrow> message \<Rightarrow> conn \<Rightarrow> (bool \<times> conn) res" where
  "send_net_message cs msg c =
     (if cs_send_max_msg_size cs \<noteq> 0 \<and> h_length (m_header msg) > cs_send_max_msg_size cs then Inr (False, c)
      else cl_do_write (send_queue msg c))"

subsection \<open>The synchronous connection\<close>

text \<open>
  A blocking read returns an error or between one and 2048 bytes; the reads of a call are given as the list of
  their results, and a call that needs more of them than there are does not return (\<open>None\<close>). The writes
  are given by their error codes; a missing one means success.
\<close>

type_synonym reads = "(socket_error + string) list"

definition TcpConnSync :: conn where
  "TcpConnSync = TcpConnAsync\<lparr>conn_stat := kWorking\<rparr>"

definition sync_handle_socket_ec :: "socket_error \<Rightarrow> conn \<Rightarrow> bool \<times> conn" where
  "sync_handle_socket_ec ec c =
     (let close_socket =
        (if ec = connection_reset \<or> ec = timed_out \<or> ec = bad_descriptor then True
         else if ec = eof then True
         else if ec = operation_aborted then False
         else True)
      in (close_socket, if close_socket then sock_shutdown_and_close c else c))"

definition sync_parse_header :: "client_setting \<Rightarrow> conn \<Rightarrow> int \<times> conn" where
  "sync_parse_header cs c =
     (if unat (Buffer_get_length (recv_buffer c)) < sizeof_Header then (1, c)
      else
        let (ok, head_str, b) = Buffer_consume (recv_buffer c) [] (of_nat sizeof_Header);
            h = Header_from_net head_str;
            c' = c\<lparr>recv_header := h, recv_buffer := b\<rparr>
        in if h_magic h \<noteq> kHeaderMagic \<or> h_version h \<noteq> kHeaderVersion then (-1, c')
           else if cs_recv_max_msg_size cs \<noteq> 0 \<and> h_length h > cs_recv_max_msg_size cs then (-1, c')
           else (0, c'))"

definition sync_parse_msg_body :: "conn \<Rightarrow> int \<times> message \<times> conn" where
  "sync_parse_msg_body c =
     (if Buffer_get_length (recv_buffer c) < h_length (recv_header c)
      then (1, \<lparr>m_header = \<lparr>h_magic = 0, h_version = 0, h_length = 0, h_rev1 = 0, h_rev2 = 0\<rparr>, m_payload = []\<rparr>, c)
      else
        let (ok, msg_str, b) = Buffer_consume (recv_buffer c) [] (h_length (recv_header c))
        in (0, \<lparr>m_header = recv_header c, m_payload = msg_str\<rparr>, c\<lparr>recv_buffer := b\<rparr>))"

fun sync_read_until :: "nat \<Rightarrow> reads \<Rightarrow> conn \<Rightarrow> (bool \<times> conn \<times> reads) option" where
  "sync_read_until need rs c =
     (if unat (Buffer_get_length (recv_buffer c)) < need
      then case rs of [] \<Rightarrow> None
        | Inl ec # rs' \<Rightarrow> Some (False, snd (sync_handle_socket_ec ec c), rs')
        | Inr str # rs' \<Rightarrow> sync_read_until need rs' (c\<lparr>recv_buffer := Buffer_append_internal (recv_buffer c) str\<rparr>)
      else Some (True, c, rs))"

declare sync_read_until.simps [simp del]

definition sync_do_read_msg :: "reads \<Rightarrow> conn \<Rightarrow> (message option \<times> conn \<times> reads) option" where
  "sync_do_read_msg rs c =
     (if conn_stat c \<noteq> kWorking then Some (None, c, rs)
      else case sync_read_until (unat (h_length (recv_header c))) rs c of None \<Rightarrow> None
        | Some (ok, c1, rs1) \<Rightarrow>
            if \<not> ok then Some (None, c1, rs1)
            else case sync_parse_msg_body c1 of (ret, msg, c2) \<Rightarrow>
              if ret = 0 then Some (Some msg, c2, rs1) else Some (None, sock_shutdown_and_close c2, rs1))"

definition sync_do_read :: "client_setting \<Rightarrow> reads \<Rightarrow> conn \<Rightarrow> (message option \<times> conn \<times> reads) option" where
  "sync_do_read cs rs c =
     (if conn_stat c \<noteq> kWorking then Some (None, c, rs)
      else case sync_read_until sizeof_Header rs c of None \<Rightarrow> None
        | Some (ok, c1, rs1) \<Rightarrow>
            if \<not> ok then Some (None, c1, rs1)
            else case sync_parse_header cs c1 of (ret, c2) \<Rightarrow>
              if ret = 0 then sync_do_read_msg rs1 c2 else Some (None, sock_shutdown_and_close c2, rs1))"

function sync_do_write_loop :: "socket_error option list \<Rightarrow> conn \<Rightarrow> (bool \<times> conn) res" where
  "sync_do_write_loop ws c =
     (if Buffer_get_length (send_buffer c) > 0
      then
        let to_write = min (Buffer_get_length (send_buffer c)) kFixedIoBufferSize in
        case Buffer_consume_block (send_buffer c) (send_block c) to_write of Inl e \<Rightarrow> Inl e
        | Inr (ok, blk, b) \<Rightarrow>
            case (case ws of [] \<Rightarrow> None | w # ws' \<Rightarrow> w) of
              Some ec \<Rightarrow> Inr (False, snd (sync_handle_socket_ec ec (c\<lparr>send_buffer := b, send_block := blk\<rparr>)))
            | None \<Rightarrow> sync_do_write_loop (tl ws)
                (c\<lparr>send_buffer := b, send_block := blk, sent := sent c @ take (unat to_write) blk\<rparr>)
      else Inr (True, c))"
  by pat_completeness auto
termination
proof (relation "measure (\<lambda>(ws, c). length (send_buffer c))", goal_cases)
  case 1
  show ?case by simp
next
  case (2 ws c n x ok y blk b)
  have "0 < unat (min (Buffer_get_length (send_buffer c)) kFixedIoBufferSize)"
    using 2(1) by (simp add: min_def kFixedIoBufferSize_def word_less_nat_alt)
  with 2 show ?case by (auto simp: Buffer_consume_block_def Buffer_get_length_def unat_gt_0 split: if_splits)
qed

declare sync_do_write_loop.simps [simp del]

definition sync_do_write :: "socket_error option list \<Rightarrow> conn \<Rightarrow> (bool \<times> conn) res" where
  "sync_do_write ws c = (if conn_stat c \<noteq> kWorking then Inr (False, c) else sync_do_write_loop ws c)"

definition sync_send_net_message :: "client_setting \<Rightarrow> socket_error option list \<Rightarrow> message \<Rightarrow> conn \<Rightarrow> (bool \<times> conn) res" where
  "sync_send_net_message cs ws msg c =
     (if cs_send_max_msg_size cs \<noteq> 0 \<and> h_length (m_header msg) > cs_send_max_msg_size cs then Inr (False, c)
      else sync_do_write ws (c\<lparr>send_buffer := Buffer_append (send_buffer c) msg\<rparr>))"

subsection \<open>The asynchronous connection is the server's without timeouts\<close>

definition as_limits :: "client_setting \<Rightarrow> net_limits" where
  "as_limits cs = \<lparr>recv_max_msg_size = uint (cs_recv_max_msg_size cs), send_max_msg_size = uint (cs_send_max_msg_size cs),
     ops_cancel_time_out = 0\<rparr>"

lemma cl_parse_eq: "cl_parse_header cs c = parse_header (as_limits cs) c" "cl_parse_msg_body c = parse_msg_body c"
  by (simp_all add: cl_parse_header_def parse_header_def as_limits_def uint_0_iff cl_parse_msg_body_def parse_msg_body_def Let_def)

text \<open>The two connections of the client read a message in the same way.\<close>

lemma sync_parse_eq: "sync_parse_header = cl_parse_header" "sync_parse_msg_body = cl_parse_msg_body"
    "sync_handle_socket_ec = cl_handle_socket_ec"
  by (simp_all add: fun_eq_iff sync_parse_header_def cl_parse_header_def sync_parse_msg_body_def cl_parse_msg_body_def
      sync_handle_socket_ec_def cl_handle_socket_ec_def)

lemma parse_cancelled:
  "parse_header lim c = (r, c') \<Longrightarrow> was_cancelled c' = was_cancelled c \<and> ops_cancel_timer c' = ops_cancel_timer c"
  "parse_msg_body c = (r, m, c') \<Longrightarrow> was_cancelled c' = was_cancelled c \<and> ops_cancel_timer c' = ops_cancel_timer c"
  by (auto simp: parse_header_def parse_msg_body_def Let_def split: if_splits)

lemma as_limits_no_timeout: "set_ops_cancel_timeout (as_limits cs) c = c"
  by (simp add: set_ops_cancel_timeout_def as_limits_def)

lemma cl_reader_eq:
  "\<not> was_cancelled c \<Longrightarrow> cl_do_read cs c = do_read (as_limits cs) c"
  "\<not> was_cancelled c \<Longrightarrow> cl_do_read_msg cs c = do_read_msg (as_limits cs) c"
proof (induction cs c and cs c rule: cl_do_read_cl_do_read_msg.induct)
  case (1 cs c)
  obtain ret c' where ph: "parse_header (as_limits cs) c = (ret, c')" by (metis surj_pair)
  have "\<not> was_cancelled c'" using parse_cancelled(1) [OF ph] 1 by simp
  with 1 ph show ?case
    by (subst cl_do_read.simps, subst do_read.simps) (auto simp: cl_parse_eq as_limits_no_timeout)
next
  case (2 cs c)
  obtain ret msg c' where pb: "parse_msg_body c = (ret, msg, c')" by (metis prod_cases3)
  have "\<not> was_cancelled c'" using parse_cancelled(2) [OF pb] 2 by simp
  with 2 pb show ?case
    by (subst cl_do_read_msg.simps, subst do_read_msg.simps) (auto simp: cl_parse_eq as_limits_no_timeout dispatch_def)
qed

end
