(* ===== verification/Net_Props.thy ===== *)
theory Net_Props
  imports Framing
begin

text \<open>
  The connection properties: reassembly of the byte stream, order and completeness of what is sent, the two together, and the
  race between threads that send on one connection.
\<close>

subsection \<open>Reading\<close>

text \<open>C13: However the stream is cut into blocks of at most 2048 bytes, a started connection with a message limit has dispatched
  the payloads of the complete messages of the stream, in order, and is where the reference is: it waits
  for the rest of a header or of a body with exactly the unread bytes buffered, or it has closed the socket at the first bad
  header.\<close>

theorem conn_reassembles:
  assumes "0 < recv_max_msg_size lim" "recv_max_msg_size lim < 2 ^ 31" "\<forall>t \<in> set ts. length t \<le> 2048"
  defines "c \<equiv> fold (on_bytes lim) ts (conn_start lim TcpConnAsync)"
  shows "dispatched c = fst (frames (header_ok lim) (concat ts)) \<and> stands_at c (snd (frames (header_ok lim) (concat ts)))"
  using stream_follows [of lim ts] assms by (simp add: small_limit_def conn_follows_def TcpConnAsync_def)

definition ref_limits :: net_limits where
  "ref_limits = \<lparr>recv_max_msg_size = 1024, send_max_msg_size = 1024, ops_cancel_time_out = 0\<rparr>"

definition ref_stream :: string where
  "ref_stream = Message_net_str (Message ''ab'') @ Message_net_str (Message ''c'')"

lemma ref_stream_frames: "frames (header_ok ref_limits) ref_stream = ([''ab'', ''c''], InHeader [])"
proof -
  have "small_limit ref_limits" by (simp add: small_limit_def ref_limits_def)
  then have "\<forall>d \<in> set [''ab'', ''c'']. header_ok ref_limits (m_header (Message d)) \<and> length d < 2 ^ 32"
    using header_ok_Message [of ref_limits] by (simp add: ref_limits_def)
  from frames_messages [OF this] show ?thesis by (simp add: ref_stream_def)
qed

theorem conn_reassembles_witness:
  "dispatched (fold (on_bytes ref_limits) [take 3 ref_stream, drop 3 ref_stream] (conn_start ref_limits TcpConnAsync)) = [''ab'', ''c'']"
  using conn_reassembles [of ref_limits "[take 3 ref_stream, drop 3 ref_stream]"] ref_stream_frames
  by (simp add: ref_limits_def) (simp add: ref_stream_def Message_net_str_def Message_def)

subsection \<open>Writing\<close>

datatype send_event = Send message | Written

fun send_step :: "net_limits \<Rightarrow> send_event \<Rightarrow> conn \<Rightarrow> conn res" where
  "send_step lim (Send msg) c = res_bind (async_send_message lim msg c) (\<lambda>(ret, c'). Inr c')"
| "send_step lim Written c = on_written lim c"

fun send_run :: "net_limits \<Rightarrow> send_event list \<Rightarrow> conn \<Rightarrow> conn res" where
  "send_run lim [] c = Inr c"
| "send_run lim (e # es) c = res_bind (send_step lim e c) (send_run lim es)"

text \<open>The bytes of the messages that are not refused for their size.\<close>

definition accepted :: "net_limits \<Rightarrow> message \<Rightarrow> bool" where
  "accepted lim msg \<longleftrightarrow> send_max_msg_size lim = 0 \<or> h_length (m_header msg) \<le> of_int (send_max_msg_size lim)"

fun queued :: "net_limits \<Rightarrow> send_event list \<Rightarrow> string" where
  "queued lim [] = []"
| "queued lim (Send msg # es) = (if accepted lim msg then Message_net_str msg else []) @ queued lim es"
| "queued lim (Written # es) = queued lim es"

definition in_flight :: "conn \<Rightarrow> string" where
  "in_flight c = (case writing c of [] \<Rightarrow> [] | n # ns \<Rightarrow> take (unat n) (send_block c))"

text \<open>A write is in flight exactly while the status says so, at most one, and nothing waits in the buffer when none is.\<close>

definition send_inv :: "conn \<Rightarrow> bool" where
  "send_inv c \<longleftrightarrow> conn_stat c = kWorking \<and> \<not> was_cancelled c \<and> length (send_block c) = 2048 \<and>
     (send_status c = SendStatus_kDone \<longrightarrow> writing c = [] \<and> send_buffer c = []) \<and>
     (send_status c = SendStatus_kSend \<longrightarrow> (\<exists>n. writing c = [n] \<and> unat n \<le> 2048))"

definition pipe :: "conn \<Rightarrow> string" where
  "pipe c = sent c @ in_flight c @ send_buffer c"

lemma do_write_pipe:
  assumes "conn_stat c = kWorking" "\<not> was_cancelled c" "length (send_block c) = 2048" "send_status c = SendStatus_kDone"
    "writing c = []" "length (send_buffer c) < 2 ^ 32"
  obtains c' where "do_write lim c = Inr c'" "send_inv c'" "pipe c' = pipe c"
proof (cases "send_buffer c = []")
  case True
  then have "do_write lim c = Inr c"
    using assms by (simp add: do_write_def do_write_ready_def do_write_locked_def Buffer_get_length_def)
  with True assms show ?thesis by (intro that) (simp_all add: send_inv_def)
next
  case False
  let ?n = "min (Buffer_get_length (send_buffer c)) kFixedIoBufferSize"
  have n: "unat ?n = min (length (send_buffer c)) 2048"
    using Buffer_get_length_small [OF assms(6)]
    by (auto simp: min_def word_le_nat_alt kFixedIoBufferSize_def)
  have ne: "?n \<noteq> 0" "Buffer_get_length (send_buffer c) \<noteq> 0"
    using n False Buffer_get_length_small [OF assms(6)] by (auto simp: unat_eq_zero [symmetric] simp del: unat_eq_zero)
  let ?c = "(set_ops_cancel_timeout lim (c\<lparr>send_buffer := drop (unat ?n) (send_buffer c),
      send_block := take (unat ?n) (send_buffer c) @ drop (unat ?n) (send_block c), send_status := SendStatus_kSend\<rparr>))
      \<lparr>writing := [?n]\<rparr>"
  have "do_write lim c = Inr ?c"
    using assms ne False n
    by (simp add: do_write_def do_write_ready_def do_write_locked_def Buffer_consume_block_def Let_def)
  moreover have "send_inv ?c" using assms n by (simp add: send_inv_def)
  moreover have "pipe ?c = pipe c"
    using assms n by (simp add: pipe_def in_flight_def)
  ultimately show ?thesis by (rule that)
qed

lemma send_step_inv:
  assumes "send_inv c" "length (pipe c @ queued lim [e]) < 2 ^ 32"
  obtains c' where "send_step lim e c = Inr c'" "send_inv c'" "pipe c' = pipe c @ queued lim [e]"
proof (cases e)
  case (Send msg)
  show ?thesis
  proof (cases "accepted lim msg")
    case False
    then have "send_step lim e c = Inr c" "queued lim [e] = []"
      by (auto simp: Send accepted_def async_send_message_def)
    with assms show ?thesis by (intro that) simp_all
  next
    case True
    let ?c = "send_queue msg c"
    have st: "send_step lim e c = do_write lim ?c"
      using True by (cases "do_write lim ?c") (auto simp: Send accepted_def async_send_message_def)
    have p: "pipe ?c = pipe c @ queued lim [e]"
      using True by (simp add: Send pipe_def send_queue_def in_flight_def split: list.split)
    show ?thesis
    proof (cases "send_status c")
      case SendStatus_kSend
      then have "do_write lim ?c = Inr ?c" by (simp add: do_write_def do_write_ready_def send_queue_def)
      moreover have "send_inv ?c" using assms(1) SendStatus_kSend by (simp add: send_inv_def send_queue_def)
      ultimately show ?thesis using that st p by simp
    next
      case SendStatus_kDone
      have "length (send_buffer ?c) \<le> length (pipe ?c)" by (simp add: pipe_def)
      also have "\<dots> < 2 ^ 32" using assms(2) by (simp only: p)
      finally have "length (send_buffer ?c) < 2 ^ 32" .
      then obtain c' where "do_write lim ?c = Inr c'" "send_inv c'" "pipe c' = pipe ?c"
        using assms(1) SendStatus_kDone do_write_pipe [of ?c lim] by (auto simp: send_inv_def send_queue_def)
      with that st p show ?thesis by simp
    qed
  qed
next
  case Written
  show ?thesis
  proof (cases "send_status c")
    case SendStatus_kDone
    then show ?thesis using assms by (intro that) (simp_all add: Written send_inv_def on_written_def)
  next
    case SendStatus_kSend
    then obtain n where n: "writing c = [n]" using assms(1) by (auto simp: send_inv_def)
    let ?c = "c\<lparr>writing := [], sent := sent c @ take (unat n) (send_block c), ops_cancel_timer := False,
        send_status := SendStatus_kDone\<rparr>"
    have p: "pipe ?c = pipe c" by (simp add: pipe_def in_flight_def n)
    have "length (send_buffer ?c) < 2 ^ 32" using assms(2) by (simp add: pipe_def)
    then obtain c' where "do_write lim ?c = Inr c'" "send_inv c'" "pipe c' = pipe ?c"
      using assms(1) do_write_pipe [of ?c lim] by (auto simp: send_inv_def)
    moreover have "send_step lim e c = do_write lim ?c"
      by (simp add: Written on_written_def n write_handler_def revoke_ops_cancel_timeout_def)
    ultimately show ?thesis using that p by (simp add: Written)
  qed
qed

lemma send_run_inv:
  assumes "send_inv c" "length (pipe c @ queued lim es) < 2 ^ 32"
  shows "\<exists>c'. send_run lim es c = Inr c' \<and> send_inv c' \<and> pipe c' = pipe c @ queued lim es"
  using assms
proof (induction es arbitrary: c)
  case (Cons e es)
  have q: "queued lim (e # es) = queued lim [e] @ queued lim es" by (cases e) simp_all
  have "length (pipe c @ queued lim [e]) < 2 ^ 32" using Cons.prems(2) q by simp
  from send_step_inv [OF Cons.prems(1) this] obtain c1 where
    c1: "send_step lim e c = Inr c1" "send_inv c1" "pipe c1 = pipe c @ queued lim [e]" .
  with Cons.IH [of c1] Cons.prems(2) q show ?case by simp
qed simp

lemma start_send_inv: "send_inv (conn_start lim TcpConnAsync)" "pipe (conn_start lim TcpConnAsync) = []"
proof -
  let ?c = "TcpConnAsync\<lparr>conn_stat := kWorking\<rparr>"
  have "conn_start lim TcpConnAsync = (set_ops_cancel_timeout lim ?c)\<lparr>reading := Some ReadHeader\<rparr>"
    by (simp add: conn_start_def do_read.simps TcpConnAsync_def Buffer_get_length_def sizeof_Header_def)
  then show "send_inv (conn_start lim TcpConnAsync)" "pipe (conn_start lim TcpConnAsync) = []"
    by (simp_all add: send_inv_def pipe_def in_flight_def TcpConnAsync_def kFixedIoBufferSize_def)
qed

text \<open>With one sending thread, messages are sent whole and in order: after any sequence of sends and completed writes no memory
  is read out of bounds, the bytes on the wire, in flight and in the buffer are together the encodings of
  the accepted messages in the order they were sent, and when no write is in flight everything is on the wire.\<close>

theorem conn_sends_in_order:
  assumes "length (queued lim es) < 2 ^ 32"
  shows "\<exists>c. send_run lim es (conn_start lim TcpConnAsync) = Inr c \<and> sent c @ in_flight c @ send_buffer c = queued lim es \<and>
    (writing c = [] \<longrightarrow> sent c = queued lim es)"
proof -
  obtain c where "send_run lim es (conn_start lim TcpConnAsync) = Inr c" "send_inv c" "pipe c = queued lim es"
    using send_run_inv [OF start_send_inv(1), of lim lim es] start_send_inv(2) [of lim] assms by auto
  then show ?thesis by (intro exI [of _ c], cases "send_status c") (auto simp: send_inv_def pipe_def in_flight_def)
qed

theorem conn_sends_in_order_witness:
  "\<exists>c. send_run ref_limits [Send (Message ''ab''), Send (Message ''c''), Written, Written] (conn_start ref_limits TcpConnAsync) = Inr c \<and>
     sent c @ in_flight c @ send_buffer c = ref_stream"
proof -
  have "accepted ref_limits (Message ''ab'')" "accepted ref_limits (Message ''c'')"
    by (simp_all add: accepted_def ref_limits_def Message_def)
  then have "queued ref_limits [Send (Message ''ab''), Send (Message ''c''), Written, Written] = ref_stream"
    by (simp add: ref_stream_def)
  moreover have "length ref_stream < 2 ^ 32" by (simp add: ref_stream_def Message_net_str_def Message_def)
  ultimately show ?thesis
    using conn_sends_in_order [of ref_limits "[Send (Message ''ab''), Send (Message ''c''), Written, Written]"] by auto
qed

lemma on_written_drained:
  assumes "conn_stat c = kWorking" "\<not> was_cancelled c" "send_buffer c = []" "writing c = k # ks"
  obtains c' where "on_written lim c = Inr c'" "sent c' = sent c @ take (unat k) (send_block c)" "writing c' = ks"
    "send_block c' = send_block c" "send_buffer c' = []" "conn_stat c' = kWorking" "\<not> was_cancelled c'"
  using assms
  by (simp add: on_written_def write_handler_def revoke_ops_cancel_timeout_def do_write_def do_write_ready_def do_write_locked_def
      Buffer_get_length_def)

lemma conn_start_fields:
  "send_status (conn_start lim TcpConnAsync) = SendStatus_kDone" "conn_stat (conn_start lim TcpConnAsync) = kWorking"
  "\<not> was_cancelled (conn_start lim TcpConnAsync)" "send_buffer (conn_start lim TcpConnAsync) = []"
  "length (send_block (conn_start lim TcpConnAsync)) = 2048" "writing (conn_start lim TcpConnAsync) = []"
  "sent (conn_start lim TcpConnAsync) = []"
  by (simp_all add: conn_start_def do_read.simps TcpConnAsync_def Buffer_get_length_def sizeof_Header_def kFixedIoBufferSize_def)

text \<open>C40: Two threads that send on one connection can corrupt the stream: if both have queued a message and passed the test of the send
  status before either holds the lock, the second overwrites the block of the first one's write in flight. With a first
  message of 2048 bytes and a second of at most that, the bytes sent begin with the second message.\<close>

theorem concurrent_sends_overwrite:
  assumes "length (Message_net_str m1) = 2048" "0 < length (Message_net_str m2)" "length (Message_net_str m2) \<le> 2048"
    and "c0 = conn_start lim TcpConnAsync" "c1 = send_queue m2 (send_queue m1 c0)"
  shows "do_write_ready c1 \<and>
    (\<exists>c2 c3 c4 c5. do_write_locked lim c1 = Inr c2 \<and> do_write_locked lim c2 = Inr c3 \<and> on_written lim c3 = Inr c4 \<and>
       on_written lim c4 = Inr c5 \<and>
       sent c5 = Message_net_str m2 @ drop (length (Message_net_str m2)) (Message_net_str m1) @ Message_net_str m2)"
proof -
  let ?a = "Message_net_str m1" and ?b = "Message_net_str m2"
  have c0: "send_status c0 = SendStatus_kDone" "conn_stat c0 = kWorking" "\<not> was_cancelled c0" "send_buffer c0 = []"
      "length (send_block c0) = 2048" "writing c0 = []" "sent c0 = []"
    using assms(4) by (simp_all add: conn_start_fields)
  have l: "Buffer_get_length (?a @ ?b) = of_nat (2048 + length ?b)" "unat (Buffer_get_length (?a @ ?b)) = 2048 + length ?b"
    "unat (Buffer_get_length ?b) = length ?b"
    using Buffer_get_length_small [of "?a @ ?b"] Buffer_get_length_small [of ?b] assms(1,3) by (simp_all add: Buffer_get_length_def)
  have m1: "min (Buffer_get_length (?a @ ?b)) kFixedIoBufferSize = 2048" "Buffer_get_length (?a @ ?b) \<noteq> 0"
    using l(2) assms(2) by (auto simp: min_def word_le_nat_alt kFixedIoBufferSize_def simp flip: unat_eq_zero)
  have m2: "unat (min (Buffer_get_length ?b) kFixedIoBufferSize) = length ?b" "Buffer_get_length ?b \<noteq> 0"
    using l(3) assms(2,3) by (auto simp: min_def word_le_nat_alt kFixedIoBufferSize_def simp flip: unat_eq_zero)
  define n where "n = min (Buffer_get_length ?b) kFixedIoBufferSize"
  have n: "unat n = length ?b" "n \<noteq> 0" using m2 assms(2) by (auto simp: n_def simp flip: unat_eq_zero)
  define c2 where "c2 = (set_ops_cancel_timeout lim (c1\<lparr>send_buffer := ?b, send_block := ?a, send_status := SendStatus_kSend\<rparr>))\<lparr>writing := [2048]\<rparr>"
  define c3 where "c3 = (set_ops_cancel_timeout lim (c2\<lparr>send_buffer := [], send_block := ?b @ drop (length ?b) ?a, send_status := SendStatus_kSend\<rparr>))\<lparr>writing := [2048, n]\<rparr>"
  have s2: "do_write_locked lim c1 = Inr c2"
    using c0 m1 assms(1,2) l by (simp add: c2_def assms(5) do_write_locked_def send_queue_def Buffer_consume_block_def Let_def)
  have s3: "do_write_locked lim c2 = Inr c3"
    using m2 n assms(2) by (auto simp: c3_def c2_def do_write_locked_def Buffer_consume_block_def n_def [symmetric] Let_def)
  have c3: "conn_stat c3 = kWorking" "\<not> was_cancelled c3" "send_buffer c3 = []" "writing c3 = [2048, n]" "sent c3 = []"
      "send_block c3 = ?b @ drop (length ?b) ?a"
    using c0 by (simp_all add: c3_def c2_def assms(5) send_queue_def)
  obtain c4 where c4: "on_written lim c3 = Inr c4" "sent c4 = ?b @ drop (length ?b) ?a" "writing c4 = [n]"
      "send_block c4 = send_block c3" "send_buffer c4 = []" "conn_stat c4 = kWorking" "\<not> was_cancelled c4"
    using on_written_drained [OF c3(1-4), of lim] c3(5,6) assms(1,3) by auto
  obtain c5 where "on_written lim c4 = Inr c5" "sent c5 = ?b @ drop (length ?b) ?a @ ?b"
    using on_written_drained [OF c4(6,7,5,3), of lim] c4(2,4) c3(6) n(1) by auto
  moreover have "do_write_ready c1" using c0 by (simp add: assms(5) send_queue_def do_write_ready_def)
  ultimately show ?thesis using s2 s3 c4(1) by blast
qed

theorem concurrent_sends_overwrite_witness:
  "\<exists>c2 c3 c4 c5. do_write_locked ref_limits (send_queue (Message ''b'') (send_queue (Message (replicate 2032 CHR ''a''))
       (conn_start ref_limits TcpConnAsync))) = Inr c2 \<and> do_write_locked ref_limits c2 = Inr c3 \<and> on_written ref_limits c3 = Inr c4 \<and>
     on_written ref_limits c4 = Inr c5 \<and> take 17 (sent c5) = Message_net_str (Message ''b'')"
proof -
  have l: "length (Message_net_str (Message (replicate 2032 CHR ''a''))) = 2048" "length (Message_net_str (Message ''b'')) = 17"
    by (simp_all add: Message_net_str_def Message_def)
  show ?thesis
    using concurrent_sends_overwrite [of "Message (replicate 2032 CHR ''a'')" "Message ''b''" _ ref_limits, OF l(1) _ _ refl refl] l(2)
    by auto
qed

subsection \<open>From one connection to another\<close>

lemma queued_sends:
  assumes "es \<in> shuffles (map (\<lambda>d. Send (Message d)) ds) (replicate n Written)" "\<forall>d \<in> set ds. accepted lim (Message d)"
  shows "queued lim es = concat (map (\<lambda>d. Message_net_str (Message d)) ds)"
proof -
  let ?P = "\<lambda>e. e \<noteq> Written"
  have "queued lim es = queued lim (filter ?P es)"
    by (induction lim es rule: queued.induct) simp_all
  moreover have "filter ?P es \<in> shuffles (filter ?P (map (\<lambda>d. Send (Message d)) ds)) (filter ?P (replicate n Written))"
    using assms(1) filter_shuffles [of ?P] by blast
  then have "filter ?P es = map (\<lambda>d. Send (Message d)) ds" by simp
  moreover have "queued lim (map (\<lambda>d. Send (Message d)) ds) = concat (map (\<lambda>d. Message_net_str (Message d)) ds)"
    using assms(2) by (induction ds) simp_all
  ultimately show ?thesis by simp
qed

text \<open>C12: What one connection sends is what another dispatches: if the messages a thread sent, in any interleaving with the
  completion of writes, are all on the wire, and the other end receives these bytes cut
  into any blocks of at most 2048 bytes, it dispatches exactly the payloads, in order, and
  waits for the next header.\<close>

theorem messages_cross_the_wire:
  assumes "es \<in> shuffles (map (\<lambda>d. Send (Message d)) ds) (replicate n Written)" "\<forall>d \<in> set ds. accepted lim (Message d)"
    and "length (queued lim es) < 2 ^ 32" "send_run lim es (conn_start lim TcpConnAsync) = Inr c" "writing c = []"
    and "0 < recv_max_msg_size lim'" "recv_max_msg_size lim' < 2 ^ 31" "\<forall>d \<in> set ds. int (length d) \<le> recv_max_msg_size lim'"
    and "concat ts = sent c" "\<forall>t \<in> set ts. length t \<le> 2048"
  shows "dispatched (fold (on_bytes lim') ts (conn_start lim' TcpConnAsync)) = ds \<and>
    stands_at (fold (on_bytes lim') ts (conn_start lim' TcpConnAsync)) (InHeader [])"
proof -
  have sm: "small_limit lim'" using assms(6,7) by (simp add: small_limit_def)
  have "send_inv c \<and> pipe c = queued lim es"
    using send_run_inv [OF start_send_inv(1), of lim lim es] start_send_inv(2) [of lim] assms(3,4) by auto
  then have "sent c = concat (map (\<lambda>d. Message_net_str (Message d)) ds)"
    using queued_sends [OF assms(1,2)] assms(5) by (cases "send_status c") (auto simp: send_inv_def pipe_def in_flight_def)
  moreover have "\<forall>d \<in> set ds. header_ok lim' (m_header (Message d)) \<and> length d < 2 ^ 32"
    using header_ok_Message [OF sm] assms(8) by blast
  ultimately have "frames (header_ok lim') (concat ts) = (ds, InHeader [])" using frames_messages [of ds lim'] assms(9) by simp
  then show ?thesis using stream_follows [OF sm assms(10)] by (simp add: conn_follows_def TcpConnAsync_def)
qed

theorem messages_cross_the_wire_witness:
  "\<exists>c. send_run ref_limits [Send (Message ''ab''), Written] (conn_start ref_limits TcpConnAsync) = Inr c \<and>
     dispatched (fold (on_bytes ref_limits) [take 5 (sent c), drop 5 (sent c)] (conn_start ref_limits TcpConnAsync)) = [''ab'']"
proof -
  let ?es = "[Send (Message ''ab''), Written]" and ?c0 = "conn_start ref_limits TcpConnAsync"
  have a: "accepted ref_limits (Message ''ab'')" by (simp add: accepted_def ref_limits_def Message_def)
  then have q: "queued ref_limits ?es = Message_net_str (Message ''ab'')" "length (queued ref_limits ?es) = 18"
    by (simp_all add: Message_net_str_def) (simp add: Message_def)
  define c1 where "c1 = (send_queue (Message ''ab'') ?c0)\<lparr>send_buffer := [], writing := [18], send_status := SendStatus_kSend,
      send_block := Message_net_str (Message ''ab'') @ drop 18 (send_block ?c0)\<rparr>"
  have s1: "send_step ref_limits (Send (Message ''ab'')) ?c0 = Inr c1"
    using a q by (simp add: accepted_def async_send_message_def do_write_def do_write_ready_def do_write_locked_def send_queue_def
        conn_start_fields Buffer_get_length_def kFixedIoBufferSize_def Buffer_consume_block_def min_def c1_def set_ops_cancel_timeout_def)
      (auto simp: ref_limits_def)
  have c1: "conn_stat c1 = kWorking" "\<not> was_cancelled c1" "send_buffer c1 = []" "writing c1 = [18]"
      "sent c1 = []" "length (send_block c1) = 2048"
    using q by (simp_all add: c1_def send_queue_def conn_start_fields)
  obtain c where w: "on_written ref_limits c1 = Inr c" "writing c = []" "sent c = sent c1 @ take (unat (18 :: u32)) (send_block c1)"
    by (rule on_written_drained [OF c1(1-4), of ref_limits])
  have l: "length (sent c) = 18" by (simp add: w(3) c1)
  have c: "send_run ref_limits ?es ?c0 = Inr c" using s1 w(1) by simp
  have "dispatched (fold (on_bytes ref_limits) [take 5 (sent c), drop 5 (sent c)] ?c0) = [''ab''] \<and>
    stands_at (fold (on_bytes ref_limits) [take 5 (sent c), drop 5 (sent c)] ?c0) (InHeader [])"
  proof (rule messages_cross_the_wire [of ?es "[''ab'']" 1, OF _ _ _ c w(2)])
    show "?es \<in> shuffles (map (\<lambda>d. Send (Message d)) [''ab'']) (replicate 1 Written)" by simp
  qed (use a q(2) l in \<open>simp_all add: ref_limits_def\<close>)
  with c show ?thesis by blast
qed

end
