(* ===== verification/Rpc_Props.thy ===== *)
theory Rpc_Props
  imports Client_Conn Net_Props Vote_Props
begin

text \<open>
  The RPC layer end to end: the client connections, calls that are answered and calls that are rejected, the way of a Raft request
  to the handler of the other node and of its response back, and the timer of a call.
\<close>

subsection \<open>The client's connections\<close>

lemma reader_quiet:
  "was_cancelled (do_read (as_limits cs) c) = was_cancelled c \<and> ops_cancel_timer (do_read (as_limits cs) c) = ops_cancel_timer c"
  "was_cancelled (do_read_msg (as_limits cs) c) = was_cancelled c \<and> ops_cancel_timer (do_read_msg (as_limits cs) c) = ops_cancel_timer c"
proof (induction "as_limits cs" c and "as_limits cs" c rule: do_read_do_read_msg.induct)
  case (1 c)
  obtain ret c' where ph: "parse_header (as_limits cs) c = (ret, c')" by (metis surj_pair)
  show ?case
    using 1 ph parse_cancelled(1) [OF ph]
    by (subst (1 2) do_read.simps) (auto simp: as_limits_no_timeout sock_shutdown_and_close_def)
next
  case (2 c)
  obtain ret msg c' where pb: "parse_msg_body c = (ret, msg, c')" by (metis prod_cases3)
  show ?case
    using 2 pb parse_cancelled(2) [OF pb]
    by (subst (1 2) do_read_msg.simps) (auto simp: as_limits_no_timeout sock_shutdown_and_close_def dispatch_def)
qed

lemma close_quiet: "was_cancelled (sock_shutdown_and_close c) = was_cancelled c"
    "ops_cancel_timer (sock_shutdown_and_close c) = ops_cancel_timer c"
  by (simp_all add: sock_shutdown_and_close_def)

lemma cl_on_bytes_eq:
  assumes "\<not> was_cancelled c" "\<not> ops_cancel_timer c"
  shows "cl_on_bytes cs s c = on_bytes (as_limits cs) s c"
    "\<not> was_cancelled (on_bytes (as_limits cs) s c) \<and> \<not> ops_cancel_timer (on_bytes (as_limits cs) s c)"
proof -
  define c1 where "c1 = c\<lparr>reading := None, recv_buffer := recv_buffer c @ s\<rparr>"
  have c1: "revoke_ops_cancel_timeout (c\<lparr>reading := None\<rparr>) = c\<lparr>reading := None\<rparr>" "\<not> was_cancelled c1" "\<not> ops_cancel_timer c1"
      "c\<lparr>reading := None, recv_buffer := recv_buffer c @ s\<rparr> = c1"
    using assms by (simp_all add: c1_def revoke_ops_cancel_timeout_def)
  obtain r c2 where ph: "parse_header (as_limits cs) c1 = (r, c2)" by (metis surj_pair)
  obtain r' m c3 where pb: "parse_msg_body c1 = (r', m, c3)" by (metis prod_cases3)
  note q = parse_cancelled(1) [OF ph] parse_cancelled(2) [OF pb]
  show "cl_on_bytes cs s c = on_bytes (as_limits cs) s c"
    using c1 q ph pb
    by (auto simp: cl_on_bytes_def on_bytes_def cl_read_handler_def read_handler_def cl_read_msg_handler_def read_msg_handler_def
        Buffer_append_internal_def Let_def cl_parse_eq cl_reader_eq dispatch_def split: option.splits read_op.splits)
  show "\<not> was_cancelled (on_bytes (as_limits cs) s c) \<and> \<not> ops_cancel_timer (on_bytes (as_limits cs) s c)"
    using c1 q ph pb assms
    by (auto simp: on_bytes_def read_handler_def read_msg_handler_def Buffer_append_internal_def Let_def reader_quiet close_quiet
        dispatch_def split: option.splits read_op.splits)
qed

text \<open>C31: The client's asynchronous connection is the server's: on any sequence of received blocks both are in the same state, so that the
  client's wrapper is called with exactly the messages the reference cuts from the stream.\<close>

theorem client_conn_is_server_conn:
  "fold (cl_on_bytes cs) ts (cl_do_read cs cl_TcpConnAsync) = fold (on_bytes (as_limits cs)) ts (conn_start (as_limits cs) TcpConnAsync)"
proof -
  have s: "\<not> was_cancelled (TcpConnAsync\<lparr>conn_stat := kWorking\<rparr>)" "\<not> ops_cancel_timer (TcpConnAsync\<lparr>conn_stat := kWorking\<rparr>)"
    by (simp_all add: TcpConnAsync_def)
  have "fold (cl_on_bytes cs) ts c = fold (on_bytes (as_limits cs)) ts c" if "\<not> was_cancelled c" "\<not> ops_cancel_timer c" for c
    using that by (induction ts arbitrary: c) (simp_all add: cl_on_bytes_eq)
  moreover have "cl_do_read cs cl_TcpConnAsync = conn_start (as_limits cs) TcpConnAsync"
    using cl_reader_eq(1) [OF s(1)] by (simp add: cl_TcpConnAsync_def conn_start_def)
  ultimately show ?thesis
    using reader_quiet(1) [of cs "TcpConnAsync\<lparr>conn_stat := kWorking\<rparr>"] s by (simp add: conn_start_def)
qed

lemma sync_read_until_fills:
  assumes "length (recv_buffer c @ concat ts) < 2 ^ 32" "need \<le> length (recv_buffer c @ concat ts)"
  shows "\<exists>b ts'. sync_read_until need (map Inr ts) c = Some (True, c\<lparr>recv_buffer := b\<rparr>, map Inr ts') \<and>
    b @ concat ts' = recv_buffer c @ concat ts \<and> need \<le> length b"
  using assms
proof (induction ts arbitrary: c)
  case Nil
  then show ?case by (simp add: sync_read_until.simps [of need "[]"] Buffer_get_length_small)
next
  case (Cons t ts)
  let ?c = "c\<lparr>recv_buffer := recv_buffer c @ t\<rparr>"
  show ?case
  proof (cases "length (recv_buffer c) < need")
    case True
    then have "sync_read_until need (map Inr (t # ts)) c = sync_read_until need (map Inr ts) ?c"
      using Cons.prems by (subst sync_read_until.simps) (simp add: Buffer_get_length_small Buffer_append_internal_def)
    then show ?thesis using Cons.IH [of ?c] Cons.prems by simp
  next
    case False
    then have "sync_read_until need (map Inr (t # ts)) c = Some (True, c\<lparr>recv_buffer := recv_buffer c\<rparr>, map Inr (t # ts))"
      using Cons.prems by (subst sync_read_until.simps) (simp add: Buffer_get_length_small)
    with False show ?thesis by (metis linorder_not_less)
  qed
qed

lemma append_cut:
  assumes "b @ x = a @ y" "length a \<le> length b"
  shows "take (length a) b = a" "drop (length a) b @ x = y"
  using assms by (metis append_eq_append_conv2 append_same_eq append_take_drop_id append_eq_conv_conj drop_append diff_is_0_eq drop0)+

text \<open>A synchronous receive returns the next message: if the buffered bytes and the blocks still to be read, of whatever sizes, contain a whole
  message with an acceptable header, the call returns it, without another read, and buffered and unread
  bytes are together what follows the message.\<close>

theorem sync_receives_message:
  assumes "conn_stat c = kWorking" "header_ok (as_limits cs) (m_header (Message d))"
    and "recv_buffer c @ concat ts = Message_net_str (Message d) @ rest" "length (recv_buffer c @ concat ts) < 2 ^ 32"
  shows "\<exists>msg c' ts'. sync_do_read cs (map Inr ts) c = Some (Some msg, c', map Inr ts') \<and> m_payload msg = d \<and>
    conn_stat c' = kWorking \<and> recv_buffer c' @ concat ts' = rest"
proof -
  let ?h = "m_header (Message d)"
  have len: "length d < 2 ^ 32" "unat (h_length ?h) = length d"
    using assms(3,4) by (simp_all add: Message_net_str_def Message_def unat_of_nat take_bit_nat_eq_self_iff)
  have net: "Message_net_str (Message d) = Header_to_net ?h @ d" by (simp add: Message_net_str_def) (simp add: Message_def)
  obtain b ts1 where r1: "sync_read_until 16 (map Inr ts) c = Some (True, c\<lparr>recv_buffer := b\<rparr>, map Inr ts1)"
      "b @ concat ts1 = Header_to_net ?h @ d @ rest" "16 \<le> length b"
    using sync_read_until_fills [of c ts 16] assms(3,4) net by auto
  have b: "take 16 b = Header_to_net ?h" "drop 16 b @ concat ts1 = d @ rest"
    using append_cut [OF r1(2)] r1(3) by simp_all
  let ?c2 = "c\<lparr>recv_header := ?h, recv_buffer := drop 16 b\<rparr>"
  have "length b < 2 ^ 32" using r1(2) assms(3,4) net by (metis append_assoc length_append trans_less_add1 add_lessD1)
  then have ph: "cl_parse_header cs (c\<lparr>recv_buffer := b\<rparr>) = (0, ?c2)"
    using parse_header_cases [of "c\<lparr>recv_buffer := b\<rparr>" "as_limits cs"] r1(3) b(1) assms(2) by (simp add: cl_parse_eq)
  have l2: "length (recv_buffer ?c2 @ concat ts1) < 2 ^ 32" "length d \<le> length (recv_buffer ?c2 @ concat ts1)"
    using b(2) assms(3,4) net by simp_all
  obtain b2 ts2 where r2: "sync_read_until (length d) (map Inr ts1) ?c2 = Some (True, ?c2\<lparr>recv_buffer := b2\<rparr>, map Inr ts2)"
      "b2 @ concat ts2 = d @ rest" "length d \<le> length b2"
    using sync_read_until_fills [OF l2] b(2) by auto
  have b2: "take (length d) b2 = d" "drop (length d) b2 @ concat ts2 = rest"
    using append_cut [OF r2(2,3)] by simp_all
  have "length (b2 @ concat ts2) < 2 ^ 32" using r2(2) l2(1) b(2) by simp
  then have "length b2 < 2 ^ 32" by simp
  then have "cl_parse_msg_body (?c2\<lparr>recv_buffer := b2\<rparr>) =
      (0, \<lparr>m_header = ?h, m_payload = d\<rparr>, ?c2\<lparr>recv_buffer := drop (length d) b2\<rparr>)"
    using parse_body_cases [of "?c2\<lparr>recv_buffer := b2\<rparr>"] r2(3) b2(1) len(2) by (simp add: cl_parse_eq)
  then show ?thesis
    using assms(1) r1(1) ph r2(1) b2(2) len(2) by (simp add: sync_do_read_def sync_do_read_msg_def sync_parse_eq sizeof_Header_def)
qed

definition ref_client :: client_setting where
  "ref_client = RpcClientSetting\<lparr>cs_recv_max_msg_size := 1024\<rparr>"

theorem sync_receives_message_witness:
  "\<exists>msg c' ts'. sync_do_read ref_client (map Inr [take 3 ref_stream, drop 3 ref_stream]) TcpConnSync = Some (Some msg, c', map Inr ts') \<and>
     m_payload msg = ''ab'' \<and> conn_stat c' = kWorking \<and> recv_buffer c' @ concat ts' = Message_net_str (Message ''c'')"
proof (rule sync_receives_message)
  show "conn_stat TcpConnSync = kWorking" by (simp add: TcpConnSync_def)
  show "header_ok (as_limits ref_client) (m_header (Message ''ab''))"
    by (simp add: header_ok_def as_limits_def ref_client_def RpcClientSetting_def Message_def)
  show "recv_buffer TcpConnSync @ concat [take 3 ref_stream, drop 3 ref_stream] =
      Message_net_str (Message ''ab'') @ Message_net_str (Message ''c'')"
    by (simp add: TcpConnSync_def TcpConnAsync_def ref_stream_def [symmetric])
  show "length (recv_buffer TcpConnSync @ concat [take 3 ref_stream, drop 3 ref_stream]) < 2 ^ 32"
    by (simp add: TcpConnSync_def TcpConnAsync_def) (simp add: ref_stream_def Message_net_str_def Message_def)
qed

subsection \<open>Calls\<close>

text \<open>What the server sends back for a message it received, when its service answers with \<open>handler\<close>.\<close>

definition server_answer :: "(rpc_instance \<Rightarrow> rpc_reply) \<Rightarrow> message \<Rightarrow> message" where
  "server_answer handler m =
     (let (ok, inst) = validate_request (RpcInstance (m_payload m) (int (length (m_payload m))))
      in if ok then answer inst (handler inst) else reject INVALID_REQUEST)"

definition request_instance :: "u16 \<Rightarrow> u16 \<Rightarrow> string \<Rightarrow> rpc_instance" where
  "request_instance sid op payload =
     \<lparr>ri_request = [], ri_message = RpcRequestMessage sid op payload, ri_msg_size = int (16 + length payload),
      ri_service_id = sid, ri_opcode = op\<rparr>"

lemma length_request: "length (RpcRequestMessage_net_str (RpcRequestMessage sid op payload)) = 16 + length payload"
  by (simp add: RpcRequestMessage_net_str_def RpcRequestMessage_def)

lemma server_answer_request:
  assumes "payload \<noteq> []" "length payload + 16 < 2 ^ 32"
  shows "server_answer handler (Message (RpcRequestMessage_net_str (RpcRequestMessage sid op payload))) =
    answer (request_instance sid op payload) (handler (request_instance sid op payload))"
  using validate_request_ok [OF assms, of sid op]
  by (simp add: server_answer_def length_request request_instance_def) (simp add: Message_def length_request)

lemma response_parse:
  "RpcResponseMessageParse (RpcResponseMessage_net_str rsp) = Some rsp"
  by (simp add: RpcResponseMessageParse_def RpcResponseMessage_net_str_def sizeof_RpcResponseHeader_def)

lemma call_reply:
  assumes "payload \<noteq> []" "length payload + 16 < 2 ^ 32" "w_connects w" "\<forall>m. w_sends w m" "w_receives w = (\<lambda>m. Some (server_answer handler m))"
    and "handler (request_instance sid op payload) = Reply rsp"
  shows "fst (call_RPC w sid op payload timeout_sec im) = (client_OK, Some rsp)"
proof -
  let ?m = "Message (RpcRequestMessage_net_str (RpcRequestMessage sid op payload))"
  have "m_payload (server_answer handler ?m) = RpcResponseMessage_net_str (RpcResponseMessage sid op rsp)"
    using server_answer_request [OF assms(1,2), of handler sid op] assms(6)
    by (simp add: answer_def reply_rpc_message_def request_instance_def) (simp add: Message_def)
  then have "check_response sid op (server_answer handler ?m) = (client_OK, Some rsp)"
    by (simp add: check_response_def response_parse) (simp add: RpcResponseMessage_def status_code_def client_OK_def)
  then show ?thesis using assms(3-5) by (simp add: call_RPC_def Let_def)
qed

text \<open>A synchronous call is transparent: if the request reaches the server and the service answers it, the call returns OK with the
  payload of the answer, for every service, opcode and non-empty payload.\<close>

theorem call_returns_reply:
  assumes "payload \<noteq> []" "length payload + 16 < 2 ^ 32" "w_connects w" "\<forall>m. w_sends w m" "w_receives w = (\<lambda>m. Some (server_answer handler m))"
    and "handler (request_instance sid op payload) = Reply rsp"
  shows "fst (call_RPC w sid op payload timeout_sec im) = (client_OK, Some rsp)"
  by (rule call_reply [OF assms])

definition ref_world :: "(rpc_instance \<Rightarrow> rpc_reply) \<Rightarrow> sync_world" where
  "ref_world handler = \<lparr>w_connects = True, w_sends = (\<lambda>m. True), w_receives = (\<lambda>m. Some (server_answer handler m)), w_expired = False\<rparr>"

theorem call_returns_reply_witness:
  "fst (call_RPC (ref_world (\<lambda>inst. Reply (''re:'' @ rq_payload (ri_message inst)))) CLIENT_SERVICE kSelect ''q'' 0 RpcClientImpl) =
     (client_OK, Some ''re:q'')"
  by (rule call_returns_reply [where handler = "\<lambda>inst. Reply (''re:'' @ rq_payload (ri_message inst))"])
    (simp_all add: ref_world_def request_instance_def RpcRequestMessage_def)

lemma call_rejected:
  assumes "payload \<noteq> []" "length payload + 16 < 2 ^ 32" "w_connects w" "\<forall>m. w_sends w m" "w_receives w = (\<lambda>m. Some (server_answer handler m))"
    and "handler (request_instance sid op payload) = Reject status" "sid \<noteq> 0"
  shows "fst (call_RPC w sid op payload timeout_sec im) = (RECV_FORMAT_ERROR, None)"
proof -
  let ?m = "Message (RpcRequestMessage_net_str (RpcRequestMessage sid op payload))"
  have "m_payload (server_answer handler ?m) = RpcResponseMessage_net_str (RpcResponseMessage_status status)"
    using server_answer_request [OF assms(1,2), of handler sid op] assms(6) by (simp add: answer_def reject_def) (simp add: Message_def)
  then have "check_response sid op (server_answer handler ?m) = (RECV_FORMAT_ERROR, None)"
    using assms(7) by (simp add: check_response_def response_parse) (simp add: RpcResponseMessage_status_def)
  then show ?thesis using assms(3-5) by (simp add: call_RPC_def Let_def)
qed

text \<open>A rejected call loses its status: the server's rejection carries no service and no opcode, so a synchronous call to a real service
  reports a format error, whatever the reason for the rejection.\<close>

theorem rejected_call_loses_status:
  assumes "payload \<noteq> []" "length payload + 16 < 2 ^ 32" "w_connects w" "\<forall>m. w_sends w m" "w_receives w = (\<lambda>m. Some (server_answer handler m))"
    and "handler (request_instance sid op payload) = Reject status" "sid \<noteq> 0"
  shows "fst (call_RPC w sid op payload timeout_sec im) = (RECV_FORMAT_ERROR, None)"
  by (rule call_rejected [OF assms])

theorem rejected_call_loses_status_witness:
  "fst (call_RPC (ref_world (\<lambda>inst. Reject NOT_LEADER)) CLIENT_SERVICE kUpdate ''q'' 0 RpcClientImpl) = (RECV_FORMAT_ERROR, None)"
  by (rule rejected_call_loses_status [where handler = "\<lambda>inst. Reject NOT_LEADER" and status = NOT_LEADER])
    (simp_all add: ref_world_def CLIENT_SERVICE_def)

text \<open>A call that failed leaves a timer that crashes the client: after a call with a timeout whose request could not be sent, the connection is
  released but the timer of the call is still pending, and its handler dereferences the released connection.\<close>

theorem failed_call_timer_faults:
  assumes "0 < timeout_sec" "conn_sync im \<or> w_connects w" "\<forall>m. \<not> w_sends w m" "\<not> w_expired w"
    and "call_RPC w sid op payload timeout_sec im = (r, im')"
  shows "fst r = NETWORK_SEND_ERROR \<and> rpc_call_timer im' = Some True \<and> rpc_call_timeout True im' = Inl NullDeref"
  using assms by (auto simp: call_RPC_def Let_def set_rpc_call_timeout_def rpc_call_timeout_def split: if_splits)

theorem failed_call_timer_faults_witness:
  "\<exists>im'. snd (call_RPC ((ref_world (\<lambda>inst. Reject NOT_LEADER))\<lparr>w_sends := (\<lambda>m. False)\<rparr>) 2 1 ''q'' 5 RpcClientImpl) = im' \<and>
     rpc_call_timeout True im' = Inl NullDeref"
proof -
  let ?w = "(ref_world (\<lambda>inst. Reject NOT_LEADER))\<lparr>w_sends := (\<lambda>m. False)\<rparr>"
  have "(0 :: u32) < 5" "conn_sync RpcClientImpl \<or> w_connects ?w" "\<forall>m. \<not> w_sends ?w m" "\<not> w_expired ?w"
    by (simp_all add: ref_world_def)
  from failed_call_timer_faults [OF this, of 2 1 "''q''" "fst (call_RPC ?w 2 1 ''q'' 5 RpcClientImpl)"
      "snd (call_RPC ?w 2 1 ''q'' 5 RpcClientImpl)"]
  show ?thesis by simp
qed

subsection \<open>A Raft request and its response\<close>

text \<open>C14: The RPC layer carries AppendEntries unchanged: a request that the other node's AppendEntries handler answers is handled
  by exactly this handler, and the message sent back makes the callback of the sender defer the same response, which
  reaches the leader's handler of AppendEntries responses.\<close>

theorem append_entries_over_rpc:
  assumes "unmarshal_append_request P payload = Some q" "payload \<noteq> []" "length payload + 16 < 2 ^ 32"
    and "on_append_entries_request V now q st = Inr (r, st')"
    and "unmarshal_append_response P (marshal_append_response P r) = Some r"
  shows "\<exists>rsp. RaftService_handle_RPC V S P now (request_instance RAFT_SERVICE kAppendEntries payload) st = Inr (Reply rsp, st') \<and>
    (\<lambda>(status, sid, op, s). handle_rpc_callback (status = client_OK) sid op s)
      (async_recv_wrapper (server_answer (\<lambda>inst. fst (projr (RaftService_handle_RPC V S P now inst st)))
        (Message (RpcRequestMessage_net_str (RpcRequestMessage RAFT_SERVICE kAppendEntries payload))))) = (0, Some (kAppendEntries, rsp)) \<and>
    continue_bf_async V S P now' kAppendEntries rsp leader = on_append_entries_response_async V S r leader"
proof -
  let ?rsp = "marshal_append_response P r" and ?inst = "request_instance RAFT_SERVICE kAppendEntries payload"
  have h: "RaftService_handle_RPC V S P now ?inst st = Inr (Reply ?rsp, st')"
    using assms(1,4)
    by (simp add: RaftService_handle_RPC_def append_entries_impl_def request_instance_def RpcRequestMessage_def
        kRequestVote_def kAppendEntries_def)
  have "m_payload (answer ?inst (Reply ?rsp)) = RpcResponseMessage_net_str (RpcResponseMessage RAFT_SERVICE kAppendEntries ?rsp)"
    by (simp add: answer_def reply_rpc_message_def request_instance_def) (simp add: Message_def)
  then have "async_recv_wrapper (answer ?inst (Reply ?rsp)) = (client_OK, RAFT_SERVICE, kAppendEntries, ?rsp)"
    by (simp add: async_recv_wrapper_def response_parse) (simp add: RpcResponseMessage_def status_code_def client_OK_def)
  moreover have "handle_rpc_callback True RAFT_SERVICE kAppendEntries ?rsp = (0, Some (kAppendEntries, ?rsp))"
    by (simp add: handle_rpc_callback_def)
  moreover have "continue_bf_async V S P now' kAppendEntries ?rsp leader = on_append_entries_response_async V S r leader"
    using assms(5) by (simp add: continue_bf_async_def kRequestVote_def kAppendEntries_def)
  ultimately show ?thesis using h server_answer_request [OF assms(2,3)] by simp
qed

text \<open>Protobuf helpers for the one request and response of the run.\<close>

definition ref_append_proto :: proto where
  "ref_append_proto = ref_proto\<lparr>unmarshal_append_request := (\<lambda>s. Some (ref_append 3 2 [])),
     marshal_append_response := (\<lambda>r. ''r''), unmarshal_append_response := (\<lambda>s. map_option fst
       (case on_append_entries_request refV 0 (ref_append 3 2 []) ref_follower of Inr p \<Rightarrow> Some p | Inl e \<Rightarrow> None))\<rparr>"

theorem append_entries_over_rpc_witness:
  "\<exists>st'. RaftService_handle_RPC refV refS ref_append_proto 0 (request_instance RAFT_SERVICE kAppendEntries ''q'') ref_follower =
     Inr (Reply ''r'', st')"
proof -
  obtain r st' where r: "on_append_entries_request refV 0 (ref_append 3 2 []) ref_follower = Inr (r, st')"
  proof (rule ldb.append_request_ok [OF ref_follower_ok, of "ref_append 3 2 []" 0])
    show "log_room refV (length (aq_entries (ref_append 3 2 []))) ref_follower"
      using ref_follower_room [of 0] by (simp add: ref_append_def)
  qed
  have "unmarshal_append_request ref_append_proto ''q'' = Some (ref_append 3 2 [])"
      "unmarshal_append_response ref_append_proto (marshal_append_response ref_append_proto r) = Some r"
    using r by (simp_all add: ref_append_proto_def)
  from append_entries_over_rpc [OF this(1) _ _ r this(2), of refS 0 ref_follower]
  obtain rsp where rsp: "RaftService_handle_RPC refV refS ref_append_proto 0 (request_instance RAFT_SERVICE kAppendEntries ''q'') ref_follower =
      Inr (Reply rsp, st')" by auto
  moreover have "rsp = ''r''"
    using rsp r by (simp add: RaftService_handle_RPC_def append_entries_impl_def request_instance_def RpcRequestMessage_def
        kRequestVote_def kAppendEntries_def ref_append_proto_def)
  ultimately show ?thesis by blast
qed

end
