(* ===== verification/Net_Server.thy ===== *)
theory Net_Server
  imports Net_Conn
begin

text \<open>
  The listening server (\<^verbatim>\<open>src/source/Network/NetServer.cpp\<close> and \<^verbatim>\<open>.h\<close>): its configuration, the checks a new connection passes (address list, rate
  token, number of connections), the timer that refills the tokens, and the update of
  the configuration at run time.
\<close>

subsection \<open>Configuration\<close>

text \<open>
  The refill timer as boost asio keeps it: whether the timer object exists, how many waits are pending on it, and how many
  handlers are queued to run. Cancelling, destroying or re-arming a timer queues the handlers of its pending waits
  (with \<^verbatim>\<open>operation_aborted\<close>).
\<close>

record feed_timer =
  ft_exists :: bool
  ft_waits :: nat
  ft_ready :: nat

definition ft_cancel :: "feed_timer \<Rightarrow> feed_timer" where
  "ft_cancel t = t\<lparr>ft_ready := ft_ready t + ft_waits t, ft_waits := 0\<rparr>"

definition ft_reset :: "bool \<Rightarrow> feed_timer \<Rightarrow> feed_timer" where
  "ft_reset new t = (ft_cancel t)\<lparr>ft_exists := new\<rparr>"

text \<open>\<open>expires_from_now\<close> cancels the pending waits; \<open>async_wait\<close> adds one.\<close>

definition ft_arm :: "feed_timer \<Rightarrow> feed_timer" where
  "ft_arm t = (ft_cancel t)\<lparr>ft_waits := 1\<rparr>"

definition ft_expire :: "feed_timer \<Rightarrow> feed_timer" where
  "ft_expire t = ft_cancel t"

record net_conf =
  service_enabled :: bool
  service_speed :: int
  service_token :: int
  service_concurrency :: int
  session_cancel_time_out :: int
  nc_ops_cancel_time_out :: int
  nc_send_max_msg_size :: int
  nc_recv_max_msg_size :: int
  bind_addr :: string
  bind_port :: int
  safe_ip :: "string set"
  backlog_size :: int
  io_thread_number :: int
  timed_feed_token :: feed_timer

definition NetConf :: net_conf where
  "NetConf =
     \<lparr>service_enabled = True, service_speed = 0, service_token = 0, service_concurrency = 0, session_cancel_time_out = 0,
      nc_ops_cancel_time_out = 0, nc_send_max_msg_size = 0, nc_recv_max_msg_size = 0, bind_addr = [], bind_port = 0, safe_ip = {},
      backlog_size = 10, io_thread_number = 1, timed_feed_token = \<lparr>ft_exists = False, ft_waits = 0, ft_ready = 0\<rparr>\<rparr>"

record net_config =
  cf_string :: "string \<Rightarrow> string option"
  cf_int :: "string \<Rightarrow> int option"
  cf_bool :: "string \<Rightarrow> bool option"

definition or_else :: "'a option \<Rightarrow> 'a \<Rightarrow> 'a" where
  "or_else v d = (case v of None \<Rightarrow> d | Some x \<Rightarrow> x)"

fun split_on :: "char \<Rightarrow> string \<Rightarrow> string list" where
  "split_on d [] = [[]]"
| "split_on d (c # cs) = (if c = d then [] # split_on d cs else case split_on d cs of [] \<Rightarrow> [[c]] | w # ws \<Rightarrow> (c # w) # ws)"

definition is_space :: "char \<Rightarrow> bool" where
  "is_space c \<longleftrightarrow> c \<in> {CHR '' '', CHR 0x09, CHR 0x0a, CHR 0x0b, CHR 0x0c, CHR 0x0d}"

definition trim_copy :: "string \<Rightarrow> string" where
  "trim_copy s = rev (dropWhile is_space (rev (dropWhile is_space s)))"

text \<open>The code reads the settings in order and returns at the first invalid one, with the earlier ones already stored.\<close>

definition conf_seq :: "bool \<times> net_conf \<Rightarrow> (net_conf \<Rightarrow> bool \<times> net_conf) \<Rightarrow> bool \<times> net_conf" where
  "conf_seq r f = (if fst r then f (snd r) else r)"

definition load_safe_ip :: "net_config \<Rightarrow> net_conf \<Rightarrow> net_conf" where
  "load_safe_ip cf c =
     (let ip_list = or_else (cf_string cf ''rpc.network.safe_ip'') []
      in if ip_list \<noteq> [] then c\<lparr>safe_ip := {ip \<in> set (map trim_copy (split_on CHR '';'' ip_list)). ip \<noteq> []}\<rparr> else c)"

definition load_bind :: "net_config \<Rightarrow> net_conf \<Rightarrow> bool \<times> net_conf" where
  "load_bind cf c =
     (let c' = c\<lparr>bind_addr := or_else (cf_string cf ''rpc.network.bind_addr'') (bind_addr c),
                  bind_port := or_else (cf_int cf ''rpc.network.bind_port'') (bind_port c)\<rparr>
      in (\<not> (bind_addr c' = [] \<or> bind_port c' \<le> 0), c'))"

definition load_backlog :: "net_config \<Rightarrow> net_conf \<Rightarrow> bool \<times> net_conf" where
  "load_backlog cf c =
     (let c' = c\<lparr>backlog_size := or_else (cf_int cf ''rpc.network.backlog_size'') (backlog_size c)\<rparr>
      in (\<not> backlog_size c' < 0, c'))"

definition load_io_threads :: "net_config \<Rightarrow> net_conf \<Rightarrow> bool \<times> net_conf" where
  "load_io_threads cf c =
     (let c' = c\<lparr>io_thread_number := or_else (cf_int cf ''rpc.network.io_thread_pool_size'') (io_thread_number c)\<rparr>
      in (\<not> io_thread_number c' < 0, c'))"

definition load_ops_cancel :: "net_config \<Rightarrow> net_conf \<Rightarrow> bool \<times> net_conf" where
  "load_ops_cancel cf c =
     (let c' = c\<lparr>nc_ops_cancel_time_out := or_else (cf_int cf ''rpc.network.ops_cancel_time_out'') (nc_ops_cancel_time_out c)\<rparr>
      in (\<not> nc_ops_cancel_time_out c' < 0, c'))"

definition load_session_cancel :: "net_config \<Rightarrow> net_conf \<Rightarrow> bool \<times> net_conf" where
  "load_session_cancel cf c =
     (let c' = c\<lparr>session_cancel_time_out := or_else (cf_int cf ''rpc.network.session_cancel_time_out'') (session_cancel_time_out c)\<rparr>
      in (\<not> session_cancel_time_out c' < 0, c'))"

definition load_speed :: "net_config \<Rightarrow> net_conf \<Rightarrow> bool \<times> net_conf" where
  "load_speed cf c =
     (let c' = c\<lparr>service_enabled := or_else (cf_bool cf ''rpc.network.service_enable'') (service_enabled c),
                  service_speed := or_else (cf_int cf ''rpc.network.service_speed'') (service_speed c)\<rparr>
      in (\<not> service_speed c' < 0, c'))"

definition load_concurrency :: "net_config \<Rightarrow> net_conf \<Rightarrow> bool \<times> net_conf" where
  "load_concurrency cf c =
     (let c' = c\<lparr>service_concurrency := or_else (cf_int cf ''rpc.network.service_concurrency'') (service_concurrency c)\<rparr>
      in (\<not> service_concurrency c' < 0, c'))"

definition load_msg_size :: "net_config \<Rightarrow> net_conf \<Rightarrow> bool \<times> net_conf" where
  "load_msg_size cf c =
     (let c' = c\<lparr>nc_send_max_msg_size := or_else (cf_int cf ''rpc.network.send_max_msg_size'') (nc_send_max_msg_size c),
                  nc_recv_max_msg_size := or_else (cf_int cf ''rpc.network.recv_max_msg_size'') (nc_recv_max_msg_size c)\<rparr>
      in (\<not> ((nc_send_max_msg_size c' \<noteq> 0 \<and> nc_send_max_msg_size c' \<le> 32) \<or>
              (nc_recv_max_msg_size c' \<noteq> 0 \<and> nc_recv_max_msg_size c' \<le> 32)), c'))"

definition load_conf :: "net_config \<Rightarrow> net_conf \<Rightarrow> bool \<times> net_conf" where
  "load_conf cf c0 =
     conf_seq (conf_seq (conf_seq (conf_seq (conf_seq (conf_seq (conf_seq
       (load_bind cf c0)
       (\<lambda>c. load_backlog cf (load_safe_ip cf c)))
       (load_io_threads cf))
       (load_ops_cancel cf))
       (load_session_cancel cf))
       (load_speed cf))
       (load_concurrency cf))
       (load_msg_size cf)"

lemmas load_step_defs = load_bind_def load_backlog_def load_safe_ip_def load_io_threads_def load_ops_cancel_def load_session_cancel_def
  load_speed_def load_concurrency_def load_msg_size_def

lemma conf_seq_True: "conf_seq r f = (True, c) \<longleftrightarrow> (\<exists>c1. r = (True, c1) \<and> f c1 = (True, c))"
  by (cases r) (auto simp: conf_seq_def)

subsection \<open>Tokens\<close>

definition check_safe_ip :: "string \<Rightarrow> net_conf \<Rightarrow> bool" where
  "check_safe_ip ip c \<longleftrightarrow> safe_ip c = {} \<or> ip \<in> safe_ip c"

definition get_service_token :: "net_conf \<Rightarrow> bool \<times> net_conf" where
  "get_service_token c =
     (if \<not> service_enabled c then (False, c)
      else if service_speed c = 0 then (True, c)
      else if service_token c \<le> 0 then (False, c)
      else (True, c\<lparr>service_token := service_token c - 1\<rparr>))"

definition withdraw_service_token :: "net_conf \<Rightarrow> net_conf" where
  "withdraw_service_token c = c\<lparr>service_token := service_token c + 1\<rparr>"

definition feed_service_token :: "net_conf \<Rightarrow> net_conf" where
  "feed_service_token c = c\<lparr>service_token := service_speed c\<rparr>"

text \<open>A queued handler runs; it does not look at its error code.\<close>

definition timed_feed_token_handler :: "net_conf \<Rightarrow> net_conf res" where
  "timed_feed_token_handler c0 =
     (let c = c0\<lparr>timed_feed_token := (timed_feed_token c0)\<lparr>ft_ready := ft_ready (timed_feed_token c0) - 1\<rparr>\<rparr> in
      if service_speed c = 0 then Inr (c\<lparr>timed_feed_token := ft_reset False (timed_feed_token c)\<rparr>)
      else let c1 = feed_service_token c in
        if \<not> ft_exists (timed_feed_token c1) then Inl NullDeref
        else Inr (c1\<lparr>timed_feed_token := ft_arm (timed_feed_token c1)\<rparr>))"

subsection \<open>The server\<close>

record net_server =
  conf :: net_conf
  current_concurrency :: int
  accepting :: bool

definition NetServer :: net_server where
  "NetServer = \<lparr>conf = NetConf, current_concurrency = 0, accepting = False\<rparr>"

text \<open>\<open>addr_ok\<close> says which texts are addresses (\<^verbatim>\<open>address::from_string\<close> throws on the others), \<open>init_threads\<close> whether so many I/O threads can
  be created.\<close>

definition NetServer_init :: "net_config \<Rightarrow> (string \<Rightarrow> bool) \<Rightarrow> (int \<Rightarrow> bool) \<Rightarrow> net_server \<Rightarrow> (bool \<times> net_server) res" where
  "NetServer_init cf addr_ok init_threads srv =
     (let (ok, c) = load_conf cf (conf srv) in
      if \<not> ok then Inr (False, srv\<lparr>conf := c\<rparr>)
      else if \<not> addr_ok (bind_addr c) then Inl Uncaught
      else
        let c1 = (if service_speed c \<noteq> 0 then c\<lparr>timed_feed_token := ft_arm (ft_reset True (timed_feed_token c))\<rparr> else c)
        in Inr (init_threads (io_thread_number c1), srv\<lparr>conf := c1\<rparr>))"

text \<open>\<open>service\<close> starts the threads, opens the acceptor, which throws when the address cannot be bound, and waits for the first
  connection; every completed accept waits for the next one.\<close>

definition do_accept :: "net_server \<Rightarrow> net_server" where
  "do_accept srv = srv\<lparr>accepting := True\<rparr>"

definition NetServer_service :: "(string \<Rightarrow> int \<Rightarrow> bool) \<Rightarrow> net_server \<Rightarrow> net_server res" where
  "NetServer_service bind_ok srv =
     (if \<not> bind_ok (bind_addr (conf srv)) (bind_port (conf srv)) then Inl Uncaught else Inr (do_accept srv))"

text \<open>A stopped server starts no handler, so that no accept is waited for.\<close>

definition io_service_stop_graceful :: "net_server \<Rightarrow> net_server" where
  "io_service_stop_graceful srv = srv\<lparr>accepting := False\<rparr>"

text \<open>One completed accept: \<open>ec\<close> is whether it failed, \<open>remote\<close> the address of the client if it can be found. The result says whether a
  connection was started; each started connection counts until it is released.\<close>

definition accept_handler :: "bool \<Rightarrow> string option \<Rightarrow> net_server \<Rightarrow> bool \<times> net_server" where
  "accept_handler ec remote srv =
     (if ec then (False, srv)
      else case remote of None \<Rightarrow> (False, srv)
      | Some remote_ip \<Rightarrow>
          if \<not> check_safe_ip remote_ip (conf srv) then (False, srv)
          else
            let (ok, c) = get_service_token (conf srv); srv1 = srv\<lparr>conf := c\<rparr> in
            if \<not> ok then (False, srv1)
            else if service_concurrency c \<noteq> 0 \<and> service_concurrency c < current_concurrency srv1 then (False, srv1)
            else (True, srv1\<lparr>current_concurrency := current_concurrency srv1 + 1\<rparr>))"

definition conn_released :: "net_server \<Rightarrow> net_server" where
  "conn_released srv = srv\<lparr>current_concurrency := current_concurrency srv - 1\<rparr>"

definition NetServer_module_runtime :: "net_config \<Rightarrow> net_server \<Rightarrow> int \<times> net_server" where
  "NetServer_module_runtime cf srv =
     (let (ok, n) = load_conf cf NetConf in
      if \<not> ok then (-1, srv)
      else
        let c = conf srv;
            c1 = c\<lparr>session_cancel_time_out := session_cancel_time_out n, nc_ops_cancel_time_out := nc_ops_cancel_time_out n,
                   safe_ip := safe_ip n\<rparr>;
            c2 = (if service_speed c1 \<noteq> service_speed n
                  then let c' = c1\<lparr>service_speed := service_speed n\<rparr> in
                    if service_speed c' \<noteq> 0
                    then c'\<lparr>timed_feed_token := ft_arm (ft_reset True (timed_feed_token c'))\<rparr>
                    else if ft_exists (timed_feed_token c')
                    then c'\<lparr>timed_feed_token := ft_reset False (ft_cancel (timed_feed_token c'))\<rparr> else c'
                  else c1);
            c3 = c2\<lparr>service_concurrency := service_concurrency n\<rparr>
        in (0, srv\<lparr>conf := c3\<rparr>))"

end
