(* ===== verification/Service_Conf.thy ===== *)
theory Service_Conf
  imports Rpc
begin

text \<open>
  Configuration of the RPC services and the size of their thread pools: \<^verbatim>\<open>RpcServiceBase.h\<close>, the configuration part of the three
  services, and \<^verbatim>\<open>RPC/Executor.cpp\<close>. A group of the configuration file is a lookup function for its integers; a configuration
  gives the list of service groups under a path.
\<close>

record executor_conf =
  exec_thread_number :: int
  exec_thread_number_hard :: int
  exec_thread_step_size :: int

record service_setting =
  cfg_instance_name :: "string option"
  cfg_int :: "string \<Rightarrow> int option"

type_synonym config = "string \<Rightarrow> service_setting list option"

definition lookup_int :: "service_setting \<Rightarrow> string \<Rightarrow> int \<Rightarrow> int" where
  "lookup_int s k d = (case cfg_int s k of None \<Rightarrow> d | Some v \<Rightarrow> v)"

subsection \<open>RpcServiceBase\<close>

text \<open>The callers pass an uninitialised structure (\<open>conf\<close>), whose fields keep their value where the file gives none.\<close>

definition base_handle_rpc_service_conf :: "service_setting \<Rightarrow> executor_conf \<Rightarrow> int \<times> executor_conf" where
  "base_handle_rpc_service_conf s conf =
     (let n = lookup_int s ''exec_thread_pool_size'' (exec_thread_number conf);
          hard0 = lookup_int s ''exec_thread_pool_size_hard'' (exec_thread_number_hard conf);
          step = lookup_int s ''exec_thread_pool_step_size'' (exec_thread_step_size conf);
          hard = (if hard0 < n then n else hard0);
          conf' = \<lparr>exec_thread_number = n, exec_thread_number_hard = hard, exec_thread_step_size = step\<rparr>
      in if n \<le> 0 \<or> n > 100 \<or> hard > 100 \<or> hard < n then (-1, conf')
         else if step < 0 then (-1, conf')
         else (0, conf'))"

subsection \<open>The services\<close>

text \<open>\<open>conf_ptr\<close> is the configuration of a service once it has one. The handler of the start-up configuration is
  declared \<^verbatim>\<open>bool\<close> and returns -1, which is true, when the group is invalid.\<close>

record service =
  svc_name :: string
  conf_ptr :: "executor_conf option"

definition bool_of :: "int \<Rightarrow> bool" where
  "bool_of i = (i \<noteq> 0)"

definition int_of_bool :: "bool \<Rightarrow> int" where
  "int_of_bool b = (if b then 1 else 0)"

definition RaftService_handle_rpc_service_conf :: "executor_conf \<Rightarrow> service_setting \<Rightarrow> service \<Rightarrow> bool \<times> service" where
  "RaftService_handle_rpc_service_conf junk s svc =
     (let svc1 = (case conf_ptr svc of None \<Rightarrow> svc\<lparr>conf_ptr := Some \<lparr>exec_thread_number = 0, exec_thread_number_hard = 0,
                    exec_thread_step_size = 0\<rparr>\<rparr> | Some c \<Rightarrow> svc);
          (ret, conf) = base_handle_rpc_service_conf s junk
      in if ret \<noteq> 0 then (bool_of (-1), svc1) else (True, svc1\<lparr>conf_ptr := Some conf\<rparr>))"

fun RaftService_init_loop :: "executor_conf \<Rightarrow> service_setting list \<Rightarrow> service \<Rightarrow> bool \<times> service" where
  "RaftService_init_loop junk [] svc = (False, svc)"
| "RaftService_init_loop junk (s # ss) svc =
     (case cfg_instance_name s of None \<Rightarrow> RaftService_init_loop junk ss svc
      | Some nm \<Rightarrow>
          if nm = [] then RaftService_init_loop junk ss svc
          else if nm = svc_name svc
          then let (ok, svc') = RaftService_handle_rpc_service_conf junk s svc in (ok, svc')
          else RaftService_init_loop junk ss svc)"

definition RaftService_init :: "executor_conf \<Rightarrow> config option \<Rightarrow> service \<Rightarrow> bool \<times> service" where
  "RaftService_init junk cfg svc =
     (case cfg of None \<Rightarrow> (False, svc)
      | Some c \<Rightarrow> (case c ''rpc.services'' of None \<Rightarrow> (False, svc) | Some ss \<Rightarrow> RaftService_init_loop junk ss svc))"

definition RaftService_handle_rpc_service_runtime_conf :: "executor_conf \<Rightarrow> service_setting \<Rightarrow> service \<Rightarrow> bool \<times> service" where
  "RaftService_handle_rpc_service_runtime_conf junk s svc =
     (let (ret, conf) = base_handle_rpc_service_conf s junk
      in if ret \<noteq> 0 then (bool_of (-1), svc) else (bool_of 0, svc\<lparr>conf_ptr := Some conf\<rparr>))"

fun RaftService_runtime_loop :: "executor_conf \<Rightarrow> service_setting list \<Rightarrow> service \<Rightarrow> int \<times> service" where
  "RaftService_runtime_loop junk [] svc = (-1, svc)"
| "RaftService_runtime_loop junk (s # ss) svc =
     (if (case cfg_instance_name s of None \<Rightarrow> [] | Some nm \<Rightarrow> nm) = svc_name svc
      then let (b, svc') = RaftService_handle_rpc_service_runtime_conf junk s svc in (int_of_bool b, svc')
      else RaftService_runtime_loop junk ss svc)"

definition RaftService_module_runtime :: "executor_conf \<Rightarrow> config \<Rightarrow> service \<Rightarrow> int \<times> service" where
  "RaftService_module_runtime junk c svc =
     (case c ''rpc_services'' of None \<Rightarrow> (-1, svc) | Some ss \<Rightarrow> RaftService_runtime_loop junk ss svc)"

definition get_executor_conf :: "service \<Rightarrow> executor_conf res" where
  "get_executor_conf svc = of_option NullDeref (conf_ptr svc)"

text \<open>\<open>ClientService\<close> and \<open>ControlService\<close> repeat this code word for word.\<close>

definition ClientService_handle_rpc_service_conf :: "executor_conf \<Rightarrow> service_setting \<Rightarrow> service \<Rightarrow> bool \<times> service" where
  "ClientService_handle_rpc_service_conf = RaftService_handle_rpc_service_conf"

definition ClientService_handle_rpc_service_runtime_conf :: "executor_conf \<Rightarrow> service_setting \<Rightarrow> service \<Rightarrow> bool \<times> service" where
  "ClientService_handle_rpc_service_runtime_conf = RaftService_handle_rpc_service_runtime_conf"

definition ClientService_get_executor_conf :: "service \<Rightarrow> executor_conf res" where
  "ClientService_get_executor_conf = get_executor_conf"

definition ControlService_handle_rpc_service_conf :: "executor_conf \<Rightarrow> service_setting \<Rightarrow> service \<Rightarrow> bool \<times> service" where
  "ControlService_handle_rpc_service_conf = RaftService_handle_rpc_service_conf"

definition ControlService_handle_rpc_service_runtime_conf :: "executor_conf \<Rightarrow> service_setting \<Rightarrow> service \<Rightarrow> bool \<times> service" where
  "ControlService_handle_rpc_service_runtime_conf = RaftService_handle_rpc_service_runtime_conf"

definition ControlService_get_executor_conf :: "service \<Rightarrow> executor_conf res" where
  "ControlService_get_executor_conf = get_executor_conf"

definition ClientService_init :: "executor_conf \<Rightarrow> config option \<Rightarrow> service \<Rightarrow> bool \<times> service" where
  "ClientService_init = RaftService_init"

definition ClientService_module_runtime :: "executor_conf \<Rightarrow> config \<Rightarrow> service \<Rightarrow> int \<times> service" where
  "ClientService_module_runtime = RaftService_module_runtime"

definition ControlService_init :: "executor_conf \<Rightarrow> config option \<Rightarrow> service \<Rightarrow> bool \<times> service" where
  "ControlService_init = RaftService_init"

definition ControlService_module_runtime :: "executor_conf \<Rightarrow> config \<Rightarrow> service \<Rightarrow> int \<times> service" where
  "ControlService_module_runtime = RaftService_module_runtime"

subsection \<open>Executor\<close>

text \<open>\<open>init_threads\<close> and \<open>add_timer\<close> are the results of creating the threads and of the adjustment timer. The result says whether the
  executor is ready and whether it adjusts its threads.\<close>

definition Executor_init :: "(int \<Rightarrow> bool) \<Rightarrow> bool \<Rightarrow> service \<Rightarrow> (bool \<times> bool \<times> executor_conf) res" where
  "Executor_init init_threads add_timer svc =
     res_bind (get_executor_conf svc) (\<lambda>conf.
       if \<not> init_threads (exec_thread_number conf) then Inr (False, False, conf)
       else if exec_thread_number_hard conf > exec_thread_number conf \<and> exec_thread_step_size conf > 0
       then if \<not> add_timer then Inr (False, False, conf) else Inr (True, True, conf)
       else Inr (True, False, conf))"

text \<open>The number of threads the pool is resized to, from the configuration and the length of the queue.\<close>

definition executor_threads_adjust :: "executor_conf \<Rightarrow> int \<Rightarrow> int" where
  "executor_threads_adjust conf queueSize =
     (let expect_thread = exec_thread_number conf;
          e1 = (if queueSize > exec_thread_step_size conf then expect_thread + queueSize div exec_thread_step_size conf else expect_thread)
      in if e1 > exec_thread_number_hard conf then exec_thread_number_hard conf else e1)"

definition Executor_module_runtime :: "executor_conf \<Rightarrow> config \<Rightarrow> service \<times> executor_conf \<Rightarrow> (int \<times> service \<times> executor_conf) res" where
  "Executor_module_runtime junk c sc =
     (let (ret, svc) = RaftService_module_runtime junk c (fst sc)
      in if ret = 0 then res_bind (get_executor_conf svc) (\<lambda>conf. Inr (ret, svc, conf)) else Inr (ret, svc, snd sc))"

subsection \<open>The dispatcher with its executors\<close>

text \<open>The dispatcher holds, under each service id, the executor of a service with the configuration it runs with. Registering a
  service makes its executor ready.\<close>

type_synonym service_dispatcher = "(service \<times> executor_conf) dispatcher"

definition Dispatcher_register_service ::
    "(int \<Rightarrow> bool) \<Rightarrow> bool \<Rightarrow> u16 \<Rightarrow> service \<Rightarrow> service_dispatcher \<Rightarrow> service_dispatcher res" where
  "Dispatcher_register_service init_threads add_timer service_id svc d =
     (if initialized d then Inr d
      else res_bind (Executor_init init_threads add_timer svc) (\<lambda>(ok, adjusts, conf).
        Inr (register_service service_id (svc, conf) ok d)))"

text \<open>The update of the configuration at run time goes to the services in the order of their ids, and the codes are added up.\<close>

fun runtime_loop :: "executor_conf \<Rightarrow> config \<Rightarrow> u16 list \<Rightarrow> service_dispatcher \<Rightarrow> (int \<times> service_dispatcher) res" where
  "runtime_loop junk c [] d = Inr (0, d)"
| "runtime_loop junk c (i # is) d =
     (case services d i of None \<Rightarrow> runtime_loop junk c is d
      | Some ex \<Rightarrow>
          res_bind (Executor_module_runtime junk c (service_impl ex)) (\<lambda>(ret, svc, conf).
            res_bind (runtime_loop junk c is (d\<lparr>services := (services d)(i \<mapsto> ex\<lparr>service_impl := (svc, conf)\<rparr>)\<rparr>)) (\<lambda>(ret_sum, d').
              Inr (ret + ret_sum, d'))))"

definition Dispatcher_module_runtime :: "executor_conf \<Rightarrow> config \<Rightarrow> service_dispatcher \<Rightarrow> (int \<times> service_dispatcher) res" where
  "Dispatcher_module_runtime junk c d = runtime_loop junk c (sorted_list_of_set (dom (services d))) d"

subsection \<open>Properties\<close>

definition conf_valid :: "executor_conf \<Rightarrow> bool" where
  "conf_valid c \<longleftrightarrow> 0 < exec_thread_number c \<and> exec_thread_number c \<le> exec_thread_number_hard c \<and> exec_thread_number_hard c \<le> 100 \<and>
     0 \<le> exec_thread_step_size c"

definition conf_zero :: executor_conf where
  "conf_zero = \<lparr>exec_thread_number = 0, exec_thread_number_hard = 0, exec_thread_step_size = 0\<rparr>"

lemma base_conf_valid: "base_handle_rpc_service_conf s junk = (ret, c) \<Longrightarrow> ret = 0 \<longleftrightarrow> conf_valid c"
  by (auto simp: base_handle_rpc_service_conf_def Let_def conf_valid_def split: if_splits)

lemma handle_conf_spec:
  assumes "conf_ptr svc = None" "RaftService_handle_rpc_service_conf junk s svc = (ok, svc')"
  shows "ok \<and> (\<exists>c. conf_ptr svc' = Some c \<and> (conf_valid c \<or> c = conf_zero))"
proof -
  obtain ret c where b: "base_handle_rpc_service_conf s junk = (ret, c)" by (metis surj_pair)
  show ?thesis
    using assms b base_conf_valid [OF b]
    by (auto simp: RaftService_handle_rpc_service_conf_def bool_of_def conf_zero_def split: if_splits)
qed

lemma init_loop_spec:
  assumes "conf_ptr svc = None" "RaftService_init_loop junk ss svc = (ok, svc')" "svc_name svc \<noteq> []"
  shows "(ok \<longleftrightarrow> (\<exists>s \<in> set ss. cfg_instance_name s = Some (svc_name svc))) \<and>
    (ok \<longrightarrow> (\<exists>c. conf_ptr svc' = Some c \<and> (conf_valid c \<or> c = conf_zero)))"
  using assms
proof (induction ss)
  case (Cons s ss)
  show ?case
  proof (cases "cfg_instance_name s = Some (svc_name svc)")
    case True
    then have "RaftService_handle_rpc_service_conf junk s svc = (ok, svc')" using Cons.prems by simp
    from handle_conf_spec [OF Cons.prems(1) this] True show ?thesis by simp
  next
    case False
    then have "RaftService_init_loop junk ss svc = (ok, svc')"
      using Cons.prems(2) by (simp split: option.splits if_splits)
    with Cons False show ?thesis by simp
  qed
qed simp

lemma executor_threads_bounds:
  assumes "conf_valid c" "0 < exec_thread_step_size c" "0 \<le> q"
  shows "exec_thread_number c \<le> executor_threads_adjust c q" "executor_threads_adjust c q \<le> exec_thread_number_hard c"
  using assms pos_imp_zdiv_nonneg_iff [of "exec_thread_step_size c" q] by (auto simp: executor_threads_adjust_def Let_def conf_valid_def)

end
