(* ===== verification/Server_Props.thy ===== *)
theory Server_Props
  imports Net_Server Service_Conf Net_Props
begin

text \<open>
  The limits of the server: what a configuration that loads guarantees, how many connections pass the rate and the concurrency
  limit, the refill timer after a change of the rate, and the thread pools of the services.
\<close>

subsection \<open>Configuration\<close>

text \<open>Each step checks its own settings and keeps the ones before it.\<close>

lemma load_stepD:
  "load_bind cf c = (True, c') \<Longrightarrow>
     bind_addr c' \<noteq> [] \<and> 0 < bind_port c'"
  "load_backlog cf (load_safe_ip cf c) = (True, c') \<Longrightarrow>
     bind_addr c' = bind_addr c \<and> bind_port c' = bind_port c \<and> 0 \<le> backlog_size c'"
  "load_io_threads cf c = (True, c') \<Longrightarrow>
     bind_addr c' = bind_addr c \<and> bind_port c' = bind_port c \<and> backlog_size c' = backlog_size c \<and> 0 \<le> io_thread_number c'"
  "load_ops_cancel cf c = (True, c') \<Longrightarrow>
     bind_addr c' = bind_addr c \<and> bind_port c' = bind_port c \<and> backlog_size c' = backlog_size c \<and> io_thread_number c' = io_thread_number c \<and> 0 \<le> nc_ops_cancel_time_out c'"
  "load_session_cancel cf c = (True, c') \<Longrightarrow>
     bind_addr c' = bind_addr c \<and> bind_port c' = bind_port c \<and> backlog_size c' = backlog_size c \<and> io_thread_number c' = io_thread_number c \<and> nc_ops_cancel_time_out c' = nc_ops_cancel_time_out c \<and> 0 \<le> session_cancel_time_out c'"
  "load_speed cf c = (True, c') \<Longrightarrow>
     bind_addr c' = bind_addr c \<and> bind_port c' = bind_port c \<and> backlog_size c' = backlog_size c \<and> io_thread_number c' = io_thread_number c \<and> nc_ops_cancel_time_out c' = nc_ops_cancel_time_out c \<and> session_cancel_time_out c' = session_cancel_time_out c \<and> 0 \<le> service_speed c'"
  "load_concurrency cf c = (True, c') \<Longrightarrow>
     bind_addr c' = bind_addr c \<and> bind_port c' = bind_port c \<and> backlog_size c' = backlog_size c \<and> io_thread_number c' = io_thread_number c \<and> nc_ops_cancel_time_out c' = nc_ops_cancel_time_out c \<and> session_cancel_time_out c' = session_cancel_time_out c \<and> service_speed c' = service_speed c \<and> 0 \<le> service_concurrency c'"
  "load_msg_size cf c = (True, c') \<Longrightarrow>
     bind_addr c' = bind_addr c \<and> bind_port c' = bind_port c \<and> backlog_size c' = backlog_size c \<and> io_thread_number c' = io_thread_number c \<and> nc_ops_cancel_time_out c' = nc_ops_cancel_time_out c \<and> session_cancel_time_out c' = session_cancel_time_out c \<and> service_speed c' = service_speed c \<and> service_concurrency c' = service_concurrency c \<and> (nc_send_max_msg_size c' = 0 \<or> 32 < nc_send_max_msg_size c') \<and> (nc_recv_max_msg_size c' = 0 \<or> 32 < nc_recv_max_msg_size c')"
  by (auto simp: load_step_defs Let_def)

text \<open>A configuration that loads is usable: there is an address and a positive port, no setting is negative, and a message limit is off or more
  than 32 bytes, so that a limit within 32 bits makes every connection cut its stream as the reference does.\<close>

theorem load_conf_valid:
  assumes "load_conf cf c = (True, c')"
  shows "bind_addr c' \<noteq> [] \<and> 0 < bind_port c' \<and> 0 \<le> backlog_size c' \<and> 0 \<le> io_thread_number c' \<and> 0 \<le> nc_ops_cancel_time_out c' \<and>
    0 \<le> session_cancel_time_out c' \<and> 0 \<le> service_speed c' \<and> 0 \<le> service_concurrency c' \<and>
    (nc_send_max_msg_size c' = 0 \<or> 32 < nc_send_max_msg_size c') \<and> (nc_recv_max_msg_size c' = 0 \<or> 32 < nc_recv_max_msg_size c')"
  using assms unfolding load_conf_def conf_seq_True by (auto dest!: load_stepD)

definition ref_config :: net_config where
  "ref_config = \<lparr>cf_string = [''rpc.network.bind_addr'' \<mapsto> ''127.0.0.1''],
     cf_int = [''rpc.network.bind_port'' \<mapsto> 8434, ''rpc.network.service_speed'' \<mapsto> 100], cf_bool = Map.empty\<rparr>"

theorem load_conf_valid_witness:
  "fst (load_conf ref_config NetConf) \<and> 0 < bind_port (snd (load_conf ref_config NetConf))"
proof -
  have "fst (load_conf ref_config NetConf)" by (simp add: load_conf_def conf_seq_def load_step_defs ref_config_def NetConf_def or_else_def Let_def)
  then show ?thesis using load_conf_valid [of ref_config NetConf "snd (load_conf ref_config NetConf)"] by (simp add: prod_eq_iff)
qed

subsection \<open>Rate limit\<close>

text \<open>The addresses of the connections that are started, when these clients connect one after the other.\<close>

fun accept_all :: "string list \<Rightarrow> net_server \<Rightarrow> string list \<times> net_server" where
  "accept_all [] srv = ([], srv)"
| "accept_all (ip # ips) srv =
     (let (ok, srv1) = accept_handler False (Some ip) srv; (started, srv2) = accept_all ips srv1
      in (if ok then ip # started else started, srv2))"

text \<open>How many more connections the concurrency limit lets in.\<close>

definition accept_room :: "net_server \<Rightarrow> nat \<Rightarrow> nat" where
  "accept_room srv n =
     (if service_concurrency (conf srv) = 0 then n else min n (nat (service_concurrency (conf srv) + 1 - current_concurrency srv)))"

lemma accept_room_0 [simp]: "accept_room srv 0 = 0"
  by (simp add: accept_room_def)

lemma accept_handler_token:
  assumes "service_enabled (conf srv)" "service_speed (conf srv) \<noteq> 0" "check_safe_ip ip (conf srv)" "0 < service_token (conf srv)"
  shows "accept_handler False (Some ip) srv =
    (let srv1 = srv\<lparr>conf := (conf srv)\<lparr>service_token := service_token (conf srv) - 1\<rparr>\<rparr>
     in if accept_room srv 1 = 0 then (False, srv1) else (True, srv1\<lparr>current_concurrency := current_concurrency srv + 1\<rparr>))"
  using assms by (auto simp: accept_handler_def get_service_token_def accept_room_def Let_def)

lemma accept_handler_refused:
  assumes "service_enabled (conf srv)" "service_speed (conf srv) \<noteq> 0" "\<not> (check_safe_ip ip (conf srv) \<and> 0 < service_token (conf srv))"
  shows "accept_handler False (Some ip) srv = (False, srv)"
  using assms by (auto simp: accept_handler_def get_service_token_def)

lemma check_safe_ip_token [simp]: "check_safe_ip ip (c\<lparr>service_token := t\<rparr>) = check_safe_ip ip c"
  by (simp add: check_safe_ip_def)

text \<open>C32: The connections a server with a rate limit starts between two refills, if none is closed meanwhile. Each connection from an
  allowed address takes a token, as long as there is one, also when the concurrency limit then refuses it; of those that took a token the earliest
  are started: all of them without a concurrency limit, and with a limit of \<open>k\<close> as many as bring the number of connections to \<open>k + 1\<close>. All other connections
  are refused.\<close>

theorem accept_rate_limited:
  assumes "service_enabled (conf srv)" "service_speed (conf srv) \<noteq> 0"
  shows "let allowed = filter (\<lambda>ip. check_safe_ip ip (conf srv)) ips;
      tried = min (nat (service_token (conf srv))) (length allowed);
      (started, srv') = accept_all ips srv
    in started = take (accept_room srv tried) allowed \<and>
       service_token (conf srv') = service_token (conf srv) - int tried \<and>
       current_concurrency srv' = current_concurrency srv + int (length started)"
  using assms
proof (induction ips arbitrary: srv)
  case (Cons ip ips)
  show ?case
  proof (cases "check_safe_ip ip (conf srv) \<and> 0 < service_token (conf srv)")
    case True
    let ?full = "srv\<lparr>conf := (conf srv)\<lparr>service_token := service_token (conf srv) - 1\<rparr>\<rparr>"
    let ?more = "?full\<lparr>current_concurrency := current_concurrency srv + 1\<rparr>"
    have h: "accept_handler False (Some ip) srv = (if accept_room srv 1 = 0 then (False, ?full) else (True, ?more))"
      using accept_handler_token [of srv ip] Cons.prems True by (simp add: Let_def)
    have n: "nat (service_token (conf srv)) = Suc (nat (service_token (conf srv) - 1))" using True by linarith
    show ?thesis
    proof (cases "accept_room srv 1 = 0")
      case z: True
      then have r: "accept_room srv m = 0" "accept_room ?full m = 0" for m by (auto simp: accept_room_def split: if_splits)
      have "accept_handler False (Some ip) srv = (False, ?full)" using h z by simp
      then show ?thesis using Cons.IH [of ?full] Cons.prems True n by (simp add: r Let_def split_beta)
    next
      case False
      then have r: "accept_room srv (Suc m) = Suc (accept_room ?more m)" for m by (auto simp: accept_room_def split: if_splits)
      have "accept_handler False (Some ip) srv = (True, ?more)" using h False by simp
      then show ?thesis using Cons.IH [of ?more] Cons.prems True n by (simp add: r Let_def split_beta)
    qed
  next
    case False
    have "accept_handler False (Some ip) srv = (False, srv)" by (rule accept_handler_refused [OF Cons.prems False])
    then show ?thesis using Cons.IH [OF Cons.prems] False by (auto simp: Let_def split_beta)
  qed
qed simp

definition ref_server :: net_server where
  "ref_server = \<lparr>conf = NetConf\<lparr>service_speed := 3, service_token := 3, service_concurrency := 1\<rparr>, current_concurrency = 0, accepting = True\<rparr>"

theorem accept_rate_limited_witness:
  "fst (accept_all [''10.0.0.1'', ''10.0.0.2'', ''10.0.0.3'', ''10.0.0.4''] ref_server) = [''10.0.0.1'', ''10.0.0.2''] \<and>
   service_token (conf (snd (accept_all [''10.0.0.1'', ''10.0.0.2'', ''10.0.0.3'', ''10.0.0.4''] ref_server))) = 0"
  using accept_rate_limited [of ref_server "[''10.0.0.1'', ''10.0.0.2'', ''10.0.0.3'', ''10.0.0.4'']"]
  by (simp add: ref_server_def NetConf_def check_safe_ip_def accept_room_def Let_def split_beta del: accept_all.simps)

text \<open>A change of the rate makes the refill timer spin: after the rate is changed from one limit to another while the timer waits, the
  handler of the destroyed timer is queued, and every handler that runs refills the tokens and
  queues the next one at once, so that the tokens are full after any number of handlers and the rate is not limited.\<close>

fun run_handlers :: "nat \<Rightarrow> net_conf \<Rightarrow> net_conf res" where
  "run_handlers 0 c = Inr c"
| "run_handlers (Suc n) c = res_bind (timed_feed_token_handler c) (run_handlers n)"

theorem feed_timer_spins:
  assumes "NetServer_module_runtime cf srv = (0, srv')" "service_speed (conf srv') \<noteq> service_speed (conf srv)"
    and "service_speed (conf srv') \<noteq> 0" "timed_feed_token (conf srv) = \<lparr>ft_exists = True, ft_waits = 1, ft_ready = 0\<rparr>"
  shows "\<exists>c. run_handlers (Suc n) (conf srv') = Inr c \<and> ft_ready (timed_feed_token c) = 1 \<and> service_token c = service_speed (conf srv')"
proof -
  have t: "timed_feed_token (conf srv') = \<lparr>ft_exists = True, ft_waits = 1, ft_ready = 1\<rparr>"
    using assms by (auto simp: NetServer_module_runtime_def Let_def ft_arm_def ft_reset_def ft_cancel_def split: prod.splits if_splits)
  have step: "timed_feed_token_handler c = Inr (feed_service_token c)"
    if "timed_feed_token c = \<lparr>ft_exists = True, ft_waits = 1, ft_ready = 1\<rparr>" "service_speed c \<noteq> 0" for c
    using that by (simp add: timed_feed_token_handler_def Let_def feed_service_token_def ft_arm_def ft_cancel_def)
  have "\<exists>c. run_handlers (Suc n) c0 = Inr c \<and> timed_feed_token c = \<lparr>ft_exists = True, ft_waits = 1, ft_ready = 1\<rparr> \<and>
      service_speed c = service_speed c0 \<and> service_token c = service_speed c0"
    if "timed_feed_token c0 = \<lparr>ft_exists = True, ft_waits = 1, ft_ready = 1\<rparr>" "service_speed c0 \<noteq> 0" for c0
    using that
  proof (induction n arbitrary: c0)
    case 0
    then show ?case by (simp add: step) (simp add: feed_service_token_def)
  next
    case (Suc n)
    have "run_handlers (Suc (Suc n)) c0 = run_handlers (Suc n) (feed_service_token c0)"
      using step [OF Suc.prems] by simp
    moreover have "timed_feed_token (feed_service_token c0) = timed_feed_token c0"
        "service_speed (feed_service_token c0) = service_speed c0"
      by (simp_all add: feed_service_token_def)
    ultimately show ?case using Suc.IH [of "feed_service_token c0"] Suc.prems by (simp del: run_handlers.simps)
  qed
  from this [OF t assms(3)] show ?thesis by auto
qed

definition ref_limited_server :: net_server where
  "ref_limited_server = \<lparr>conf = NetConf\<lparr>service_speed := 2, timed_feed_token := \<lparr>ft_exists = True, ft_waits = 1, ft_ready = 0\<rparr>\<rparr>,
     current_concurrency = 0, accepting = True\<rparr>"

theorem feed_timer_spins_witness:
  "\<exists>c. run_handlers 1000 (conf (snd (NetServer_module_runtime ref_config ref_limited_server))) = Inr c \<and> service_token c = 100"
proof -
  let ?r = "NetServer_module_runtime ref_config ref_limited_server"
  have "fst ?r = 0" "service_speed (conf (snd ?r)) = 100"
    by (simp_all add: NetServer_module_runtime_def load_conf_def conf_seq_def load_step_defs ref_config_def NetConf_def or_else_def Let_def ref_limited_server_def)
  moreover have "service_speed (conf ref_limited_server) = 2"
      "timed_feed_token (conf ref_limited_server) = \<lparr>ft_exists = True, ft_waits = 1, ft_ready = 0\<rparr>"
    by (simp_all add: ref_limited_server_def)
  ultimately show ?thesis
    using feed_timer_spins [of ref_config ref_limited_server "snd ?r" 999] by (auto simp: prod_eq_iff simp del: run_handlers.simps)
qed

subsection \<open>Concurrency limit\<close>

datatype conn_event = Accept string | Release

fun conn_step :: "conn_event \<Rightarrow> net_server \<Rightarrow> net_server" where
  "conn_step (Accept ip) srv = snd (accept_handler False (Some ip) srv)"
| "conn_step Release srv = conn_released srv"

lemma accept_current:
  "service_concurrency (conf srv) = k \<Longrightarrow> 0 < k \<Longrightarrow> current_concurrency srv \<le> k + 1 \<Longrightarrow>
     current_concurrency (conn_step e srv) \<le> k + 1 \<and> service_concurrency (conf (conn_step e srv)) = k"
  by (cases e) (auto simp: accept_handler_def get_service_token_def conn_released_def Let_def)

text \<open>The concurrency limit is off by one: with a limit of \<open>k\<close> connections no sequence of accepts and releases leads to more than \<open>k + 1\<close>
  connections, and without other limits \<open>k + 1\<close> clients do all get a connection.\<close>

theorem concurrency_limit:
  assumes "service_concurrency (conf srv) = int k" "0 < k" "current_concurrency srv = 0"
    and "service_enabled (conf srv)" "service_speed (conf srv) = 0" "safe_ip (conf srv) = {}"
  shows "current_concurrency (fold conn_step es srv) \<le> int k + 1 \<and>
    current_concurrency (fold conn_step (replicate (k + 1) (Accept ip)) srv) = int k + 1"
proof -
  have "current_concurrency (fold conn_step es s) \<le> int k + 1"
    if "service_concurrency (conf s) = int k" "current_concurrency s \<le> int k + 1" for s
    using that accept_current [of _ "int k"] assms(2) by (induction es arbitrary: s) simp_all
  then have 1: "current_concurrency (fold conn_step es srv) \<le> int k + 1" using assms by simp
  have "fold conn_step (replicate n (Accept ip)) srv = srv\<lparr>current_concurrency := int n\<rparr>" if "n \<le> k + 1" for n
    using that
  proof (induction n)
    case (Suc n)
    have "fold conn_step (replicate (Suc n) (Accept ip)) srv = conn_step (Accept ip) (fold conn_step (replicate n (Accept ip)) srv)"
      by (simp flip: replicate_append_same add: fold_append)
    also have "\<dots> = srv\<lparr>current_concurrency := int (Suc n)\<rparr>"
      using Suc assms by (simp add: accept_handler_def check_safe_ip_def get_service_token_def)
    finally show ?case .
  qed (use assms(3) in simp)
  from this [of "k + 1"] 1 show ?thesis by simp
qed

theorem concurrency_limit_witness:
  "current_concurrency (fold conn_step (replicate 3 (Accept ''10.0.0.1'')) \<lparr>conf = NetConf\<lparr>service_concurrency := 2\<rparr>, current_concurrency = 0, accepting = True\<rparr>) = 3"
  using concurrency_limit [of "\<lparr>conf = NetConf\<lparr>service_concurrency := 2\<rparr>, current_concurrency = 0, accepting = True\<rparr>" 2 "[]" "''10.0.0.1''"]
  by (simp add: NetConf_def numeral_3_eq_3)

subsection \<open>Thread pools\<close>

text \<open>A service starts exactly if the configuration has a group with its name; its thread numbers are then within their bounds, or all zero: an invalid
  group does not stop the service, which starts without threads.\<close>

theorem service_init_spec:
  assumes "conf_ptr svc = None" "svc_name svc \<noteq> []" "cfg ''rpc.services'' = Some ss" "RaftService_init junk (Some cfg) svc = (ok, svc')"
  shows "(ok \<longleftrightarrow> (\<exists>s \<in> set ss. cfg_instance_name s = Some (svc_name svc))) \<and>
    (ok \<longrightarrow> (\<exists>c. get_executor_conf svc' = Inr c \<and> (conf_valid c \<or> c = conf_zero)))"
  using init_loop_spec [of svc junk ss ok svc'] assms by (auto simp: RaftService_init_def get_executor_conf_def)

definition ref_setting :: "int \<Rightarrow> service_setting" where
  "ref_setting n = \<lparr>cfg_instance_name = Some ''RaftService'', cfg_int = (\<lambda>k. Some (if k = ''exec_thread_pool_step_size'' then 10 else n))\<rparr>"

theorem service_init_spec_witness:
  "\<exists>svc'. RaftService_init conf_zero (Some (\<lambda>p. Some [ref_setting (-5)])) \<lparr>svc_name = ''RaftService'', conf_ptr = None\<rparr> = (True, svc') \<and>
     get_executor_conf svc' = Inr conf_zero"
proof -
  let ?svc = "\<lparr>svc_name = ''RaftService'', conf_ptr = None\<rparr>"
  obtain ok svc' where r: "RaftService_init conf_zero (Some (\<lambda>p. Some [ref_setting (-5)])) ?svc = (ok, svc')" by (metis surj_pair)
  from service_init_spec [OF _ _ _ r, of "[ref_setting (-5)]"] have "ok" by (simp add: ref_setting_def)
  moreover have "conf_ptr svc' = Some conf_zero"
    using r by (auto simp: RaftService_init_def ref_setting_def RaftService_handle_rpc_service_conf_def base_handle_rpc_service_conf_def
        lookup_int_def Let_def conf_zero_def)
  ultimately show ?thesis using r by (simp add: get_executor_conf_def)
qed

text \<open>The size of a thread pool stays within the configured bounds and grows with the queue: for a valid configuration with a step size the pool is
  resized to the smaller of the hard limit and the normal number plus one thread per full step of a queue that is longer than
  a step.\<close>

theorem thread_pool_bounds:
  assumes "conf_valid c" "0 < exec_thread_step_size c" "0 \<le> q"
  shows "exec_thread_number c \<le> executor_threads_adjust c q \<and> executor_threads_adjust c q \<le> exec_thread_number_hard c \<and>
    (q \<le> q' \<longrightarrow> executor_threads_adjust c q \<le> executor_threads_adjust c q')"
proof -
  have "q div exec_thread_step_size c \<le> q' div exec_thread_step_size c" if "q \<le> q'"
    using that assms(2) by (rule zdiv_mono1)
  moreover have "0 \<le> q div exec_thread_step_size c" using assms(2,3) by (simp add: pos_imp_zdiv_nonneg_iff)
  ultimately show ?thesis
    using executor_threads_bounds [OF assms] assms(2) by (auto simp: executor_threads_adjust_def Let_def)
qed

theorem thread_pool_bounds_witness:
  "executor_threads_adjust \<lparr>exec_thread_number = 5, exec_thread_number_hard = 8, exec_thread_step_size = 10\<rparr> 1000 \<le> 8"
  using thread_pool_bounds [of "\<lparr>exec_thread_number = 5, exec_thread_number_hard = 8, exec_thread_step_size = 10\<rparr>" 1000]
  by (simp add: conf_valid_def)

end
