(* ===== verification/Snapshot_Handshake.thy ===== *)
theory Snapshot_Handshake
  imports State_Machine
begin

text \<open>
  How a snapshot operation and the apply thread of \<open>StateMachine\<close> keep out of each other's way, at the grain of single reads and writes of
  \<^verbatim>\<open>snapshot_progress_\<close>, which no lock protects. The apply thread tests it at the label \<^verbatim>\<open>again\<close>, moves
  \<^verbatim>\<open>kBegin\<close> to \<^verbatim>\<open>kProcessing\<close>, tests it again, and then applies an entry or goes back to waiting. A snapshot operation writes
  \<^verbatim>\<open>kBegin\<close>, spins until it reads \<^verbatim>\<open>kProcessing\<close>, works on the store and writes \<^verbatim>\<open>kDone\<close>.
\<close>

datatype apply_pc = ApWait | ApTest | ApGrant | ApRetest | Applying

datatype snap_pc = SnIdle | SnSpin | InSnapshot

record handshake =
  hs_progress :: progress
  hs_apply :: apply_pc
  hs_snap :: "nat \<Rightarrow> snap_pc"

definition hs_init :: handshake where
  "hs_init = \<lparr>hs_progress = kDone, hs_apply = ApWait, hs_snap = (\<lambda>i. SnIdle)\<rparr>"

inductive apply_step :: "handshake \<Rightarrow> handshake \<Rightarrow> bool" where
  ap_wake: "hs_apply s = ApWait \<Longrightarrow> apply_step s (s\<lparr>hs_apply := ApTest\<rparr>)"
| ap_begin: "hs_apply s = ApTest \<Longrightarrow> hs_progress s = kBegin \<Longrightarrow> apply_step s (s\<lparr>hs_apply := ApGrant\<rparr>)"
| ap_other: "hs_apply s = ApTest \<Longrightarrow> hs_progress s \<noteq> kBegin \<Longrightarrow> apply_step s (s\<lparr>hs_apply := ApRetest\<rparr>)"
| ap_grant: "hs_apply s = ApGrant \<Longrightarrow> apply_step s (s\<lparr>hs_apply := ApRetest, hs_progress := kProcessing\<rparr>)"
| ap_skip: "hs_apply s = ApRetest \<Longrightarrow> hs_progress s = kProcessing \<Longrightarrow> apply_step s (s\<lparr>hs_apply := ApWait\<rparr>)"
| ap_enter: "hs_apply s = ApRetest \<Longrightarrow> hs_progress s \<noteq> kProcessing \<Longrightarrow> apply_step s (s\<lparr>hs_apply := Applying\<rparr>)"
| ap_again: "hs_apply s = Applying \<Longrightarrow> apply_step s (s\<lparr>hs_apply := ApTest\<rparr>)"
| ap_done: "hs_apply s = Applying \<Longrightarrow> apply_step s (s\<lparr>hs_apply := ApWait\<rparr>)"

inductive snap_step :: "nat \<Rightarrow> handshake \<Rightarrow> handshake \<Rightarrow> bool" for i :: nat where
  sn_begin: "hs_snap s i = SnIdle \<Longrightarrow> snap_step i s (s\<lparr>hs_snap := (hs_snap s)(i := SnSpin), hs_progress := kBegin\<rparr>)"
| sn_spin: "hs_snap s i = SnSpin \<Longrightarrow> hs_progress s \<noteq> kProcessing \<Longrightarrow> snap_step i s s"
| sn_enter: "hs_snap s i = SnSpin \<Longrightarrow> hs_progress s = kProcessing \<Longrightarrow> snap_step i s (s\<lparr>hs_snap := (hs_snap s)(i := InSnapshot)\<rparr>)"
| sn_leave: "hs_snap s i = InSnapshot \<Longrightarrow> snap_step i s (s\<lparr>hs_snap := (hs_snap s)(i := SnIdle), hs_progress := kDone\<rparr>)"

inductive_cases apply_stepE: "apply_step s t"
inductive_cases snap_stepE: "snap_step i s t"

text \<open>The apply thread and the snapshot operations of a set of threads.\<close>

inductive hs_reach :: "nat set \<Rightarrow> handshake \<Rightarrow> bool" for N :: "nat set" where
  reach_init: "hs_reach N hs_init"
| reach_apply: "hs_reach N s \<Longrightarrow> apply_step s t \<Longrightarrow> hs_reach N t"
| reach_snap: "hs_reach N s \<Longrightarrow> i \<in> N \<Longrightarrow> snap_step i s t \<Longrightarrow> hs_reach N t"

text \<open>With one snapshot thread, its state fixes what the variable holds and where the apply thread can be.\<close>

definition hs_inv :: "nat \<Rightarrow> handshake \<Rightarrow> bool" where
  "hs_inv i s \<longleftrightarrow>
     (case hs_snap s i of
        SnIdle \<Rightarrow> hs_progress s = kDone \<and> hs_apply s \<noteq> ApGrant
      | SnSpin \<Rightarrow> hs_progress s = kBegin \<or> hs_progress s = kProcessing \<and> hs_apply s \<in> {ApWait, ApTest, ApRetest}
      | InSnapshot \<Rightarrow> hs_progress s = kProcessing \<and> hs_apply s \<in> {ApWait, ApTest, ApRetest})"

lemma hs_inv_reach: "hs_reach {i} s \<Longrightarrow> hs_inv i s"
proof (induction rule: hs_reach.induct)
  case reach_init
  then show ?case by (simp add: hs_inv_def hs_init_def)
next
  case (reach_apply s t)
  from reach_apply(2,3) show ?case by (cases rule: apply_step.cases) (auto simp: hs_inv_def split: snap_pc.splits)
next
  case (reach_snap s j t)
  from reach_snap(2-4) show ?case by (auto simp: hs_inv_def elim!: snap_stepE split: snap_pc.splits)
qed

subsection \<open>Properties\<close>

text \<open>C15: As long as one thread at a time runs snapshot operations, no entry is applied while a snapshot is created, loaded or
  applied, in any interleaving.\<close>

theorem snapshot_excludes_apply:
  assumes "hs_reach {i} s" "hs_snap s i = InSnapshot"
  shows "hs_apply s \<noteq> Applying \<and> hs_progress s = kProcessing"
  using hs_inv_reach [OF assms(1)] assms(2) by (auto simp: hs_inv_def)

text \<open>Runs, as the steps of the apply thread and of the snapshot threads in order; a step that does not apply leaves the run.\<close>

datatype hs_action = A apply_pc | S nat

fun hs_move :: "hs_action \<Rightarrow> handshake \<Rightarrow> handshake" where
  "hs_move (A pc) s =
     (case (hs_apply s, hs_progress s) of
        (ApWait, _) \<Rightarrow> s\<lparr>hs_apply := ApTest\<rparr>
      | (ApTest, kBegin) \<Rightarrow> s\<lparr>hs_apply := ApGrant\<rparr>
      | (ApTest, _) \<Rightarrow> s\<lparr>hs_apply := ApRetest\<rparr>
      | (ApGrant, _) \<Rightarrow> s\<lparr>hs_apply := ApRetest, hs_progress := kProcessing\<rparr>
      | (ApRetest, kProcessing) \<Rightarrow> s\<lparr>hs_apply := ApWait\<rparr>
      | (ApRetest, _) \<Rightarrow> s\<lparr>hs_apply := Applying\<rparr>
      | (Applying, _) \<Rightarrow> s\<lparr>hs_apply := if pc = ApTest then ApTest else ApWait\<rparr>)"
| "hs_move (S i) s =
     (case hs_snap s i of
        SnIdle \<Rightarrow> s\<lparr>hs_snap := (hs_snap s)(i := SnSpin), hs_progress := kBegin\<rparr>
      | SnSpin \<Rightarrow> if hs_progress s = kProcessing then s\<lparr>hs_snap := (hs_snap s)(i := InSnapshot)\<rparr> else s
      | InSnapshot \<Rightarrow> s\<lparr>hs_snap := (hs_snap s)(i := SnIdle), hs_progress := kDone\<rparr>)"

lemma hs_move_apply: "apply_step s (hs_move (A pc) s)"
  by (cases "hs_apply s"; cases "hs_progress s") (auto intro: apply_step.intros)

lemma hs_move_snap: "snap_step i s (hs_move (S i) s)"
  by (cases "hs_snap s i") (auto intro: snap_step.intros)

lemma hs_run_reach:
  assumes "\<forall>i. S i \<in> set ms \<longrightarrow> i \<in> N"
  shows "hs_reach N (fold hs_move ms hs_init)"
  using assms
proof (induction ms rule: rev_induct)
  case Nil
  show ?case by (simp add: reach_init)
next
  case (snoc m ms)
  then have IH: "hs_reach N (fold hs_move ms hs_init)" by simp
  show ?case
  proof (cases m)
    case (A pc)
    then show ?thesis using reach_apply [OF IH hs_move_apply] by simp
  next
    case (S i)
    with snoc.prems have "i \<in> N" by simp
    with S show ?thesis using reach_snap [OF IH _ hs_move_snap] by simp
  qed
qed

theorem snapshot_excludes_apply_witness:
  "hs_apply (fold hs_move [S 0, A ApWait, A ApWait, A ApWait, S 0] hs_init) \<noteq> Applying"
proof -
  let ?s = "fold hs_move [S 0, A ApWait, A ApWait, A ApWait, S 0] hs_init"
  have "hs_reach {0} ?s" by (rule hs_run_reach) auto
  moreover have "hs_snap ?s 0 = InSnapshot" by (simp add: hs_init_def)
  ultimately show ?thesis using snapshot_excludes_apply [of 0 ?s] by simp
qed

text \<open>How many steps of the apply thread a spinning operation still waits for at most.\<close>

definition hs_rank :: "handshake \<Rightarrow> nat" where
  "hs_rank s =
     (if hs_progress s = kProcessing then 0
      else case hs_apply s of ApGrant \<Rightarrow> 1 | ApTest \<Rightarrow> 2 | ApWait \<Rightarrow> 3 | Applying \<Rightarrow> 4 | ApRetest \<Rightarrow> 5)"

lemma hs_rank_le: "hs_rank s \<le> 5"
  by (cases "hs_apply s") (simp_all add: hs_rank_def)

lemma hs_rank_apply:
  assumes "hs_inv i s" "hs_snap s i = SnSpin" "apply_step s t"
  shows "hs_snap t i = SnSpin \<and> hs_rank t \<le> hs_rank s - 1"
  using assms(3,1,2) by (cases rule: apply_step.cases) (auto simp: hs_inv_def hs_rank_def)

lemma hs_spin_step:
  assumes "hs_snap s i = SnSpin" "snap_step i s t"
  shows "t = s \<and> hs_rank s \<noteq> 0 \<or> hs_snap t i = InSnapshot"
  using assms by (auto simp: hs_rank_def elim!: snap_stepE split: apply_pc.splits)

text \<open>Along a run of the two threads the operation is let in, or it still spins and every step of the apply thread has counted.\<close>

lemma hs_run_rank:
  assumes "hs_reach {i} (f 0)" "hs_snap (f 0) i = SnSpin"
    and "\<forall>m < n. apply_step (f m) (f (Suc m)) \<or> snap_step i (f m) (f (Suc m))"
  shows "(\<exists>m \<le> n. hs_snap (f m) i = InSnapshot) \<or>
    hs_reach {i} (f n) \<and> hs_snap (f n) i = SnSpin \<and> hs_rank (f n) + card {m. m < n \<and> apply_step (f m) (f (Suc m))} \<le> 5 \<or>
    hs_reach {i} (f n) \<and> hs_snap (f n) i = SnSpin \<and> hs_rank (f n) = 0"
  using assms(3)
proof (induction n)
  case 0
  then show ?case using assms(1,2) hs_rank_le [of "f 0"] by simp
next
  case (Suc n)
  have "{m. m < Suc n \<and> apply_step (f m) (f (Suc m))} =
      {m. m < n \<and> apply_step (f m) (f (Suc m))} \<union> (if apply_step (f n) (f (Suc n)) then {n} else {})"
    by (auto simp: less_Suc_eq)
  then have c: "card {m. m < Suc n \<and> apply_step (f m) (f (Suc m))} =
      card {m. m < n \<and> apply_step (f m) (f (Suc m))} + (if apply_step (f n) (f (Suc n)) then 1 else 0)" by simp
  show ?case
  proof (cases "\<exists>m \<le> n. hs_snap (f m) i = InSnapshot")
    case True
    then show ?thesis using le_SucI by blast
  next
    case False
    with Suc have R: "hs_reach {i} (f n)" "hs_snap (f n) i = SnSpin"
        "hs_rank (f n) + card {m. m < n \<and> apply_step (f m) (f (Suc m))} \<le> 5 \<or> hs_rank (f n) = 0" by auto
    show ?thesis
    proof (cases "apply_step (f n) (f (Suc n))")
      case True
      then show ?thesis
        using reach_apply [OF R(1) True] hs_rank_apply [OF hs_inv_reach [OF R(1)] R(2) True] R(3) c by auto
    next
      case no: False
      with Suc.prems have "snap_step i (f n) (f (Suc n))" by blast
      from hs_spin_step [OF R(2) this] show ?thesis using R c no by auto
    qed
  qed
qed

text \<open>C28: A snapshot operation is let in. Take any run, with any interleaving and any of the branches of the apply thread, of the apply
  thread and of the only thread that runs snapshot operations, from a reachable state in which the operation spins: once the apply
  thread has made five steps, the operation is at work after its own next step at the latest.\<close>

theorem snapshot_let_in:
  assumes "hs_reach {i} (f 0)" "hs_snap (f 0) i = SnSpin"
    and "\<forall>m < n. apply_step (f m) (f (Suc m)) \<or> snap_step i (f m) (f (Suc m))"
    and "5 \<le> card {m. m < n \<and> apply_step (f m) (f (Suc m))}" "snap_step i (f n) (f (Suc n))"
  shows "\<exists>m \<le> Suc n. hs_snap (f m) i = InSnapshot"
proof (cases "\<exists>m \<le> n. hs_snap (f m) i = InSnapshot")
  case True
  then show ?thesis using le_SucI by blast
next
  case False
  with hs_run_rank [OF assms(1-3)] assms(4) have "hs_snap (f n) i = SnSpin" "hs_rank (f n) = 0" by auto
  with hs_spin_step [OF _ assms(5)] show ?thesis by auto
qed

lemma hs_take_step: "m < length ms \<Longrightarrow> fold hs_move (take (Suc m) ms) s = hs_move (ms ! m) (fold hs_move (take m ms) s)"
  by (simp add: take_Suc_conv_app_nth)

theorem snapshot_let_in_witness:
  "\<exists>m \<le> 6. hs_snap (fold hs_move (take m (replicate 5 (A ApWait) @ [S 0]))
     (fold hs_move [A ApWait, A ApWait, S 0] hs_init)) 0 = InSnapshot"
proof -
  let ?s = "fold hs_move [A ApWait, A ApWait, S 0] hs_init"
  define f where "f = (\<lambda>m. fold hs_move (take m (replicate 5 (A ApWait) @ [S 0])) ?s)"
  have "hs_reach {0} ?s" by (rule hs_run_reach) auto
  moreover have "hs_snap ?s 0 = SnSpin" by (simp add: hs_init_def)
  ultimately have 0: "hs_reach {0} (f 0)" "hs_snap (f 0) 0 = SnSpin" by (simp_all only: f_def take_0 fold_simps(1))
  have a: "apply_step (f m) (f (Suc m))" if "m < 5" for m
  proof -
    have "f (Suc m) = hs_move (A ApWait) (f m)" using that by (simp add: f_def hs_take_step nth_append del: take_append hs_move.simps)
    then show ?thesis using hs_move_apply [of "f m" ApWait] by simp
  qed
  then have "{m. m < 5 \<and> apply_step (f m) (f (Suc m))} = {..<5}" by blast
  then have c: "5 \<le> card {m. m < 5 \<and> apply_step (f m) (f (Suc m))}" by simp
  have "f (Suc 5) = hs_move (S 0) (f 5)"
    unfolding f_def by (subst hs_take_step) (simp_all add: nth_append del: take_append hs_move.simps)
  then have "snap_step 0 (f 5) (f (Suc 5))" using hs_move_snap [of 0 "f 5"] by simp
  from snapshot_let_in [of 0 f 5, OF 0 _ c this] a show ?thesis by (simp add: f_def del: take_append)
qed

text \<open>C39: Two threads that run snapshot operations break the protocol in two ways: there is a run after which an entry is applied while a
  snapshot operation is at work, and a run after which an operation spins on a variable that says the work is done, and
  stays there whatever the apply thread does.\<close>

theorem two_snapshots_break:
  "(\<exists>s. hs_reach {0, 1} s \<and> hs_snap s 1 = InSnapshot \<and> hs_apply s = Applying) \<and>
   (\<exists>s. hs_reach {0, 1} s \<and> hs_snap s 1 = SnSpin \<and> (\<forall>t. apply_step\<^sup>*\<^sup>* s t \<longrightarrow> hs_progress t = kDone \<and> hs_snap t 1 = SnSpin))"
proof (intro conjI)
  let ?ms = "[S 0, A ApWait, A ApWait, A ApWait, S 0, A ApWait, S 1, A ApWait, A ApWait, A ApWait, S 1, S 0, A ApWait]"
  let ?s = "fold hs_move ?ms hs_init"
  have "hs_reach {0, 1} ?s" by (rule hs_run_reach) auto
  moreover have "hs_snap ?s 1 = InSnapshot \<and> hs_apply ?s = Applying" by (simp add: hs_init_def)
  ultimately show "\<exists>s. hs_reach {0, 1} s \<and> hs_snap s 1 = InSnapshot \<and> hs_apply s = Applying" by blast
next
  let ?ms = "[S 0, A ApWait, A ApWait, A ApWait, S 0, A ApWait, S 1, S 0]"
  let ?s = "fold hs_move ?ms hs_init"
  have r: "hs_reach {0, 1} ?s" by (rule hs_run_reach) auto
  have s: "hs_snap ?s 1 = SnSpin" "hs_progress ?s = kDone" "hs_apply ?s \<noteq> ApGrant" by (simp_all add: hs_init_def)
  have "hs_progress t = kDone \<and> hs_snap t 1 = SnSpin \<and> hs_apply t \<noteq> ApGrant" if "apply_step\<^sup>*\<^sup>* ?s t" for t
    using that
  proof (induction rule: rtranclp_induct)
    case base
    show ?case using s by blast
  next
    case (step t u)
    from step(2,3) show ?case by (cases rule: apply_step.cases) auto
  qed
  with r s show "\<exists>s. hs_reach {0, 1} s \<and> hs_snap s 1 = SnSpin \<and>
      (\<forall>t. apply_step\<^sup>*\<^sup>* s t \<longrightarrow> hs_progress t = kDone \<and> hs_snap t 1 = SnSpin)" by blast
qed

theorem two_snapshots_break_witness: "\<exists>s. hs_reach {0, 1} s \<and> hs_snap s 1 = InSnapshot \<and> hs_apply s = Applying"
  using two_snapshots_break by blast

end
