(* ===== verification/Startup.thy ===== *)
theory Startup
  imports Net_Server Service_Conf Consensus_Ops
begin

text \<open>
  The start of the process: \<^verbatim>\<open>src/source/Captain.{h,cpp}\<close>, \<^verbatim>\<open>src/main.cpp\<close> and the signal handler of \<^verbatim>\<open>src/setup.cpp\<close>. \<open>Captain::init\<close> creates the
  components one after the other and returns at the first that fails; it is the list of these steps. The
  libraries it uses (timer, settings, thread pools, sockets) are an environment that says which of their operations succeed.
\<close>

subsection \<open>State and environment\<close>

text \<open>The parts of a configuration file that the components read.\<close>

record app_config =
  ac_log_level :: "int option"
  ac_log_path :: "string option"
  ac_net :: net_config
  ac_services :: config
  ac_raft :: raft_setting

record ('l, 's) startup_env =
  env_timer_init :: bool
  env_setting_init :: "string \<Rightarrow> bool"
  env_setting :: "string \<Rightarrow> app_config option"
  env_addr_ok :: "string \<Rightarrow> bool"
  env_net_threads :: "int \<Rightarrow> bool"
  env_bind_ok :: "string \<Rightarrow> int \<Rightarrow> bool"
  env_io_service_init :: bool
  env_exec_threads :: "string \<Rightarrow> int \<Rightarrow> bool"
  env_add_timer :: "string \<Rightarrow> bool"
  env_junk :: executor_conf
  env_log :: "'l LogIf"
  env_now :: int
  env_rnd :: int
  env_to_string :: "int \<Rightarrow> string"
  env_dir_ok :: "string \<Rightarrow> bool"
  env_open_log :: "string \<Rightarrow> 'l res"
  env_open_kv :: "string \<Rightarrow> 's res"

text \<open>The captain with its pointers and the dispatcher, which is a singleton of its own. A pointer to a library object is whether
  it is set; \<open>setting_ptr\<close> gives what \<open>get_setting\<close> returns, and \<open>raft_consensus_ptr\<close> the node once it is running.\<close>

record ('l, 's) captain =
  cap_initialized :: bool
  timer_ptr :: bool
  setting_ptr :: "app_config option option"
  log_init :: "(int \<times> string) option"
  status_ptr :: bool
  net_server_ptr :: "net_server option"
  io_service_ptr :: bool
  cap_dispatcher :: service_dispatcher
  raft_consensus_ptr :: "('l, 's) raft option option"

definition Captain :: "('l, 's) captain" where
  "Captain = \<lparr>cap_initialized = False, timer_ptr = False, setting_ptr = None, log_init = None, status_ptr = False,
     net_server_ptr = None, io_service_ptr = False, cap_dispatcher = Dispatcher, raft_consensus_ptr = None\<rparr>"

type_synonym ('l, 's) start_step = "('l, 's) captain \<Rightarrow> (bool \<times> ('l, 's) captain) res"

subsection \<open>Steps of init\<close>

definition init_timer :: "('l, 's) startup_env \<Rightarrow> ('l, 's) start_step" where
  "init_timer E p = Inr (env_timer_init E, p\<lparr>timer_ptr := True\<rparr>)"

definition init_setting :: "('l, 's) startup_env \<Rightarrow> string \<Rightarrow> ('l, 's) start_step" where
  "init_setting E cfgFile p =
     (if \<not> env_setting_init E cfgFile then Inr (False, p\<lparr>setting_ptr := Some None\<rparr>)
      else Inr (env_setting E cfgFile \<noteq> None, p\<lparr>setting_ptr := Some (env_setting E cfgFile)\<rparr>))"

text \<open>\<open>setting_ptr_->get_setting()\<close>: the configuration, if there is one.\<close>

definition get_setting :: "('l, 's) captain \<Rightarrow> app_config option res" where
  "get_setting p = of_option NullDeref (setting_ptr p)"

definition log_level_of :: "app_config \<Rightarrow> int" where
  "log_level_of cf =
     (let log_level = or_else (ac_log_level cf) 0 in if log_level \<le> 0 \<or> log_level > 7 then 7 else log_level)"

definition log_path_of :: "app_config \<Rightarrow> string" where
  "log_path_of cf = (let log_path = or_else (ac_log_path cf) [] in if log_path = [] then ''./log'' else log_path)"

definition init_log :: "('l, 's) start_step" where
  "init_log p = res_bind (get_setting p) (\<lambda>setting. res_bind (of_option NullDeref setting) (\<lambda>cf.
       Inr (True, p\<lparr>log_init := Some (log_level_of cf, log_path_of cf)\<rparr>)))"

definition init_status :: "('l, 's) start_step" where
  "init_status p = Inr (True, p\<lparr>status_ptr := True\<rparr>)"

definition init_net_server :: "('l, 's) startup_env \<Rightarrow> ('l, 's) start_step" where
  "init_net_server E p =
     res_bind (get_setting p) (\<lambda>setting. res_bind (of_option NullDeref setting) (\<lambda>cf.
       res_bind (NetServer_init (ac_net cf) (env_addr_ok E) (env_net_threads E) NetServer) (\<lambda>(ok, srv).
         Inr (ok, p\<lparr>net_server_ptr := Some srv\<rparr>))))"

definition init_io_service :: "('l, 's) startup_env \<Rightarrow> ('l, 's) start_step" where
  "init_io_service E p = Inr (env_io_service_init E, p\<lparr>io_service_ptr := True\<rparr>)"

text \<open>A service is created, reads its configuration and is registered; the registration reports nothing.\<close>

definition start_service ::
    "(executor_conf \<Rightarrow> config option \<Rightarrow> service \<Rightarrow> bool \<times> service) \<Rightarrow> u16 \<Rightarrow> string \<Rightarrow> ('l, 's) startup_env \<Rightarrow> ('l, 's) start_step" where
  "start_service service_init service_id name E p =
     res_bind (get_setting p) (\<lambda>setting.
       let (ok, svc) = service_init (env_junk E) (map_option ac_services setting) \<lparr>svc_name = name, conf_ptr = None\<rparr> in
       if \<not> ok then Inr (False, p)
       else res_bind (Dispatcher_register_service (env_exec_threads E name) (env_add_timer E name) service_id svc (cap_dispatcher p)) (\<lambda>d.
         Inr (True, p\<lparr>cap_dispatcher := d\<rparr>)))"

definition init_dispatcher :: "('l, 's) start_step" where
  "init_dispatcher p = (let (ok, d) = Dispatcher_init (cap_dispatcher p) in Inr (ok, p\<lparr>cap_dispatcher := d\<rparr>))"

text \<open>A node that only had to write the first log entry ends the process.\<close>

definition init_raft :: "('l, 's) startup_env \<Rightarrow> ('l, 's) start_step" where
  "init_raft E p =
     res_bind (get_setting p) (\<lambda>setting.
     res_bind (RaftConsensus_start (env_log E) (env_now E) (env_rnd E) (env_to_string E) (map_option ac_raft setting) (env_dir_ok E)
         (env_open_log E) (env_open_kv E)) (\<lambda>r.
       case r of InitFailed \<Rightarrow> Inr (False, p\<lparr>raft_consensus_ptr := Some None\<rparr>)
       | Bootstrapped l \<Rightarrow> Inl (Exit True)
       | Running st \<Rightarrow> Inr (True, p\<lparr>raft_consensus_ptr := Some (Some st)\<rparr>)))"

definition init_serve :: "('l, 's) startup_env \<Rightarrow> ('l, 's) start_step" where
  "init_serve E p =
     res_bind (of_option NullDeref (net_server_ptr p)) (\<lambda>srv.
     res_bind (NetServer_service (env_bind_ok E) srv) (\<lambda>srv'.
       Inr (True, p\<lparr>net_server_ptr := Some srv', cap_initialized := True\<rparr>)))"

definition captain_steps :: "('l, 's) startup_env \<Rightarrow> string \<Rightarrow> ('l, 's) start_step list" where
  "captain_steps E cfgFile =
     [init_timer E, init_setting E cfgFile, init_log, init_status, init_net_server E, init_io_service E,
      start_service RaftService_init RAFT_SERVICE ''RaftService'' E,
      start_service ClientService_init CLIENT_SERVICE ''ClientService'' E,
      start_service ControlService_init CONTROL_SERVICE ''ControlService'' E,
      init_dispatcher, init_raft E, init_serve E]"

fun run_steps :: "('l, 's) start_step list \<Rightarrow> ('l, 's) start_step" where
  "run_steps [] p = Inr (True, p)"
| "run_steps (f # fs) p = res_bind (f p) (\<lambda>(ok, p'). if ok then run_steps fs p' else Inr (False, p'))"

definition captain_init :: "('l, 's) startup_env \<Rightarrow> string \<Rightarrow> ('l, 's) start_step" where
  "captain_init E cfgFile p = (if cap_initialized p then Inr (False, p) else run_steps (captain_steps E cfgFile) p)"

subsection \<open>The process\<close>

text \<open>One turn of an I/O thread; \<open>run_failed\<close> is whether the event loop of the library ended with an error.\<close>

definition io_service_run :: "bool \<Rightarrow> thread_status \<Rightarrow> thread_status" where
  "io_service_run run_failed ts =
     (if ts = kThreadTerminating then kThreadDead
      else if ts = kThreadSuspend then ts
      else if run_failed then kThreadDead
      else ts)"

text \<open>Both ways of waiting for the end use the pointers without a test.\<close>

definition service_joinall :: "('l, 's) captain \<Rightarrow> bool res" where
  "service_joinall p = (if \<not> timer_ptr p \<or> net_server_ptr p = None then Inl NullDeref else Inr True)"

definition service_graceful :: "('l, 's) captain \<Rightarrow> (bool \<times> ('l, 's) captain) res" where
  "service_graceful p =
     (if \<not> timer_ptr p then Inl NullDeref
      else res_bind (of_option NullDeref (net_server_ptr p)) (\<lambda>srv.
        Inr (True, p\<lparr>net_server_ptr := Some (io_service_stop_graceful srv)\<rparr>)))"

text \<open>The handler of the two signals the process listens to. The result says what the library is asked for: to load the
  configuration again, or to collect the status.\<close>

datatype signal = SIGHUP | SIGUSR1 | OtherSignal

datatype signal_action = UpdateRuntimeSetting | CollectStatus | NoAction

definition interrupted_callback :: "signal \<Rightarrow> ('l, 's) captain \<Rightarrow> signal_action res" where
  "interrupted_callback sig p =
     (case sig of
        SIGHUP \<Rightarrow> (if setting_ptr p = None then Inl NullDeref else Inr UpdateRuntimeSetting)
      | SIGUSR1 \<Rightarrow> (if \<not> status_ptr p then Inl NullDeref else Inr CollectStatus)
      | OtherSignal \<Rightarrow> Inr NoAction)"

text \<open>The options as \<open>getopt\<close> gives them; the value is the configuration file and whether to run as a daemon.\<close>

datatype cmd_option = Opt_c string | Opt_d | Opt_v | Opt_other

fun main_options :: "cmd_option list \<Rightarrow> string \<times> bool \<Rightarrow> (string \<times> bool) res" where
  "main_options [] a = Inr a"
| "main_options (Opt_c optarg # os) (cfgFile, daemonize) = main_options os (optarg, daemonize)"
| "main_options (Opt_d # os) (cfgFile, daemonize) = main_options os (cfgFile, True)"
| "main_options (Opt_v # os) a = Inl (Exit True)"
| "main_options (Opt_other # os) a = Inl (Exit True)"

text \<open>\<open>main\<close> up to the point where it waits for the threads: \<open>ssl_ok\<close> and \<open>daemon_ok\<close> are the results of the library calls, \<open>prog\<close> the name of
  the program.\<close>

definition kan_main ::
    "('l, 's) startup_env \<Rightarrow> string \<Rightarrow> bool \<Rightarrow> bool \<Rightarrow> cmd_option list \<Rightarrow> ('l, 's) captain res" where
  "kan_main E prog ssl_ok daemon_ok opts =
     res_bind (main_options opts (prog @ ''.conf'', False)) (\<lambda>(cfgFile, daemonize).
       if \<not> ssl_ok then Inl (Exit False)
       else if daemonize \<and> \<not> daemon_ok then Inl (Exit False)
       else res_bind (captain_init E cfgFile Captain) (\<lambda>(ok, p).
         if \<not> ok then Inl (Exit False) else res_bind (service_joinall p) (\<lambda>_. Inr p)))"

end
