(* ===== verification/Startup_Props.thy ===== *)
theory Startup_Props
  imports Startup Server_Props Ref_Cluster
begin

text \<open>
  Start-up: the process passes through a fixed sequence of stages, accepts connections only in the last one, and where signals and
  services are handled before everything they need is there.
\<close>

subsection \<open>Stages\<close>

definition has_config :: "('l, 's) captain \<Rightarrow> bool" where
  "has_config p \<longleftrightarrow> (\<exists>cf. setting_ptr p = Some (Some cf))"

definition is_accepting :: "('l, 's) captain \<Rightarrow> bool" where
  "is_accepting p \<longleftrightarrow> (\<exists>srv. net_server_ptr p = Some srv \<and> accepting srv)"

definition node_up :: "('l, 's) captain \<Rightarrow> bool" where
  "node_up p \<longleftrightarrow> (\<exists>st. raft_consensus_ptr p = Some (Some st))"

definition service_ids :: "u16 list" where
  "service_ids = [RAFT_SERVICE, CLIENT_SERVICE, CONTROL_SERVICE]"

lemma length_service_ids: "length service_ids = 3"
  by (simp add: service_ids_def)

text \<open>Only services whose step has run are registered.\<close>

definition services_up :: "nat \<Rightarrow> 'svc dispatcher \<Rightarrow> bool" where
  "services_up n d \<longleftrightarrow> (\<forall>i ex. services d i = Some ex \<longrightarrow> i \<in> set (take (n - 6) service_ids))"

text \<open>\<open>stage n p\<close>: exactly the first \<open>n\<close> of the twelve steps have taken effect.\<close>

definition stage :: "nat \<Rightarrow> ('l, 's) captain \<Rightarrow> bool" where
  "stage n p \<longleftrightarrow> timer_ptr p = (0 < n) \<and> has_config p = (1 < n) \<and> (log_init p \<noteq> None) = (2 < n) \<and> status_ptr p = (3 < n) \<and>
     (net_server_ptr p \<noteq> None) = (4 < n) \<and> io_service_ptr p = (5 < n) \<and> services_up n (cap_dispatcher p) \<and>
     initialized (cap_dispatcher p) = (9 < n) \<and> node_up p = (10 < n) \<and> is_accepting p = (11 < n) \<and> cap_initialized p = (11 < n)"

lemmas stage_unfold = stage_def has_config_def is_accepting_def node_up_def

lemma services_up_Suc: "services_up n d \<Longrightarrow> services_up (Suc n) d"
  using set_take_subset_set_take [of "n - 6" "Suc n - 6"] by (fastforce simp: services_up_def)

lemma services_up_init [simp]: "services_up n (d\<lparr>initialized := b\<rparr>) = services_up n d"
  by (simp add: services_up_def)

lemma services_up_register:
  assumes "services_up n d" "i = service_ids ! (n - 6)" "6 \<le> n" "n < 9"
  shows "services_up (Suc n) (d\<lparr>services := (services d)(i \<mapsto> ex)\<rparr>)"
proof -
  obtain m where m: "n = 6 + m" using assms(3) le_Suc_ex by blast
  have "set (take (Suc m) service_ids) = insert (service_ids ! m) (set (take m service_ids))"
    using take_Suc_conv_app_nth [of m service_ids] assms(4) m by (simp add: length_service_ids)
  with assms(1,2) m show ?thesis by (auto simp: services_up_def)
qed

lemma stage_0: "stage 0 Captain"
  by (simp add: stage_unfold Captain_def Dispatcher_def services_up_def)

lemma get_setting_config: "has_config p \<Longrightarrow> \<exists>cf. get_setting p = Inr (Some cf) \<and> setting_ptr p = Some (Some cf)"
  by (auto simp: has_config_def get_setting_def)

lemma NetServer_init_idle: "NetServer_init cf a t NetServer = Inr (ok, srv) \<Longrightarrow> \<not> accepting srv"
  by (auto simp: NetServer_init_def NetServer_def Let_def split: prod.splits if_splits)

text \<open>What a step does in its stage: it goes to the next one, or fails and stays, or fails with its pointer already set.\<close>

definition goes :: "nat \<Rightarrow> (bool \<times> ('l, 's) captain) res \<Rightarrow> bool" where
  "goes n r \<longleftrightarrow> (\<forall>ok p. r = Inr (ok, p) \<longrightarrow> (if ok then stage (Suc n) p else stage n p \<or> (n < 11 \<and> stage (Suc n) p)))"

lemma init_timer_goes: "stage 0 p \<Longrightarrow> goes 0 (init_timer E p)"
  using services_up_Suc [of 0 "cap_dispatcher p"] by (simp add: goes_def init_timer_def stage_unfold)

lemma init_setting_goes: "stage (Suc 0) p \<Longrightarrow> goes (Suc 0) (init_setting E f p)"
  using services_up_Suc [of 1 "cap_dispatcher p"] by (auto simp: goes_def init_setting_def stage_unfold)

lemma init_log_goes: "stage 2 p \<Longrightarrow> goes 2 (init_log p)"
  using services_up_Suc [of 2 "cap_dispatcher p"]
  by (auto simp: goes_def init_log_def get_setting_def stage_unfold)

lemma init_status_goes: "stage 3 p \<Longrightarrow> goes 3 (init_status p)"
  using services_up_Suc [of 3 "cap_dispatcher p"] by (simp add: goes_def init_status_def stage_unfold)

lemma init_net_server_goes: "stage 4 p \<Longrightarrow> goes 4 (init_net_server E p)"
  using services_up_Suc [of 4 "cap_dispatcher p"]
  by (auto simp: goes_def init_net_server_def get_setting_def stage_unfold res_bind_Inr_iff dest: NetServer_init_idle)

lemma init_io_service_goes: "stage 5 p \<Longrightarrow> goes 5 (init_io_service E p)"
  using services_up_Suc [of 5 "cap_dispatcher p"] by (auto simp: goes_def init_io_service_def stage_unfold)

text \<open>A started service changes the dispatcher only, where it is registered or not.\<close>

lemma start_service_result:
  assumes "start_service si i nm E p = Inr (ok, p')"
  obtains "\<not> ok" "p' = p" | d where "ok" "p' = p\<lparr>cap_dispatcher := d\<rparr>" "d = cap_dispatcher p \<or>
      (\<exists>ex. d = (cap_dispatcher p)\<lparr>services := (services (cap_dispatcher p))(i \<mapsto> ex)\<rparr>)"
proof -
  obtain setting where g: "get_setting p = Inr setting" using assms by (auto simp: start_service_def res_bind_Inr_iff)
  obtain b svc where b: "si (env_junk E) (map_option ac_services setting) \<lparr>svc_name = nm, conf_ptr = None\<rparr> = (b, svc)"
    by (metis surj_pair)
  show thesis
  proof (cases b)
    case False
    then show thesis using assms g b that(1) by (simp add: start_service_def)
  next
    case True
    then obtain d where d: "Dispatcher_register_service (env_exec_threads E nm) (env_add_timer E nm) i svc (cap_dispatcher p) = Inr d"
        "ok" "p' = p\<lparr>cap_dispatcher := d\<rparr>"
      using assms g b by (auto simp: start_service_def res_bind_Inr_iff)
    have "d = cap_dispatcher p \<or> (\<exists>ex. d = (cap_dispatcher p)\<lparr>services := (services (cap_dispatcher p))(i \<mapsto> ex)\<rparr>)"
      using d(1) by (auto simp: Dispatcher_register_service_def register_service_def res_bind_Inr_iff split: if_splits)
    with d(2,3) that(2) show thesis by blast
  qed
qed

lemma start_service_goes:
  assumes "stage n p" "i = service_ids ! (n - 6)" "6 \<le> n" "n < 9"
  shows "goes n (start_service si i nm E p)"
  unfolding goes_def
proof (intro allI impI)
  fix ok p'
  assume r: "start_service si i nm E p = Inr (ok, p')"
  have up: "services_up n (cap_dispatcher p)" using assms(1) by (simp add: stage_def)
  show "if ok then stage (Suc n) p' else stage n p' \<or> n < 11 \<and> stage (Suc n) p'"
  proof (cases rule: start_service_result [OF r])
    case 1
    then show ?thesis using assms(1) by simp
  next
    case (2 d)
    have "services_up (Suc n) d \<and> initialized d = initialized (cap_dispatcher p)"
      using 2(3) services_up_Suc [OF up] services_up_register [OF up assms(2-)] by auto
    then show ?thesis using assms(1,3,4) 2 by (simp add: stage_unfold)
  qed
qed

lemma init_dispatcher_goes: "stage 9 p \<Longrightarrow> goes 9 (init_dispatcher p)"
  using services_up_Suc [of 9 "cap_dispatcher p"] by (simp add: goes_def init_dispatcher_def Dispatcher_init_def stage_unfold)

lemma init_raft_result:
  assumes "init_raft E p = Inr (ok, p')"
  obtains "\<not> ok" "p' = p\<lparr>raft_consensus_ptr := Some None\<rparr>"
  | setting st where "ok" "p' = p\<lparr>raft_consensus_ptr := Some (Some st)\<rparr>" "setting_ptr p = Some setting"
    "RaftConsensus_start (env_log E) (env_now E) (env_rnd E) (env_to_string E) (map_option ac_raft setting) (env_dir_ok E)
       (env_open_log E) (env_open_kv E) = Inr (Running st)"
proof -
  obtain setting r where g: "setting_ptr p = Some setting"
      "RaftConsensus_start (env_log E) (env_now E) (env_rnd E) (env_to_string E) (map_option ac_raft setting) (env_dir_ok E)
         (env_open_log E) (env_open_kv E) = Inr r"
    using assms by (auto simp: init_raft_def get_setting_def res_bind_Inr_iff)
  with assms that show thesis by (cases r) (auto simp: init_raft_def get_setting_def)
qed

lemma init_raft_goes:
  assumes "stage 10 p"
  shows "goes 10 (init_raft E p)"
  unfolding goes_def
proof (intro allI impI)
  fix ok p'
  assume r: "init_raft E p = Inr (ok, p')"
  have up: "services_up 11 (cap_dispatcher p)" using services_up_Suc [of 10 "cap_dispatcher p"] assms by (simp add: stage_def)
  show "if ok then stage (Suc 10) p' else stage 10 p' \<or> 10 < (11::nat) \<and> stage (Suc 10) p'"
    using assms up by (cases rule: init_raft_result [OF r]) (simp_all add: stage_unfold)
qed

lemma init_serve_goes: "stage 11 p \<Longrightarrow> goes 11 (init_serve E p)"
  using services_up_Suc [of 11 "cap_dispatcher p"]
  by (auto simp: goes_def init_serve_def NetServer_service_def do_accept_def res_bind_Inr_iff stage_unfold split: if_splits)

text \<open>The whole sequence.\<close>

lemma captain_step_goes:
  assumes "n < 12" "stage n p"
  shows "goes n ((captain_steps E f ! n) p)"
proof -
  have "n \<in> {0, Suc 0, 2, 3, 4, 5, 6, 7, 8, 9, 10, 11}" using assms(1) by (simp, presburger)
  then show ?thesis
    using assms(2) start_service_goes [of 6 p RAFT_SERVICE] start_service_goes [of 7 p CLIENT_SERVICE]
      start_service_goes [of 8 p CONTROL_SERVICE]
    by (auto simp: captain_steps_def service_ids_def
        intro: init_timer_goes init_setting_goes init_log_goes init_status_goes init_net_server_goes init_io_service_goes
          init_dispatcher_goes init_raft_goes init_serve_goes)
qed

text \<open>A run through the steps from one stage ends in the stage after the last one, or fails in a stage where nothing is served.\<close>

lemma run_steps_stages:
  assumes "stage n p" "n + k \<le> 12" "run_steps (take k (drop n (captain_steps E f))) p = Inr (ok, p')"
  shows "if ok then stage (n + k) p' else \<exists>m < 12. stage m p'"
  using assms
proof (induction k arbitrary: n p)
  case 0
  then show ?case by simp
next
  case (Suc k)
  have len: "length (captain_steps E f) = 12" by (simp add: captain_steps_def)
  then have "take (Suc k) (drop n (captain_steps E f)) = captain_steps E f ! n # take k (drop (Suc n) (captain_steps E f))"
    using Suc.prems(2) by (simp add: Cons_nth_drop_Suc [symmetric])
  then obtain ok1 p1 where s1: "(captain_steps E f ! n) p = Inr (ok1, p1)"
      "if ok1 then run_steps (take k (drop (Suc n) (captain_steps E f))) p1 = Inr (ok, p') else ok = False \<and> p' = p1"
    using Suc.prems(3) by (cases "(captain_steps E f ! n) p") (auto split: if_splits)
  have g: "if ok1 then stage (Suc n) p1 else stage n p1 \<or> n < 11 \<and> stage (Suc n) p1"
    using captain_step_goes [of n p E f] Suc.prems s1(1) by (simp add: goes_def)
  show ?case
  proof (cases ok1)
    case True
    then show ?thesis using Suc.IH [of "Suc n" p1] Suc.prems(2) g s1(2) by (auto split: if_splits)
  next
    case False
    have "n < 12" using Suc.prems(2) by simp
    then show ?thesis using False g s1(2) Suc_less_eq [of n 11] by (auto simp: numeral_eq_Suc)
  qed
qed

lemma captain_init_stages:
  assumes "captain_init E f Captain = Inr (ok, p)"
  shows "if ok then stage 12 p else \<exists>m < 12. stage m p"
proof -
  have "take 12 (drop 0 (captain_steps E f)) = captain_steps E f" by (simp add: captain_steps_def)
  with run_steps_stages [OF stage_0, of 12 E f ok p] assms show ?thesis
    by (auto simp: captain_init_def Captain_def split: if_splits)
qed

subsection \<open>What a successful start leaves\<close>

text \<open>Whether the executor of a service gets ready.\<close>

definition executor_ready :: "('l, 's) startup_env \<Rightarrow> app_config \<Rightarrow> string \<Rightarrow> bool" where
  "executor_ready E cf name =
     (case Executor_init (env_exec_threads E name) (env_add_timer E name)
         (snd (RaftService_init (env_junk E) (Some (ac_services cf)) \<lparr>svc_name = name, conf_ptr = None\<rparr>)) of
        Inr (ok, adjusts, ec) \<Rightarrow> ok | Inl e \<Rightarrow> False)"

lemma run_steps_Cons_True:
  "run_steps (f # fs) p = Inr (True, p') \<longleftrightarrow> (\<exists>p1. f p = Inr (True, p1) \<and> run_steps fs p1 = Inr (True, p'))"
  by (cases "f p") (auto split: if_splits)

lemma start_service_registers:
  assumes "start_service RaftService_init i nm E p = Inr (True, p')" "setting_ptr p = Some (Some cf)" "\<not> initialized (cap_dispatcher p)"
  shows "\<exists>d. p' = p\<lparr>cap_dispatcher := d\<rparr> \<and> \<not> initialized d \<and>
    (\<forall>j. services d j \<noteq> None \<longleftrightarrow> services (cap_dispatcher p) j \<noteq> None \<or> j = i \<and> executor_ready E cf nm)"
proof -
  obtain ok svc where r: "RaftService_init (env_junk E) (Some (ac_services cf)) \<lparr>svc_name = nm, conf_ptr = None\<rparr> = (ok, svc)"
    by (metis surj_pair)
  obtain b a c where e: "Executor_init (env_exec_threads E nm) (env_add_timer E nm) svc = Inr (b, a, c)"
      "p' = p\<lparr>cap_dispatcher := register_service i (svc, c) b (cap_dispatcher p)\<rparr>"
    using assms r
    by (auto simp: start_service_def get_setting_def Dispatcher_register_service_def res_bind_Inr_iff split: if_splits)
  have "executor_ready E cf nm = b" using r e(1) by (simp add: executor_ready_def)
  with e(2) assms(3) show ?thesis
    by (intro exI [of _ "register_service i (svc, c) b (cap_dispatcher p)"]) (auto simp: register_service_def)
qed

text \<open>The steps between keep what the earlier ones stored.\<close>

lemma init_steps_keep:
  "init_log p = Inr (ok, p') \<Longrightarrow> setting_ptr p = Some (Some cf) \<Longrightarrow> p' = p\<lparr>log_init := Some (log_level_of cf, log_path_of cf)\<rparr>"
  "init_status p = Inr (ok, p') \<Longrightarrow> p' = p\<lparr>status_ptr := True\<rparr>"
  "init_net_server E p = Inr (ok, p') \<Longrightarrow> \<exists>srv. p' = p\<lparr>net_server_ptr := Some srv\<rparr>"
  "init_io_service E p = Inr (ok, p') \<Longrightarrow> p' = p\<lparr>io_service_ptr := True\<rparr>"
  "init_dispatcher p = Inr (ok, p') \<Longrightarrow> p' = p\<lparr>cap_dispatcher := (cap_dispatcher p)\<lparr>initialized := True\<rparr>\<rparr>"
  "init_serve E p = Inr (ok, p') \<Longrightarrow> \<exists>srv. p' = p\<lparr>net_server_ptr := Some (do_accept srv), cap_initialized := True\<rparr>"
  by (auto simp: init_log_def init_status_def init_net_server_def init_io_service_def init_dispatcher_def init_serve_def get_setting_def
      Dispatcher_init_def NetServer_service_def res_bind_Inr_iff split: if_splits)

lemma init_first_steps:
  assumes "init_timer E Captain = Inr (True, p1)" "init_setting E f p1 = Inr (True, p2)"
  shows "\<exists>cf. env_setting E f = Some cf \<and> p2 = Captain\<lparr>timer_ptr := True, setting_ptr := Some (Some cf)\<rparr>"
  using assms by (auto simp: init_timer_def init_setting_def split: if_splits)

lemma captain_init_result:
  assumes "captain_init E f Captain = Inr (True, p)"
  shows "\<exists>cf st. env_setting E f = Some cf \<and> raft_consensus_ptr p = Some (Some st) \<and>
    RaftConsensus_start (env_log E) (env_now E) (env_rnd E) (env_to_string E) (Some (ac_raft cf)) (env_dir_ok E)
      (env_open_log E) (env_open_kv E) = Inr (Running st) \<and>
    is_accepting p \<and> log_init p = Some (log_level_of cf, log_path_of cf) \<and>
    (\<forall>i. services (cap_dispatcher p) i \<noteq> None \<longleftrightarrow> i = RAFT_SERVICE \<and> executor_ready E cf ''RaftService'' \<or>
       i = CLIENT_SERVICE \<and> executor_ready E cf ''ClientService'' \<or> i = CONTROL_SERVICE \<and> executor_ready E cf ''ControlService'')"
proof -
  have "run_steps (captain_steps E f) Captain = Inr (True, p)" using assms by (simp add: captain_init_def Captain_def)
  then obtain p1 p2 p3 p4 p5 p6 p7 p8 p9 p10 p11 where
    s: "init_timer E Captain = Inr (True, p1)" "init_setting E f p1 = Inr (True, p2)" "init_log p2 = Inr (True, p3)"
      "init_status p3 = Inr (True, p4)" "init_net_server E p4 = Inr (True, p5)" "init_io_service E p5 = Inr (True, p6)"
      "start_service RaftService_init RAFT_SERVICE ''RaftService'' E p6 = Inr (True, p7)"
      "start_service RaftService_init CLIENT_SERVICE ''ClientService'' E p7 = Inr (True, p8)"
      "start_service RaftService_init CONTROL_SERVICE ''ControlService'' E p8 = Inr (True, p9)"
      "init_dispatcher p9 = Inr (True, p10)" "init_raft E p10 = Inr (True, p11)" "init_serve E p11 = Inr (True, p)"
    unfolding captain_steps_def ClientService_init_def ControlService_init_def run_steps_Cons_True by auto
  obtain cf where cf: "env_setting E f = Some cf" "p2 = Captain\<lparr>timer_ptr := True, setting_ptr := Some (Some cf)\<rparr>"
    using init_first_steps [OF s(1,2)] by blast
  obtain srv where p6: "p6 = p2\<lparr>log_init := Some (log_level_of cf, log_path_of cf), status_ptr := True, net_server_ptr := Some srv,
      io_service_ptr := True\<rparr>"
    using init_steps_keep(1) [OF s(3), of cf] init_steps_keep(2) [OF s(4)] init_steps_keep(3) [OF s(5)] init_steps_keep(4) [OF s(6)] cf(2)
    by auto
  have f6: "setting_ptr p6 = Some (Some cf)" "\<not> initialized (cap_dispatcher p6)" "services (cap_dispatcher p6) = Map.empty"
      "log_init p6 = Some (log_level_of cf, log_path_of cf)"
    using p6 cf(2) by (simp_all add: Captain_def Dispatcher_def)
  obtain d7 where d7: "p7 = p6\<lparr>cap_dispatcher := d7\<rparr>" "\<not> initialized d7"
      "\<forall>j. services d7 j \<noteq> None \<longleftrightarrow> j = RAFT_SERVICE \<and> executor_ready E cf ''RaftService''"
    using start_service_registers [OF s(7) f6(1,2)] f6(3) by auto
  obtain d8 where d8: "p8 = p6\<lparr>cap_dispatcher := d8\<rparr>" "\<not> initialized d8"
      "\<forall>j. services d8 j \<noteq> None \<longleftrightarrow> services d7 j \<noteq> None \<or> j = CLIENT_SERVICE \<and> executor_ready E cf ''ClientService''"
    using start_service_registers [OF s(8), of cf] f6(1) d7(1,2) by auto
  obtain d9 where d9: "p9 = p6\<lparr>cap_dispatcher := d9\<rparr>"
      "\<forall>j. services d9 j \<noteq> None \<longleftrightarrow> services d8 j \<noteq> None \<or> j = CONTROL_SERVICE \<and> executor_ready E cf ''ControlService''"
    using start_service_registers [OF s(9), of cf] f6(1) d8(1,2) by auto
  have p10: "p10 = p6\<lparr>cap_dispatcher := d9\<lparr>initialized := True\<rparr>\<rparr>"
    using init_steps_keep(5) [OF s(10)] d9(1) by simp
  obtain st where st: "p11 = p10\<lparr>raft_consensus_ptr := Some (Some st)\<rparr>"
      "RaftConsensus_start (env_log E) (env_now E) (env_rnd E) (env_to_string E) (Some (ac_raft cf)) (env_dir_ok E)
         (env_open_log E) (env_open_kv E) = Inr (Running st)"
    using f6(1) p10 by (cases rule: init_raft_result [OF s(11)]) auto
  obtain srv' where p: "p = p11\<lparr>net_server_ptr := Some (do_accept srv'), cap_initialized := True\<rparr>"
    using init_steps_keep(6) [OF s(12)] by blast
  have "is_accepting p" using p by (simp add: is_accepting_def do_accept_def)
  moreover have "services (cap_dispatcher p) = services d9" "log_init p = log_init p6" "raft_consensus_ptr p = Some (Some st)"
    using p st(1) p10 by simp_all
  ultimately show ?thesis using cf(1) st(2) f6(4) d7(3) d8(3) d9(2) by auto
qed

subsection \<open>Properties of the start\<close>

text \<open>C18: The process is started in stages: after each prefix of the steps of \<open>Captain::init\<close> exactly the components of these steps are up
  (of the services at most those of these steps, since one that cannot be set up is left out),
  and a start that fails stops in a stage before the last, in which no connection is accepted. So whenever connections are
  accepted, the node runs, the dispatcher is initialised and every component they use exists.\<close>

theorem startup_stages:
  assumes "k \<le> 12" "run_steps (take k (captain_steps E f)) Captain = Inr (ok, p)"
  shows "(ok \<longrightarrow> stage k p) \<and> (\<not> ok \<longrightarrow> (\<exists>m < 12. stage m p) \<and> \<not> is_accepting p) \<and>
    (is_accepting p \<longrightarrow> node_up p \<and> initialized (cap_dispatcher p) \<and> io_service_ptr p \<and> status_ptr p \<and> has_config p \<and> timer_ptr p)"
  using run_steps_stages [OF stage_0, of k E f ok p] assms by (auto simp: stage_def split: if_splits)

text \<open>C19: A successful start: the configuration was read, the node is the one that \<open>RaftConsensus::init\<close> makes of it, the log level is between
  1 and 7 and the log path not empty, connections are accepted, and a service is registered exactly if its executor
  got ready. A service whose threads cannot be created is left out, and the process serves without it.\<close>

theorem captain_init_serves:
  assumes "captain_init E f Captain = Inr (True, p)"
  shows "\<exists>cf st level path. env_setting E f = Some cf \<and> raft_consensus_ptr p = Some (Some st) \<and>
    RaftConsensus_start (env_log E) (env_now E) (env_rnd E) (env_to_string E) (Some (ac_raft cf)) (env_dir_ok E)
      (env_open_log E) (env_open_kv E) = Inr (Running st) \<and>
    is_accepting p \<and> log_init p = Some (level, path) \<and> 1 \<le> level \<and> level \<le> 7 \<and> path \<noteq> [] \<and>
    (\<forall>i. services (cap_dispatcher p) i \<noteq> None \<longleftrightarrow> i = RAFT_SERVICE \<and> executor_ready E cf ''RaftService'' \<or>
       i = CLIENT_SERVICE \<and> executor_ready E cf ''ClientService'' \<or> i = CONTROL_SERVICE \<and> executor_ready E cf ''ControlService'')"
proof -
  obtain cf st where r: "env_setting E f = Some cf" "raft_consensus_ptr p = Some (Some st)"
      "RaftConsensus_start (env_log E) (env_now E) (env_rnd E) (env_to_string E) (Some (ac_raft cf)) (env_dir_ok E)
         (env_open_log E) (env_open_kv E) = Inr (Running st)"
      "is_accepting p" "log_init p = Some (log_level_of cf, log_path_of cf)"
      "\<forall>i. services (cap_dispatcher p) i \<noteq> None \<longleftrightarrow> i = RAFT_SERVICE \<and> executor_ready E cf ''RaftService'' \<or>
         i = CLIENT_SERVICE \<and> executor_ready E cf ''ClientService'' \<or> i = CONTROL_SERVICE \<and> executor_ready E cf ''ControlService''"
    using captain_init_result [OF assms] by auto
  have "1 \<le> log_level_of cf" "log_level_of cf \<le> 7" "log_path_of cf \<noteq> []"
    by (simp_all add: log_level_of_def log_path_of_def Let_def)
  with r show ?thesis by (intro exI [of _ cf] exI [of _ st] exI [of _ "log_level_of cf"] exI [of _ "log_path_of cf"] conjI)
qed

text \<open>C36: A signal that arrives during the start: the handlers are installed before \<open>Captain::init\<close>, and until the
  settings exist a SIGHUP dereferences a null pointer, until the status module exists a SIGUSR1 does; later, none does.\<close>

theorem signal_during_start:
  assumes "k \<le> 12" "run_steps (take k (captain_steps E f)) Captain = Inr (True, p)"
  shows "(interrupted_callback SIGHUP p = Inl NullDeref \<longleftrightarrow> k < 2) \<and> (interrupted_callback SIGUSR1 p = Inl NullDeref \<longleftrightarrow> k < 4)"
proof -
  have st: "stage k p" using run_steps_stages [OF stage_0, of k E f True p] assms by simp
  have "setting_ptr p = None" if "k < 2"
  proof -
    have "k = 0 \<or> k = 1" using that by auto
    then show ?thesis using assms(2) by (auto simp: captain_steps_def init_timer_def Captain_def split: if_splits)
  qed
  moreover have "setting_ptr p \<noteq> None" if "2 \<le> k" using st that by (auto simp: stage_def has_config_def)
  ultimately have "setting_ptr p = None \<longleftrightarrow> k < 2" by (meson not_le)
  moreover have "status_ptr p = (3 < k)" using st by (simp add: stage_def)
  ultimately show ?thesis by (auto simp: interrupted_callback_def)
qed

text \<open>The process waits for its threads only after a complete start, and then both its signals and its graceful end find what they need.\<close>

lemma kan_main_serves:
  assumes "kan_main E prog ssl_ok daemon_ok opts = Inr p"
  shows "stage 12 p \<and> is_accepting p \<and> interrupted_callback sig p \<noteq> Inl NullDeref \<and>
    (\<exists>q. service_graceful p = Inr (True, q) \<and> \<not> is_accepting q)"
proof -
  obtain f where "captain_init E f Captain = Inr (True, p)"
    using assms by (auto simp: kan_main_def res_bind_Inr_iff split: if_splits)
  from captain_init_stages [OF this] have st: "stage 12 p" by simp
  then obtain srv where srv: "net_server_ptr p = Some srv" "timer_ptr p" "setting_ptr p \<noteq> None" "status_ptr p"
    by (auto simp: stage_def has_config_def is_accepting_def)
  then have "service_graceful p = Inr (True, p\<lparr>net_server_ptr := Some (io_service_stop_graceful srv)\<rparr>)"
    by (simp add: service_graceful_def)
  then show ?thesis
    using st srv by (cases sig) (auto simp: stage_def is_accepting_def io_service_stop_graceful_def interrupted_callback_def)
qed

subsection \<open>A start on the reference libraries\<close>

text \<open>A node of three; the group of \<open>RaftService\<close> asks for a negative number of threads, the other two services are configured properly.\<close>

definition ref_raft_setting :: raft_setting where
  "ref_raft_setting =
     \<lparr>cf_bootstrap = None, cf_server_id = Some 1, cf_storage_prefix = Some ''log'', cf_log_trans_count = None, cf_heartbeat_ms = 200,
      cf_election_timeout_ms = 1000, cf_raft_distr_timeout_ms = 5000, cf_cluster_peers = Some [(2, ''host'', 10801), (3, ''host'', 10801)]\<rparr>"

definition ref_app_config :: app_config where
  "ref_app_config =
     \<lparr>ac_log_level = Some 9, ac_log_path = None, ac_net = ref_config,
      ac_services = (\<lambda>path. Some [ref_setting (-5), (ref_setting 4)\<lparr>cfg_instance_name := Some ''ClientService''\<rparr>,
        (ref_setting 2)\<lparr>cfg_instance_name := Some ''ControlService''\<rparr>]),
      ac_raft = ref_raft_setting\<rparr>"

definition ref_env :: "(ref_db leveldb_log, (ref_db, (string \<times> string) list) leveldb_store) startup_env" where
  "ref_env =
     \<lparr>env_timer_init = True, env_setting_init = (\<lambda>f. True), env_setting = (\<lambda>f. Some ref_app_config), env_addr_ok = (\<lambda>a. True),
      env_net_threads = (\<lambda>n. True), env_bind_ok = (\<lambda>a n. True), env_io_service_init = True, env_exec_threads = (\<lambda>nm n. 0 < n),
      env_add_timer = (\<lambda>nm. True), env_junk = conf_zero, env_log = refV, env_now = 0, env_rnd = 0, env_to_string = (\<lambda>i. ''1''),
      env_dir_ok = (\<lambda>d. True), env_open_log = (\<lambda>d. Inr ref_log0), env_open_kv = (\<lambda>d. Inr ref_store0)\<rparr>"

lemma ref_load_option:
  "load_option (\<lambda>i. ''1'') ref_raft_setting = Inr ((ref_option 1)\<lparr>o_members_str := ''1>host:1,1>host:1,'', o_withhold_votes_ms := 0\<rparr>)"
  by (simp add: load_option_def ref_raft_setting_def Option_init_def ref_option_def Let_def)

lemma ref_start_node:
  "\<exists>st. RaftConsensus_start refV 0 0 (\<lambda>i. ''1'') (Some ref_raft_setting) (\<lambda>d. True) (\<lambda>d. Inr ref_log0) (\<lambda>d. Inr ref_store0) =
     Inr (Running st)"
proof -
  let ?o = "(ref_option 1)\<lparr>o_members_str := ''1>host:1,1>host:1,''\<rparr>"
  have o: "o_withhold_votes_ms_update (\<lambda>_. 1000) ?o = ?o" "o_election_timeout_ms ?o = 1000" "\<not> o_bootstrap ?o" "o_id ?o = 1" "validate ?o"
    by (simp_all add: ref_option_def validate_def)
  then have "\<exists>st. RaftConsensus_init refV 0 0 (?o\<lparr>o_withhold_votes_ms := 0\<rparr>) ref_log0 ref_store0 = Inr (Running st)"
    by (simp add: RaftConsensus_init_def Let_def ref_load StateMachine_init_def ref_meta_indices become_follower_def del: LevelDBLog_sel)
  with o show ?thesis by (simp add: RaftConsensus_start_def ref_load_option Let_def)
qed

lemmas start_defs = init_timer_def init_setting_def init_log_def init_status_def init_net_server_def init_io_service_def start_service_def
  init_dispatcher_def init_raft_def init_serve_def get_setting_def

lemma ref_net_init: "\<exists>c. NetServer_init ref_config (\<lambda>a. True) (\<lambda>n. True) NetServer = Inr (True, NetServer\<lparr>conf := c\<rparr>)"
  by (simp add: NetServer_init_def load_conf_def conf_seq_def load_step_defs ref_config_def NetServer_def NetConf_def or_else_def Let_def)

lemma ref_service_init:
  "RaftService_init conf_zero (Some (ac_services ref_app_config)) \<lparr>svc_name = ''RaftService'', conf_ptr = None\<rparr> =
     (True, \<lparr>svc_name = ''RaftService'', conf_ptr = Some conf_zero\<rparr>)"
  "RaftService_init conf_zero (Some (ac_services ref_app_config)) \<lparr>svc_name = ''ClientService'', conf_ptr = None\<rparr> =
     (True, \<lparr>svc_name = ''ClientService'', conf_ptr = Some \<lparr>exec_thread_number = 4, exec_thread_number_hard = 4, exec_thread_step_size = 10\<rparr>\<rparr>)"
  "RaftService_init conf_zero (Some (ac_services ref_app_config)) \<lparr>svc_name = ''ControlService'', conf_ptr = None\<rparr> =
     (True, \<lparr>svc_name = ''ControlService'', conf_ptr = Some \<lparr>exec_thread_number = 2, exec_thread_number_hard = 2, exec_thread_step_size = 10\<rparr>\<rparr>)"
  by (simp_all add: RaftService_init_def ref_app_config_def ref_setting_def RaftService_handle_rpc_service_conf_def
      base_handle_rpc_service_conf_def lookup_int_def Let_def conf_zero_def bool_of_def)

lemma ref_ready:
  "\<not> executor_ready ref_env ref_app_config ''RaftService''" "executor_ready ref_env ref_app_config ''ClientService''"
  by (simp_all add: executor_ready_def ref_env_def ref_service_init Executor_init_def get_executor_conf_def)
    (simp add: conf_zero_def)

lemma ref_captain: "\<exists>p. captain_init ref_env ''kan.conf'' Captain = Inr (True, p)"
proof -
  obtain st where st: "RaftConsensus_start refV 0 0 (\<lambda>i. ''1'') (Some ref_raft_setting) (\<lambda>d. True) (\<lambda>d. Inr ref_log0)
      (\<lambda>d. Inr ref_store0) = Inr (Running st)" using ref_start_node by blast
  obtain c where c: "NetServer_init ref_config (\<lambda>a. True) (\<lambda>n. True) NetServer = Inr (True, NetServer\<lparr>conf := c\<rparr>)"
    using ref_net_init by blast
  have cf: "ac_net ref_app_config = ref_config" "ac_raft ref_app_config = ref_raft_setting" by (simp_all add: ref_app_config_def)
  show ?thesis
    by (simp add: captain_init_def Captain_def captain_steps_def start_defs ref_env_def cf c st ref_service_init ClientService_init_def
        ControlService_init_def Dispatcher_register_service_def Dispatcher_def Executor_init_def get_executor_conf_def register_service_def
        Dispatcher_init_def NetServer_service_def Let_def)
qed

theorem captain_init_serves_witness:
  "\<exists>p. captain_init ref_env ''kan.conf'' Captain = Inr (True, p) \<and> is_accepting p \<and> services (cap_dispatcher p) RAFT_SERVICE = None \<and>
     services (cap_dispatcher p) CLIENT_SERVICE \<noteq> None"
proof -
  obtain p where p: "captain_init ref_env ''kan.conf'' Captain = Inr (True, p)" using ref_captain by blast
  have "env_setting ref_env ''kan.conf'' = Some ref_app_config" by (simp add: ref_env_def)
  moreover have "RAFT_SERVICE \<noteq> CLIENT_SERVICE" "RAFT_SERVICE \<noteq> CONTROL_SERVICE"
    by (simp_all add: RAFT_SERVICE_def CLIENT_SERVICE_def CONTROL_SERVICE_def)
  ultimately show ?thesis using captain_init_serves [OF p] p ref_ready by auto
qed

theorem startup_stages_witness:
  "\<exists>p. run_steps (take 12 (captain_steps ref_env ''kan.conf'')) Captain = Inr (True, p) \<and> stage 12 p"
proof -
  have "take 12 (captain_steps ref_env ''kan.conf'') = captain_steps ref_env ''kan.conf''" by (simp add: captain_steps_def)
  then obtain p where p: "run_steps (take 12 (captain_steps ref_env ''kan.conf'')) Captain = Inr (True, p)"
    using ref_captain by (auto simp: captain_init_def Captain_def)
  with startup_stages [OF _ p] show ?thesis by auto
qed

theorem signal_during_start_witness:
  "\<exists>p. run_steps (take 1 (captain_steps ref_env ''kan.conf'')) Captain = Inr (True, p) \<and> interrupted_callback SIGHUP p = Inl NullDeref"
proof -
  obtain p where p: "run_steps (take 1 (captain_steps ref_env ''kan.conf'')) Captain = Inr (True, p)"
    by (simp add: captain_steps_def init_timer_def ref_env_def)
  with signal_during_start [OF _ p] show ?thesis by auto
qed

end
