(* ===== verification/Runtime_Props.thy ===== *)
theory Runtime_Props
  imports Server_Props
begin

text \<open>
  The update of the configuration of the services at run time (\<^verbatim>\<open>Dispatcher::module_runtime\<close>), which a SIGHUP starts.
\<close>

text \<open>What the update does to one executor.\<close>

definition runtime_update :: "executor_conf \<Rightarrow> config \<Rightarrow> (service \<times> executor_conf) executor \<Rightarrow> int \<times> (service \<times> executor_conf) executor" where
  "runtime_update junk c ex =
     (let (ret, svc) = RaftService_module_runtime junk c (fst (service_impl ex))
      in (ret, ex\<lparr>service_impl := (svc, if ret = 0 then the (conf_ptr svc) else snd (service_impl ex))\<rparr>))"

lemma runtime_conf_set:
  "RaftService_handle_rpc_service_runtime_conf junk s svc = (False, svc') \<Longrightarrow> conf_ptr svc' \<noteq> None"
  by (auto simp: RaftService_handle_rpc_service_runtime_conf_def bool_of_def split: if_splits prod.splits)

lemma runtime_loop_set: "RaftService_runtime_loop junk ss svc = (0, svc') \<Longrightarrow> conf_ptr svc' \<noteq> None"
  by (induction ss) (auto simp: int_of_bool_def split: if_splits prod.splits dest: runtime_conf_set)

lemma module_runtime_set: "RaftService_module_runtime junk c svc = (0, svc') \<Longrightarrow> conf_ptr svc' \<noteq> None"
  by (auto simp: RaftService_module_runtime_def split: option.splits dest: runtime_loop_set)

lemma Executor_module_runtime_eq:
  "Executor_module_runtime junk c (service_impl ex) =
     Inr (fst (runtime_update junk c ex), service_impl (snd (runtime_update junk c ex)))"
  using module_runtime_set [of junk c "fst (service_impl ex)"]
  by (auto simp: Executor_module_runtime_def runtime_update_def get_executor_conf_def split: prod.splits)

lemma runtime_update_impl:
  "ex\<lparr>service_impl := service_impl (snd (runtime_update junk c ex))\<rparr> = snd (runtime_update junk c ex)"
  by (simp add: runtime_update_def split: prod.splits)

lemma runtime_loop_eq:
  assumes "distinct is" "set is \<subseteq> dom (services d)"
  shows "runtime_loop junk c is d = Inr (\<Sum>i\<leftarrow>is. fst (runtime_update junk c (the (services d i))),
    d\<lparr>services := \<lambda>i. if i \<in> set is then map_option (snd \<circ> runtime_update junk c) (services d i) else services d i\<rparr>)"
  using assms
proof (induction "is" arbitrary: d)
  case Nil
  then show ?case by simp
next
  case (Cons i "is")
  then obtain ex where ex: "services d i = Some ex" by auto
  let ?ex = "snd (runtime_update junk c ex)"
  let ?d = "d\<lparr>services := (services d)(i \<mapsto> ?ex)\<rparr>"
  have IH: "runtime_loop junk c is ?d = Inr (\<Sum>j\<leftarrow>is. fst (runtime_update junk c (the (services ?d j))),
    ?d\<lparr>services := \<lambda>j. if j \<in> set is then map_option (snd \<circ> runtime_update junk c) (services ?d j) else services ?d j\<rparr>)"
    using Cons.prems by (intro Cons.IH) auto
  have S: "map (\<lambda>j. fst (runtime_update junk c (the (services ?d j)))) is = map (\<lambda>j. fst (runtime_update junk c (the (services d j)))) is"
    using Cons.prems by (intro map_cong) auto
  have F: "(\<lambda>j. if j \<in> set is then map_option (snd \<circ> runtime_update junk c) (services ?d j) else services ?d j) =
      (\<lambda>j. if j \<in> set (i # is) then map_option (snd \<circ> runtime_update junk c) (services d j) else services d j)"
    using Cons.prems ex by (auto simp: fun_eq_iff)
  have "runtime_loop junk c is ?d = Inr (\<Sum>j\<leftarrow>is. fst (runtime_update junk c (the (services d j))),
      d\<lparr>services := \<lambda>j. if j \<in> set (i # is) then map_option (snd \<circ> runtime_update junk c) (services d j) else services d j\<rparr>)"
    using IH unfolding S F by simp
  then show ?case by (simp add: ex Executor_module_runtime_eq runtime_update_impl split_beta)
qed

text \<open>The update of the configuration at run time: it never faults, each executor takes its new configuration exactly if its service
  reports 0, and the result is the sum of the reported codes.\<close>

theorem dispatcher_runtime_update:
  assumes "finite (dom (services d))"
  shows "Dispatcher_module_runtime junk c d =
    Inr (\<Sum>i \<in> dom (services d). fst (runtime_update junk c (the (services d i))),
      d\<lparr>services := map_option (snd \<circ> runtime_update junk c) \<circ> services d\<rparr>)"
proof -
  have "(\<lambda>i. if i \<in> dom (services d) then map_option (snd \<circ> runtime_update junk c) (services d i) else services d i) =
      map_option (snd \<circ> runtime_update junk c) \<circ> services d"
    by (auto simp: fun_eq_iff domIff)
  then show ?thesis
    using runtime_loop_eq [of "sorted_list_of_set (dom (services d))" d junk c] assms
    by (simp add: Dispatcher_module_runtime_def sum_list_distinct_conv_sum_set del: o_apply)
qed

text \<open>Two failures can add up to 0: a service with an invalid group reports 1, one without a group reports -1, and the update
  of both, which changed neither, counts as a success.\<close>

definition ref_services :: service_dispatcher where
  "ref_services = \<lparr>initialized = True, services = [RAFT_SERVICE \<mapsto>
      \<lparr>service_impl = (\<lparr>svc_name = ''RaftService'', conf_ptr = Some conf_zero\<rparr>, conf_zero), rpc_queue = []\<rparr>, CLIENT_SERVICE \<mapsto>
      \<lparr>service_impl = (\<lparr>svc_name = ''ClientService'', conf_ptr = Some conf_zero\<rparr>, conf_zero), rpc_queue = []\<rparr>]\<rparr>"

theorem dispatcher_runtime_update_witness:
  "Dispatcher_module_runtime conf_zero (\<lambda>path. Some [ref_setting (-5)]) ref_services = Inr (0, ref_services)"
proof -
  have dm: "dom (services ref_services) = {RAFT_SERVICE, CLIENT_SERVICE}" by (auto simp: ref_services_def)
  have ne: "RAFT_SERVICE \<noteq> CLIENT_SERVICE" by (simp add: RAFT_SERVICE_def CLIENT_SERVICE_def)
  have u: "runtime_update conf_zero (\<lambda>path. Some [ref_setting (-5)]) (the (services ref_services RAFT_SERVICE)) =
        (1, the (services ref_services RAFT_SERVICE))"
      "runtime_update conf_zero (\<lambda>path. Some [ref_setting (-5)]) (the (services ref_services CLIENT_SERVICE)) =
        (-1, the (services ref_services CLIENT_SERVICE))"
    using ne by (simp_all add: runtime_update_def RaftService_module_runtime_def ref_services_def ref_setting_def
        RaftService_handle_rpc_service_runtime_conf_def base_handle_rpc_service_conf_def lookup_int_def Let_def bool_of_def int_of_bool_def)
  have "map_option (snd \<circ> runtime_update conf_zero (\<lambda>path. Some [ref_setting (-5)])) \<circ> services ref_services = services ref_services"
    using u ne by (auto simp: fun_eq_iff ref_services_def split: if_splits)
  with dispatcher_runtime_update [of ref_services conf_zero "\<lambda>path. Some [ref_setting (-5)]"] dm u ne show ?thesis by simp
qed

end
