(* ===== verification/Client_Setup.thy ===== *)
theory Client_Setup
  imports Client_Conn
begin

text \<open>
  Construction of an RPC client (\<^verbatim>\<open>src/source/Client/RpcClient.cpp\<close>): its four constructors, the three \<open>init\<close> functions behind them, and
  \<open>RpcClientImpl::init\<close>. A group of a configuration file is what \<^verbatim>\<open>lookupValue\<close> gives for each name; a value that is not there
  leaves the setting as it was.
\<close>

record client_config =
  cc_string :: "string \<Rightarrow> string option"
  cc_u32 :: "string \<Rightarrow> u32 option"

datatype config_file = FileIOException | ParseException | OtherException | ClientGroup client_config

text \<open>The implementation object keeps a copy of the settings.\<close>

record rpc_client =
  rc_initialized :: bool
  rc_setting :: client_setting
  rc_impl :: "(client_impl \<times> client_setting) option"

definition RpcClient :: rpc_client where
  "RpcClient = \<lparr>rc_initialized = False, rc_setting = RpcClientSetting, rc_impl = None\<rparr>"

text \<open>\<open>io_ok\<close> is whether a new I/O service can be created and started.\<close>

definition RpcClientImpl_init :: "bool \<Rightarrow> client_setting \<Rightarrow> bool \<times> client_setting" where
  "RpcClientImpl_init io_ok cs =
     (if has_io_service cs then (True, cs) else if \<not> io_ok then (False, cs) else (True, cs\<lparr>has_io_service := True\<rparr>))"

definition RpcClient_init :: "bool \<Rightarrow> string \<Rightarrow> u16 \<Rightarrow> rpc_client \<Rightarrow> bool \<times> rpc_client" where
  "RpcClient_init io_ok addr port rc =
     (if rc_initialized rc then (True, rc)
      else
        let cs = (rc_setting rc)\<lparr>serv_addr := addr, serv_port := ucast port\<rparr>;
            (ok, impl_cs) = RpcClientImpl_init io_ok cs;
            rc1 = rc\<lparr>rc_setting := cs, rc_impl := Some (RpcClientImpl, impl_cs)\<rparr>
        in if \<not> ok then (False, rc1) else (True, rc1\<lparr>rc_initialized := True\<rparr>))"

text \<open>Each optional setting is stored before it is tested; the sizes are unsigned, so that their test never fails.\<close>

definition load_u32 :: "client_config \<Rightarrow> string \<Rightarrow> (u32 \<Rightarrow> client_setting \<Rightarrow> client_setting) \<Rightarrow> client_setting \<Rightarrow> client_setting" where
  "load_u32 s name store cs = (case cc_u32 s name of None \<Rightarrow> cs | Some v \<Rightarrow> store v cs)"

definition RpcClient_init_setting :: "bool \<Rightarrow> client_config \<Rightarrow> rpc_client \<Rightarrow> bool \<times> rpc_client" where
  "RpcClient_init_setting io_ok s rc =
     (case cc_string s ''serv_addr'' of None \<Rightarrow> (False, rc)
      | Some addr \<Rightarrow>
          let cs1 = (rc_setting rc)\<lparr>serv_addr := addr\<rparr> in
          case cc_u32 s ''serv_port'' of None \<Rightarrow> (False, rc\<lparr>rc_setting := cs1\<rparr>)
          | Some port \<Rightarrow>
              let cs2 = cs1\<lparr>serv_port := port\<rparr> in
              if serv_addr cs2 = [] \<or> serv_port cs2 \<le> 0 then (False, rc\<lparr>rc_setting := cs2\<rparr>)
              else
                let cs3 = load_u32 s ''send_max_msg_size'' (\<lambda>v cs. cs\<lparr>cs_send_max_msg_size := v\<rparr>) cs2 in
                if cc_u32 s ''send_max_msg_size'' \<noteq> None \<and> cs_send_max_msg_size cs3 < 0 then (False, rc\<lparr>rc_setting := cs3\<rparr>)
                else
                  let cs4 = load_u32 s ''recv_max_msg_size'' (\<lambda>v cs. cs\<lparr>cs_recv_max_msg_size := v\<rparr>) cs3 in
                  if cc_u32 s ''recv_max_msg_size'' \<noteq> None \<and> cs_recv_max_msg_size cs4 < 0 then (False, rc\<lparr>rc_setting := cs4\<rparr>)
                  else
                    let cs5 = load_u32 s ''log_level'' (\<lambda>v cs. cs\<lparr>log_level := v\<rparr>) cs4 in
                    if cc_u32 s ''log_level'' \<noteq> None \<and> log_level cs5 > 7 then (False, rc\<lparr>rc_setting := cs5\<rparr>)
                    else RpcClient_init io_ok (serv_addr cs5) (ucast (serv_port cs5)) (rc\<lparr>rc_setting := cs5\<rparr>))"

definition RpcClient_init_file :: "bool \<Rightarrow> (string \<Rightarrow> config_file) \<Rightarrow> string \<Rightarrow> rpc_client \<Rightarrow> bool \<times> rpc_client" where
  "RpcClient_init_file io_ok readFile cfgFile rc =
     (case readFile cfgFile of
        ClientGroup s \<Rightarrow> RpcClient_init_setting io_ok s rc
      | FileIOException \<Rightarrow> (False, rc) | ParseException \<Rightarrow> (False, rc) | OtherException \<Rightarrow> (False, rc))"

text \<open>The constructors throw when \<open>init\<close> fails.\<close>

definition constructed :: "bool \<times> rpc_client \<Rightarrow> rpc_client res" where
  "constructed r = (if fst r then Inr (snd r) else Inl ConstructException)"

definition with_handler :: "bool \<Rightarrow> rpc_client" where
  "with_handler handler = RpcClient\<lparr>rc_setting := RpcClientSetting\<lparr>has_handler := handler\<rparr>\<rparr>"

definition RpcClient_addr :: "bool \<Rightarrow> string \<Rightarrow> u16 \<Rightarrow> bool \<Rightarrow> rpc_client res" where
  "RpcClient_addr io_ok addr port handler = constructed (RpcClient_init io_ok addr port (with_handler handler))"

definition RpcClient_file :: "bool \<Rightarrow> (string \<Rightarrow> config_file) \<Rightarrow> string \<Rightarrow> bool \<Rightarrow> rpc_client res" where
  "RpcClient_file io_ok readFile cfgFile handler = constructed (RpcClient_init_file io_ok readFile cfgFile (with_handler handler))"

definition RpcClient_group :: "bool \<Rightarrow> client_config \<Rightarrow> bool \<Rightarrow> rpc_client res" where
  "RpcClient_group io_ok s handler = constructed (RpcClient_init_setting io_ok s (with_handler handler))"

definition RpcClient_setting :: "bool \<Rightarrow> client_setting \<Rightarrow> rpc_client res" where
  "RpcClient_setting io_ok setting =
     constructed (RpcClient_init io_ok (serv_addr setting) (ucast (serv_port setting)) (RpcClient\<lparr>rc_setting := setting\<rparr>))"

text \<open>A call on a client object.\<close>

definition client_call ::
    "sync_world \<Rightarrow> u16 \<Rightarrow> u16 \<Rightarrow> string \<Rightarrow> rpc_client \<Rightarrow> (rpc_client_status \<times> string option) \<times> rpc_client" where
  "client_call w service_id opcode payload rc =
     (case rc_impl rc of None \<Rightarrow> ((NETWORK_BEFORE_ERROR, None), rc)
      | Some (im, cs) \<Rightarrow>
          let (r, im') = RpcClient_call_RPC (rc_initialized rc) w service_id opcode payload 0 im
          in (r, rc\<lparr>rc_impl := Some (im', cs)\<rparr>))"

text \<open>The two clients of a peer, for calls on behalf of a client and for Raft messages, share the I/O service of the process; without it the pointer
  to it is null.\<close>

definition Peer_clients :: "bool \<Rightarrow> string \<Rightarrow> u16 \<Rightarrow> (rpc_client \<times> rpc_client) res" where
  "Peer_clients io_service_ptr addr port =
     (if \<not> io_service_ptr then Inl NullDeref
      else
        let setting = RpcClientSetting\<lparr>serv_addr := addr, serv_port := ucast port, has_io_service := True\<rparr> in
        res_bind (RpcClient_setting False setting) (\<lambda>rpc_proxy.
        res_bind (RpcClient_setting False (setting\<lparr>has_handler := True\<rparr>)) (\<lambda>rpc_client.
          Inr (rpc_proxy, rpc_client))))"

subsection \<open>Constructed clients\<close>

lemma ucast_ucast_port: "ucast (ucast (x :: u16) :: u32) = x"
  by (rule bit_word_eqI) (auto simp: bit_simps)

lemma RpcClient_init_new:
  assumes "\<not> rc_initialized rc" "RpcClient_init io_ok addr port rc = (ok, rc')"
  shows "(ok \<longleftrightarrow> has_io_service (rc_setting rc) \<or> io_ok) \<and> rc_initialized rc' = ok \<and>
    rc_setting rc' = (rc_setting rc)\<lparr>serv_addr := addr, serv_port := ucast port\<rparr> \<and>
    (\<exists>cs. rc_impl rc' = Some (RpcClientImpl, cs) \<and> (ok \<longrightarrow> cs = (rc_setting rc')\<lparr>has_io_service := True\<rparr>))"
  using assms by (auto simp: RpcClient_init_def RpcClientImpl_init_def Let_def split: if_splits)

lemma client_call_new:
  assumes "RpcClient_addr io_ok addr port handler = Inr rc"
  shows "client_call w sid op payload rc =
    (let (r, im') = call_RPC w sid op payload 0 RpcClientImpl in (r, rc\<lparr>rc_impl := Some (im', snd (the (rc_impl rc)))\<rparr>))"
proof -
  obtain ok rc' where r: "RpcClient_init io_ok addr port (with_handler handler) = (ok, rc')" by (metis surj_pair)
  have "\<not> rc_initialized (with_handler handler)" by (simp add: with_handler_def RpcClient_def)
  from RpcClient_init_new [OF this r] assms r show ?thesis
    by (auto simp: RpcClient_addr_def constructed_def client_call_def RpcClient_call_RPC_def split: if_splits prod.splits)
qed

text \<open>The clients of a peer are always ready once the process has its I/O service, and only the one for Raft messages can be called
  asynchronously.\<close>

lemma Peer_clients_ready:
  "\<exists>p c. Peer_clients True addr port = Inr (p, c) \<and> rc_initialized p \<and> rc_initialized c \<and> \<not> has_handler (rc_setting p) \<and>
     has_handler (rc_setting c) \<and> serv_addr (rc_setting c) = addr \<and> serv_port (rc_setting c) = ucast port"
proof -
  have "ucast (ucast port :: u32) = port" by (simp add: ucast_ucast_port)
  then show ?thesis
    by (simp add: Peer_clients_def RpcClient_setting_def constructed_def RpcClient_init_def RpcClientImpl_init_def RpcClient_def
        RpcClientSetting_def Let_def)
qed

text \<open>A configuration group that makes a client, and the settings of this client.\<close>

definition group_ok :: "client_config \<Rightarrow> bool" where
  "group_ok s \<longleftrightarrow> (case cc_string s ''serv_addr'' of None \<Rightarrow> False | Some addr \<Rightarrow> addr \<noteq> []) \<and>
     (case cc_u32 s ''serv_port'' of None \<Rightarrow> False | Some port \<Rightarrow> port \<noteq> 0) \<and>
     (case cc_u32 s ''log_level'' of None \<Rightarrow> True | Some v \<Rightarrow> v \<le> 7)"

definition or_default :: "'a \<Rightarrow> 'a option \<Rightarrow> 'a" where
  "or_default d v = (case v of None \<Rightarrow> d | Some x \<Rightarrow> x)"

definition group_setting :: "client_config \<Rightarrow> bool \<Rightarrow> client_setting" where
  "group_setting s handler =
     \<lparr>serv_addr = or_default [] (cc_string s ''serv_addr''),
      serv_port = of_nat (unat (or_default 0 (cc_u32 s ''serv_port'')) mod 65536),
      cs_send_max_msg_size = or_default 0 (cc_u32 s ''send_max_msg_size''),
      cs_recv_max_msg_size = or_default 0 (cc_u32 s ''recv_max_msg_size''),
      log_level = or_default 7 (cc_u32 s ''log_level''), has_handler = handler, has_io_service = False\<rparr>"

lemma ucast_port: "ucast (ucast (x :: u32) :: u16) = (of_nat (unat x mod 65536) :: u32)"
  by (rule word_unat_eq_iff [THEN iffD2]) (simp add: unsigned_ucast_eq take_bit_eq_mod unat_of_nat unat_mod_distrib)

lemmas group_unfold = RpcClient_group_def constructed_def RpcClient_init_setting_def load_u32_def RpcClient_init_def RpcClientImpl_init_def
  with_handler_def RpcClient_def RpcClientSetting_def group_ok_def group_setting_def or_default_def Let_def

text \<open>C33: A client made from a configuration group: it is constructed exactly if the group has an address that is not empty, a port other than
  0 and no log level above 7, and an I/O service can be started; otherwise the constructor throws. It then is initialised,
  with the configured address, sizes and log level, but with the port reduced to 16 bits, so that a port above 65535 is accepted
  and another one is used.\<close>

theorem client_from_group:
  "RpcClient_group io_ok s handler =
     (if io_ok \<and> group_ok s
      then Inr \<lparr>rc_initialized = True, rc_setting = group_setting s handler,
                rc_impl = Some (RpcClientImpl, (group_setting s handler)\<lparr>has_io_service := True\<rparr>)\<rparr>
      else Inl ConstructException)"
proof (cases "cc_string s ''serv_addr''"; cases "cc_u32 s ''serv_port''")
  fix addr port
  assume ap: "cc_string s ''serv_addr'' = Some addr" "cc_u32 s ''serv_port'' = Some port"
  show ?thesis
    by (cases "cc_u32 s ''send_max_msg_size''"; cases "cc_u32 s ''recv_max_msg_size''"; cases "cc_u32 s ''log_level''")
      (simp_all add: ap group_unfold ucast_port not_le)
qed (simp_all add: group_unfold)

end
