(* ===== verification/Client_Tools.thy ===== *)
theory Client_Tools
  imports Client_Setup
begin

text \<open>
  The command line tools (\<^verbatim>\<open>src/tools/clientOps.cpp\<close>, \<^verbatim>\<open>controlOps.cpp\<close>, \<^verbatim>\<open>clientPerf.cpp\<close>). A program is a function from its arguments
  (\<open>argv\<close>, with the name of the program first) to its exit code and what it prints on standard output. Their side of the generated messages is a parameter, like that of
  the server.
\<close>

record tool_proto =
  marshal_select_request :: "select_request \<Rightarrow> string option"
  unmarshal_select_response :: "string \<Rightarrow> select_response option"
  marshal_update_request :: "update_request \<Rightarrow> string option"
  unmarshal_update_response :: "string \<Rightarrow> update_response option"
  marshal_snapshot_ops :: "string \<Rightarrow> string option"
  unmarshal_snapshot_ops :: "string \<Rightarrow> (int \<times> string option) option"
  marshal_stat_ops :: "string \<Rightarrow> string option"
  unmarshal_stat_ops :: "string \<Rightarrow> (int \<times> string option) option"

type_synonym outcome = "int \<times> string"

definition failed :: outcome where
  "failed = (-1, [])"

text \<open>\<open>usage\<close> prints its text and ends the process; a pointer past the last argument is null, and a string cannot be made of it.\<close>

definition usage :: "'a res" where
  "usage = Inl (Exit True)"

definition arg_string :: "string list \<Rightarrow> nat \<Rightarrow> string res" where
  "arg_string argv i = (if i < length argv then Inr (argv ! i) else Inl Uncaught)"

text \<open>\<^verbatim>\<open>::strncmp(arg, word, n) == 0\<close> for a word of length \<open>n\<close>.\<close>

definition starts_with :: "string \<Rightarrow> string \<Rightarrow> bool" where
  "starts_with arg word \<longleftrightarrow> take (length word) arg = word"

text \<open>The part that every command repeats: the call, the parse of the response and the test of its code. A required field is always there
  after a parse.\<close>

definition tool_call ::
    "sync_world \<Rightarrow> rpc_client \<Rightarrow> u16 \<Rightarrow> u16 \<Rightarrow> string option \<Rightarrow> (string \<Rightarrow> 'r option) \<Rightarrow> ('r \<Rightarrow> int) \<Rightarrow> ('r \<Rightarrow> string) \<Rightarrow> outcome" where
  "tool_call w client service_id opcode mar_str unmarshal code show_it =
     (case mar_str of None \<Rightarrow> failed
      | Some mar \<Rightarrow>
          let ((status, resp_str), client') = client_call w service_id opcode mar client in
          if status \<noteq> client_OK then failed
          else case unmarshal (or_default [] resp_str) of None \<Rightarrow> failed
            | Some response \<Rightarrow> if code response \<noteq> 0 then failed else (0, show_it response))"

subsection \<open>clientOps\<close>

definition srv_addr :: string where
  "srv_addr = ''127.0.0.1''"

definition srv_port :: u16 where
  "srv_port = 10802"

definition ops_get :: "tool_proto \<Rightarrow> sync_world \<Rightarrow> rpc_client \<Rightarrow> string \<Rightarrow> outcome" where
  "ops_get T w client key =
     tool_call w client CLIENT_SERVICE kSelect (marshal_select_request T \<lparr>sq_read = Some key, sq_range = None, sq_search = None\<rparr>)
       (unmarshal_select_response T) sr_code (\<lambda>r. ''read return ok with content:'' @ or_default [] (sr_read r))"

definition ops_set :: "tool_proto \<Rightarrow> sync_world \<Rightarrow> rpc_client \<Rightarrow> string \<Rightarrow> string \<Rightarrow> outcome" where
  "ops_set T w client key val =
     tool_call w client CLIENT_SERVICE kUpdate (marshal_update_request T \<lparr>uq_write = Some (key, val), uq_remove = None\<rparr>)
       (unmarshal_update_response T) ur_code (\<lambda>r. ''write return ok with context:'' @ or_default [] (ur_context r))"

definition ops_del :: "tool_proto \<Rightarrow> sync_world \<Rightarrow> rpc_client \<Rightarrow> string \<Rightarrow> outcome" where
  "ops_del T w client key =
     tool_call w client CLIENT_SERVICE kUpdate (marshal_update_request T \<lparr>uq_write = None, uq_remove = Some key\<rparr>)
       (unmarshal_update_response T) ur_code (\<lambda>r. ''delete return ok with context: '' @ or_default [] (ur_context r))"

definition show_keys :: "string list \<Rightarrow> string" where
  "show_keys ks = ''GOOD, return: '' @ to_string (length ks) @ concat (map (\<lambda>k. CHR 0x0a # '' : '' @ k) ks)"

definition ops_keys :: "tool_proto \<Rightarrow> sync_world \<Rightarrow> rpc_client \<Rightarrow> outcome" where
  "ops_keys T w client =
     tool_call w client CLIENT_SERVICE kSelect (marshal_select_request T \<lparr>sq_read = None, sq_range = Some ([], [], 0), sq_search = None\<rparr>)
       (unmarshal_select_response T) sr_code (\<lambda>r. show_keys (or_default [] (sr_range r)))"

definition clientOps :: "tool_proto \<Rightarrow> bool \<Rightarrow> sync_world \<Rightarrow> string list \<Rightarrow> outcome res" where
  "clientOps T io_ok w argv =
     (if length argv < 2 then usage
      else res_bind (RpcClient_addr io_ok srv_addr srv_port False) (\<lambda>client.
        if starts_with (argv ! 1) ''get'' then res_bind (arg_string argv 2) (\<lambda>key. Inr (ops_get T w client key))
        else if starts_with (argv ! 1) ''set''
        then if length argv < 4 then usage else Inr (ops_set T w client (argv ! 2) (argv ! 3))
        else if starts_with (argv ! 1) ''del''
        then if length argv < 3 then usage else Inr (ops_del T w client (argv ! 2))
        else if starts_with (argv ! 1) ''keys'' then Inr (ops_keys T w client)
        else usage))"

subsection \<open>controlOps\<close>

text \<open>\<^verbatim>\<open>::atoi\<close>: leading white space, a sign, digits up to the first other character.\<close>

definition white :: "char \<Rightarrow> bool" where
  "white c \<longleftrightarrow> c = CHR '' '' \<or> 9 \<le> (of_char c :: nat) \<and> (of_char c :: nat) \<le> 13"

definition is_digit :: "char \<Rightarrow> bool" where
  "is_digit c \<longleftrightarrow> 48 \<le> (of_char c :: nat) \<and> (of_char c :: nat) \<le> 57"

definition digits_value :: "string \<Rightarrow> int" where
  "digits_value s = foldl (\<lambda>v c. 10 * v + (of_char c - 48)) 0 (takeWhile is_digit s)"

definition atoi :: "string \<Rightarrow> int" where
  "atoi s =
     (case dropWhile white s of [] \<Rightarrow> 0
      | c # r \<Rightarrow> if c = CHR ''-'' then - digits_value r else if c = CHR ''+'' then digits_value r else digits_value (c # r))"

definition control_snapshot :: "tool_proto \<Rightarrow> sync_world \<Rightarrow> rpc_client \<Rightarrow> outcome" where
  "control_snapshot T w client =
     tool_call w client CONTROL_SERVICE kSnapshot (marshal_snapshot_ops T ''sp'') (unmarshal_snapshot_ops T) fst
       (\<lambda>r. ''GOOD, return hint: '' @ or_default [] (snd r))"

definition control_stat :: "tool_proto \<Rightarrow> sync_world \<Rightarrow> rpc_client \<Rightarrow> outcome" where
  "control_stat T w client =
     tool_call w client CONTROL_SERVICE kStat (marshal_stat_ops T ''st'') (unmarshal_stat_ops T) fst
       (\<lambda>r. ''stat return ok with hint: '' @ or_default [] (snd r))"

definition controlOps :: "tool_proto \<Rightarrow> bool \<Rightarrow> (string \<Rightarrow> u16 \<Rightarrow> sync_world) \<Rightarrow> string list \<Rightarrow> outcome res" where
  "controlOps T io_ok w argv =
     (if length argv < 3 then usage
      else
        let port = word_of_int (atoi (argv ! 2));
            addr = (if length argv \<ge> 4 then argv ! 3 else ''127.0.0.1'')
        in res_bind (RpcClient_addr io_ok addr port False) (\<lambda>client.
          if starts_with (argv ! 1) ''snapshot'' then Inr (control_snapshot T (w addr port) client)
          else if starts_with (argv ! 1) ''stat'' then Inr (control_stat T (w addr port) client)
          else usage))"

subsection \<open>clientPerf\<close>

text \<open>The command line: whether the threads read, and their number. The vector of threads cannot have a negative size.\<close>

definition perf_command :: "string list \<Rightarrow> (bool \<times> int) res" where
  "perf_command argv =
     (if length argv < 3 then usage
      else if \<not> starts_with (argv ! 1) ''get'' \<and> \<not> starts_with (argv ! 1) ''set'' then usage
      else if atoi (argv ! 2) < 0 then Inl Uncaught
      else Inr (argv ! 1 = ''get'', atoi (argv ! 2)))"

text \<open>The flag and the counter that the threads share, and one turn of the loop of a thread: the loop ends when the flag is set.\<close>

record perf =
  perf_stop :: bool
  perf_count :: u64

definition perf_key :: string where
  "perf_key = ''perf_test_key''"

definition perf_turn :: "outcome \<Rightarrow> perf \<Rightarrow> perf" where
  "perf_turn r s =
     (if perf_stop s then s else if fst r \<noteq> 0 then s\<lparr>perf_stop := True\<rparr> else s\<lparr>perf_count := perf_count s + 1\<rparr>)"

definition perf_get_run :: "tool_proto \<Rightarrow> sync_world \<Rightarrow> rpc_client \<Rightarrow> perf \<Rightarrow> perf" where
  "perf_get_run T w client =
     perf_turn (tool_call w client CLIENT_SERVICE kSelect
       (marshal_select_request T \<lparr>sq_read = Some perf_key, sq_range = None, sq_search = None\<rparr>)
       (unmarshal_select_response T) sr_code (\<lambda>r. []))"

definition generate_random_str :: "nat \<Rightarrow> string" where
  "generate_random_str random = ''message with random ['' @ to_string random @ ''] include''"

definition perf_set_run :: "tool_proto \<Rightarrow> sync_world \<Rightarrow> rpc_client \<Rightarrow> nat \<Rightarrow> perf \<Rightarrow> perf" where
  "perf_set_run T w client random =
     perf_turn (tool_call w client CLIENT_SERVICE kUpdate
       (marshal_update_request T \<lparr>uq_write = Some (perf_key, generate_random_str random), uq_remove = None\<rparr>)
       (unmarshal_update_response T) ur_code (\<lambda>r. []))"

text \<open>The report at the end: the counter over the seconds between start and stop. A division by 0 stops the process.\<close>

definition perf_report :: "u64 \<Rightarrow> int \<Rightarrow> int \<Rightarrow> u64 res" where
  "perf_report count start_time stop_time =
     (if stop_time = start_time then Inl DivByZero else Inr (count div word_of_int (stop_time - start_time)))"

end
