(* ===== verification/Tools_Props.thy ===== *)
theory Tools_Props
  imports Client_Tools Rpc_Props Store_Props Client_Props
begin

text \<open>
  The tools against a node: a command of \<open>clientOps\<close> that reaches the leader is answered from its store.
\<close>

subsection \<open>A tool and a server\<close>

text \<open>The messages of the tools and of the server are the same protobuf messages: what one side marshals the other one parses, and a
  message with a field set is not empty.\<close>

definition select_set :: "select_request \<Rightarrow> bool" where
  "select_set q \<longleftrightarrow> sq_read q \<noteq> None \<or> sq_range q \<noteq> None \<or> sq_search q \<noteq> None"

definition tool_proto_ok :: "tool_proto \<Rightarrow> proto \<Rightarrow> bool" where
  "tool_proto_ok T P \<longleftrightarrow>
     (\<forall>q s. marshal_select_request T q = Some s \<and> select_set q \<longrightarrow> s \<noteq> [] \<and> unmarshal_select_request P s = Some q) \<and>
     (\<forall>r. sr_code r = 0 \<longrightarrow> unmarshal_select_response T (marshal_select_response P r) = Some r)"

text \<open>A world in which the calls of the client reach a server with the given handler.\<close>

definition reaches :: "(rpc_instance \<Rightarrow> rpc_reply) \<Rightarrow> sync_world \<Rightarrow> bool" where
  "reaches handler w \<longleftrightarrow> w_connects w \<and> (\<forall>m. w_sends w m) \<and> w_receives w = (\<lambda>m. Some (server_answer handler m))"

lemma tool_call_reply:
  assumes "reaches handler w" "RpcClient_addr io_ok addr port b = Inr client" "mar \<noteq> []" "length mar + 16 < 2 ^ 32"
    and "handler (request_instance sid op mar) = Reply rsp"
  shows "tool_call w client sid op (Some mar) un code show_it =
    (case un rsp of None \<Rightarrow> failed | Some r \<Rightarrow> if code r \<noteq> 0 then failed else (0, show_it r))"
proof -
  have "fst (call_RPC w sid op mar 0 RpcClientImpl) = (client_OK, Some rsp)"
    using assms by (intro call_reply [where handler = handler]) (auto simp: reaches_def)
  then show ?thesis
    using client_call_new [OF assms(2), of w sid op mar]
    by (simp add: tool_call_def split_beta Let_def or_default_def)
qed

lemma tool_call_reject:
  assumes "reaches handler w" "RpcClient_addr io_ok addr port b = Inr client" "mar \<noteq> []" "length mar + 16 < 2 ^ 32"
    and "handler (request_instance sid op mar) = Reject status" "sid \<noteq> 0"
  shows "tool_call w client sid op (Some mar) un code show_it = failed"
proof -
  have "fst (call_RPC w sid op mar 0 RpcClientImpl) = (RECV_FORMAT_ERROR, None)"
    using assms by (intro call_rejected [where handler = handler]) (auto simp: reaches_def)
  then show ?thesis
    using client_call_new [OF assms(2), of w sid op mar]
    by (simp add: tool_call_def split_beta Let_def client_status_defs)
qed

subsection \<open>Reference messages\<close>

definition enc_list :: "string list \<Rightarrow> string" where
  "enc_list ks = enc_pairs (map (\<lambda>k. (k, [])) ks)"

definition dec_list :: "string \<Rightarrow> string list" where
  "dec_list s = map fst (dec_pairs (length s) s)"

lemma dec_enc_list [simp]: "dec_list (enc_list ks) = ks"
  using dec_enc_pairs [OF length_enc_pairs, of "map (\<lambda>k. (k, [])) ks"] by (simp add: dec_list_def enc_list_def comp_def)

definition ref_select_response :: "select_response \<Rightarrow> string" where
  "ref_select_response r =
     enc_str (sr_msg r) @ enc_opt (sr_read r) @ enc_opt (map_option enc_list (sr_range r)) @ enc_opt (map_option enc_list (sr_search r))"

definition ref_parse_response :: "string \<Rightarrow> select_response option" where
  "ref_parse_response s =
     (let (msg, r1) = dec_str s; (rd, r2) = dec_opt r1; (rg, r3) = dec_opt r2; (sc, r4) = dec_opt r3
      in Some \<lparr>sr_code = 0, sr_msg = msg, sr_read = rd, sr_range = map_option dec_list rg, sr_search = map_option dec_list sc\<rparr>)"

lemma ref_response_parse: "sr_code r = 0 \<Longrightarrow> ref_parse_response (ref_select_response r) = Some r"
  using dec_enc_opt [of "map_option enc_list (sr_search r)" "[]"]
  by (simp add: ref_parse_response_def ref_select_response_def option.map_comp comp_def option.map_ident)

definition ref_marshal_select :: "select_request \<Rightarrow> string option" where
  "ref_marshal_select q =
     (if sq_search q \<noteq> None then None
      else case sq_read q of Some k \<Rightarrow> (if sq_range q = None then Some (CHR 0x01 # k) else None)
        | None \<Rightarrow> (if sq_range q = Some ([], [], 0) then Some [CHR 0x02] else None))"

definition ref_parse_select :: "string \<Rightarrow> select_request option" where
  "ref_parse_select s =
     (case s of [] \<Rightarrow> None | c # k \<Rightarrow>
        if c = CHR 0x01 then Some \<lparr>sq_read = Some k, sq_range = None, sq_search = None\<rparr>
        else Some \<lparr>sq_read = None, sq_range = Some ([], [], 0), sq_search = None\<rparr>)"

definition ref_tool_proto :: tool_proto where
  "ref_tool_proto =
     \<lparr>marshal_select_request = ref_marshal_select, unmarshal_select_response = ref_parse_response,
      marshal_update_request = (\<lambda>q. None), unmarshal_update_response = (\<lambda>s. None), marshal_snapshot_ops = (\<lambda>h. None),
      unmarshal_snapshot_ops = (\<lambda>s. None), marshal_stat_ops = (\<lambda>h. None), unmarshal_stat_ops = (\<lambda>s. None)\<rparr>"

definition ref_node_proto :: proto where
  "ref_node_proto = ref_proto\<lparr>unmarshal_select_request := ref_parse_select, marshal_select_response := ref_select_response\<rparr>"

lemma ref_tool_proto_ok: "tool_proto_ok ref_tool_proto ref_node_proto"
  by (auto simp: tool_proto_ok_def ref_tool_proto_def ref_node_proto_def ref_response_parse ref_marshal_select_def ref_parse_select_def
      intro!: select_request.equality split: option.splits if_splits) (metis not_None_eq surj_pair)+

text \<open>A leader with one key in its store, and a world in which it serves.\<close>

definition ref_serving :: "(ref_db leveldb_log, (ref_db, (string \<times> string) list) leveldb_store) raft" where
  "ref_serving = ref_old_leader\<lparr>kv_store := ref_store0\<lparr>kv_fp := [(''k'', ''v'')]\<rparr>\<rparr>"


subsection \<open>Queries\<close>

text \<open>The last part of a query on a node, as the result of \<open>state_machine_query\<close>.\<close>

definition serve_query :: "'s StoreIf \<Rightarrow> proto \<Rightarrow> u64 \<Rightarrow> ('l, 's) raft \<Rightarrow> machine_call" where
  "serve_query S P aim st cmd = (case query_finish S P cmd aim st of None \<Rightarrow> (-1, []) | Some r \<Rightarrow> (0, r))"

definition leader_service :: "proxy_call \<Rightarrow> machine_call \<Rightarrow> 's StoreIf \<Rightarrow> proto \<Rightarrow> u64 \<Rightarrow> ('l, 's) raft \<Rightarrow> rpc_instance \<Rightarrow> rpc_reply" where
  "leader_service proxy modify S P aim st inst = ClientService_handle_RPC proxy (serve_query S P aim st) modify inst st"

lemma leader_select:
  assumes "is_leader st" "aim \<le> sm_apply (machine st)" "unmarshal_select_request P mar = Some q"
  shows "leader_service proxy modify S P aim st (request_instance CLIENT_SERVICE kSelect mar) =
    (let (ret, r) = select_handle S (kv_store st) q
     in if ret \<noteq> 0 then Reject SYSTEM_ERROR else Reply (marshal_select_response P (r\<lparr>sr_code := 0, sr_msg := ''OK''\<rparr>)))"
  using assms
  by (auto simp: leader_service_def ClientService_handle_RPC_def client_select_impl_def serve_query_def query_finish_def request_instance_def
      RpcRequestMessage_def Let_def not_less split: prod.splits)

lemma tool_client: "\<exists>client. RpcClient_addr True addr port b = Inr client"
  by (simp add: RpcClient_addr_def constructed_def RpcClient_init_def RpcClientImpl_init_def with_handler_def RpcClient_def RpcClientSetting_def Let_def)

text \<open>A query command as a whole.\<close>

lemma select_tool:
  assumes "tool_proto_ok T P" "is_leader st" "aim \<le> sm_apply (machine st)" "reaches (leader_service proxy modify S P aim st) w"
    and "marshal_select_request T q = Some s" "length s + 16 < 2 ^ 32" "select_set q" "RpcClient_addr True addr port b = Inr client"
  shows "tool_call w client CLIENT_SERVICE kSelect (Some s) (unmarshal_select_response T) sr_code show_it =
    (let (ret, r) = select_handle S (kv_store st) q in if ret \<noteq> 0 then failed else (0, show_it (r\<lparr>sr_code := 0, sr_msg := ''OK''\<rparr>)))"
proof -
  have s: "s \<noteq> []" "unmarshal_select_request P s = Some q" "\<And>r. sr_code r = 0 \<Longrightarrow> unmarshal_select_response T (marshal_select_response P r) = Some r"
    using assms(1,5,7) by (auto simp: tool_proto_ok_def)
  note L = leader_select [OF assms(2,3) s(2), of proxy modify S]
  obtain ret r where sh: "select_handle S (kv_store st) q = (ret, r)" by (metis surj_pair)
  show ?thesis
  proof (cases "ret = 0")
    case True
    then have "leader_service proxy modify S P aim st (request_instance CLIENT_SERVICE kSelect s) =
        Reply (marshal_select_response P (r\<lparr>sr_code := 0, sr_msg := ''OK''\<rparr>))"
      using L sh by simp
    from tool_call_reply [OF assms(4,8) s(1) assms(6) this, of "unmarshal_select_response T" sr_code show_it] True sh s(3) [of "r\<lparr>sr_code := 0, sr_msg := ''OK''\<rparr>"]
    show ?thesis by simp
  next
    case False
    then have "leader_service proxy modify S P aim st (request_instance CLIENT_SERVICE kSelect s) = Reject SYSTEM_ERROR"
      using L sh by simp
    from tool_call_reject [OF assms(4,8) s(1) assms(6) this] False sh show ?thesis by (simp add: CLIENT_SERVICE_def)
  qed
qed

lemma get_from_store:
  assumes "tool_proto_ok T P" "is_leader st" "aim \<le> sm_apply (machine st)"
    and "reaches (leader_service proxy modify (LevelDBStore D F P) P aim st) w"
    and "marshal_select_request T \<lparr>sq_read = Some key, sq_range = None, sq_search = None\<rparr> = Some s" "length s + 16 < 2 ^ 32"
  shows "clientOps T True w [prog, ''get'', key] =
    Inr (case store_map D (kv_store st) key of None \<Rightarrow> (-1, []) | Some v \<Rightarrow> (0, ''read return ok with content:'' @ v))"
proof -
  obtain client where c: "RpcClient_addr True srv_addr srv_port False = Inr client" using tool_client by blast
  have "clientOps T True w [prog, ''get'', key] = Inr (ops_get T w client key)"
    using c by (simp add: clientOps_def starts_with_def arg_string_def)
  also have "ops_get T w client key =
      (case store_map D (kv_store st) key of None \<Rightarrow> (-1, []) | Some v \<Rightarrow> (0, ''read return ok with content:'' @ v))"
    unfolding ops_get_def assms(5) using select_tool [OF assms _ c]
    by (simp add: select_set_def LevelDBStore_select_handle_def store_get_def store_map_def failed_def or_default_def split: option.splits)
  finally show ?thesis .
qed

text \<open>C17: Reading a key from the command line: \<open>clientOps get key\<close>, answered by a leader that has applied the log up to the index of the query,
  prints the value that its store has under the key and exits with 0; it exits with -1 exactly if the store has no such key.\<close>

theorem clientOps_get_reads_store:
  assumes "tool_proto_ok T P" "is_leader st" "aim \<le> sm_apply (machine st)"
    and "reaches (leader_service proxy modify (LevelDBStore D F P) P aim st) w"
    and "marshal_select_request T \<lparr>sq_read = Some key, sq_range = None, sq_search = None\<rparr> = Some s" "length s + 16 < 2 ^ 32"
  shows "clientOps T True w [prog, ''get'', key] =
    Inr (case store_map D (kv_store st) key of None \<Rightarrow> (-1, []) | Some v \<Rightarrow> (0, ''read return ok with content:'' @ v))"
  by (rule get_from_store [OF assms])

text \<open>Listing the keys from the command line: \<open>clientOps keys\<close> prints the number of keys of the leader's store and every key, in order.\<close>

theorem clientOps_keys_lists_store:
  assumes "tool_proto_ok T P" "is_leader st" "aim \<le> sm_apply (machine st)" "leveldb_ok D"
    and "reaches (leader_service proxy modify (LevelDBStore D F P) P aim st) w"
    and "marshal_select_request T \<lparr>sq_read = None, sq_range = Some ([], [], 0), sq_search = None\<rparr> = Some s" "length s + 16 < 2 ^ 32"
  shows "\<exists>ks. clientOps T True w [prog, ''keys''] = Inr (0, show_keys ks) \<and> sorted_wrt (<) ks \<and> set ks = dom (store_map D (kv_store st))"
proof -
  obtain client where c: "RpcClient_addr True srv_addr srv_port False = Inr client" using tool_client by blast
  let ?ks = "map fst (db_iter D (kv_fp (kv_store st)))"
  have "clientOps T True w [prog, ''keys''] = Inr (ops_keys T w client)"
    using c by (simp add: clientOps_def starts_with_def)
  also have "ops_keys T w client = (0, show_keys ?ks)"
    unfolding ops_keys_def assms(6) using select_tool [OF assms(1-3,5-7) _ c] store_range_eq [OF assms(4), of 0 "kv_store st" "[]" "[]"]
    by (simp add: select_set_def LevelDBStore_select_handle_def failed_def or_default_def)
  finally have r: "clientOps T True w [prog, ''keys''] = Inr (0, show_keys ?ks)" .
  have "sorted_wrt (<) ?ks" "map_of (db_iter D (kv_fp (kv_store st))) = store_map D (kv_store st)"
    using assms(4) by (simp_all add: leveldb_ok_def store_map_def)
  moreover from this(2) have "set ?ks = dom (store_map D (kv_store st))" by (metis dom_map_of_conv_image_fst set_map)
  ultimately show ?thesis using r by blast
qed

subsection \<open>A tool and the reference leader\<close>

definition ref_service :: "rpc_instance \<Rightarrow> rpc_reply" where
  "ref_service = leader_service (\<lambda>p sid op s. (-1, [])) (\<lambda>s. (-1, [])) (LevelDBStore ref_leveldb ref_files ref_node_proto) ref_node_proto 0 ref_serving"

lemma ref_service_reached: "reaches ref_service (ref_world ref_service)"
  by (simp add: reaches_def ref_world_def)

lemma ref_serving_leader: "is_leader ref_serving"
  using ref_old_leader_facts(3) by (simp add: ref_serving_def is_leader_def)

theorem clientOps_get_reads_store_witness:
  "clientOps ref_tool_proto True (ref_world ref_service) [''clientOps'', ''get'', ''k''] = Inr (0, ''read return ok with content:v'')"
proof -
  have m: "marshal_select_request ref_tool_proto \<lparr>sq_read = Some ''k'', sq_range = None, sq_search = None\<rparr> = Some [CHR 0x01, CHR ''k'']"
    by (simp add: ref_tool_proto_def ref_marshal_select_def)
  have "store_map ref_leveldb (kv_store ref_serving) ''k'' = Some ''v''"
    by (simp add: store_map_def ref_serving_def ref_leveldb_def)
  with clientOps_get_reads_store [OF ref_tool_proto_ok ref_serving_leader _ ref_service_reached [unfolded ref_service_def] m, of "''clientOps''"]
  show ?thesis by (simp add: ref_service_def)
qed

theorem clientOps_keys_lists_store_witness:
  "clientOps ref_tool_proto True (ref_world ref_service) [''clientOps'', ''keys''] = Inr (0, show_keys [''k''])"
proof -
  have m: "marshal_select_request ref_tool_proto \<lparr>sq_read = None, sq_range = Some ([], [], 0), sq_search = None\<rparr> = Some [CHR 0x02]"
    by (simp add: ref_tool_proto_def ref_marshal_select_def)
  have "dom (store_map ref_leveldb (kv_store ref_serving)) = {''k''}"
    by (simp add: store_map_def ref_serving_def ref_leveldb_def)
  with clientOps_keys_lists_store [OF ref_tool_proto_ok ref_serving_leader _ ref_leveldb_ok(1)
      ref_service_reached [unfolded ref_service_def] m, of "''clientOps''"]
  obtain ks where ks: "clientOps ref_tool_proto True (ref_world ref_service) [''clientOps'', ''keys''] = Inr (0, show_keys ks)"
      "sorted_wrt (<) ks" "set ks = {''k''}"
    by (auto simp: ref_service_def)
  obtain k ks' where k: "ks = k # ks'" using ks(3) by (cases ks) auto
  then have "k = ''k''" "set ks' \<subseteq> {''k''}" using ks(3) by auto
  moreover have "x \<noteq> k" if "x \<in> set ks'" for x using ks(2) k that by auto
  ultimately have "ks = [''k'']" using k by (cases ks') auto
  with ks(1) show ?thesis by simp
qed

subsection \<open>Arguments the tools do not expect\<close>

text \<open>The \<open>get\<close> command does not test the number of arguments and makes a string of a null pointer; the load generator compares the command
  by prefix first and exactly later, so that a longer word that starts with \<open>get\<close> writes; and its report divides by 0 when it is
  stopped within the second in which it started.\<close>

lemma clientOps_get_without_key: "clientOps T True w [prog, ''get''] = Inl Uncaught"
  using tool_client [of srv_addr srv_port False] by (auto simp: clientOps_def starts_with_def arg_string_def)

lemma clientPerf_longer_word: "perf_command [prog, ''getall'', ''4''] = Inr (False, 4)"
  by (simp add: perf_command_def starts_with_def atoi_def white_def digits_value_def is_digit_def)

lemma clientPerf_report_faults: "perf_report count t t = Inl DivByZero"
  by (simp add: perf_report_def)

text \<open>A thread of the load generator stops at the first failed call, and counts every other one.\<close>

lemma perf_turn_cases:
  "perf_stop (perf_turn r s) \<longleftrightarrow> perf_stop s \<or> fst r \<noteq> 0"
  "perf_count (perf_turn r s) = (if \<not> perf_stop s \<and> fst r = 0 then perf_count s + 1 else perf_count s)"
  by (simp_all add: perf_turn_def)

end
