(* ===== verification/Write_Read.thy ===== *)
theory Write_Read
  imports Tools_Props
begin

text \<open>
  A write and a later read, through all components: the client's command becomes a log entry of the leader, the apply loop
  executes it once it is committed, and a query from the command line finds the value.
\<close>

lemma replay_write:
  assumes "e_type e = kNormal" "unmarshal_update_request P (entry_data e) = Some \<lparr>uq_write = Some (k, v), uq_remove = None\<rparr>"
  shows "replay P (es @ [e]) m k = Some v"
  using assms by (simp add: replay_entry_def update_map_def)

text \<open>The committed part of a log up to a new entry, as the apply loop takes it.\<close>

lemma applied_slice:
  assumes "log_inv L E l" "log_ents L E l = es @ e # later" "unat i = unat (lg_start l) + length es" "a < i" "lg_start l \<le> a + 1"
  shows "take (unat i - unat a) (drop (unat (a + 1) - unat (lg_start l)) (log_ents L E l)) =
    drop (unat (a + 1) - unat (lg_start l)) es @ [e]"
proof -
  have a1: "unat (a + 1) = Suc (unat a)" using assms(4) by (intro unat_inc) (metis word_order.extremum_strict)
  let ?k = "unat (a + 1) - unat (lg_start l)"
  have k: "?k \<le> length es" "unat i - unat a = Suc (length es - ?k)"
    using assms(3-5) a1 by (simp_all add: idx_order)
  then show ?thesis using assms(2) by simp
qed

text \<open>C16: Reading back a write: a leader takes the update command \<open>cmd\<close>, which writes \<open>val\<close> under \<open>key\<close>, into its log; once the commit index is at
  its entry, the apply loop runs to its end, and \<open>clientOps get key\<close> answered by the node in the state it then has prints \<open>val\<close>. Other entries may be
  appended behind it in the meantime.\<close>

theorem write_is_read_back:
  assumes "sound_node L E st" "log_room (LevelDBLog L E) 1 st" "modify_begin cmd st = Some e"
    and "modify_append (LevelDBLog L E) e st = ((t, i), st1)"
    and "unmarshal_update_request P cmd = Some \<lparr>uq_write = Some (key, val), uq_remove = None\<rparr>"
    and "log_inv L E (rlog st2)" "log_ents L E (rlog st2) = log_ents L E (rlog st1) @ later" "lg_start (rlog st2) = lg_start (rlog st1)"
    and "\<forall>x \<in> set (log_ents L E (rlog st2)). e_type x \<noteq> kConfigure"
    and "LevelDBLog_meta_commit_index L E (rlog st2) = i" "sm_apply (machine st2) < i" "lg_start (rlog st2) \<le> sm_apply (machine st2) + 1"
    and "sm_progress (machine st2) = kDone" "store_inv D (kv_store st2)" "is_leader st2"
    and "tool_proto_ok T P" "marshal_select_request T \<lparr>sq_read = Some key, sq_range = None, sq_search = None\<rparr> = Some s" "length s + 16 < 2 ^ 32"
  shows "\<exists>sm l kv. sm_run (Suc (unat i - unat (sm_apply (machine st2)))) (LevelDBLog L E) (LevelDBStore D F P) P
      (machine st2) (rlog st2) (kv_store st2) = Some (Inr (sm, l, kv)) \<and>
    clientOps T True (ref_world (leader_service proxy modify (LevelDBStore D F P) P i (st2\<lparr>machine := sm, rlog := l, kv_store := kv\<rparr>)))
      [prog, ''get'', key] = Inr (0, ''read return ok with content:'' @ val)"
proof -
  let ?l = "rlog st2" and ?a = "sm_apply (machine st2)"
  have m: "i = lg_last (rlog st) + 1" "log_ents L E (rlog st1) = log_ents L E (rlog st) @ [e]" "sound_node L E st1" "e_data e = Some cmd"
    using modify_append_entry [OF assms(1-4)] by simp_all
  have e: "e_type e = kNormal" "entry_data e = cmd"
    using assms(3) by (auto simp: modify_begin_def entry_data_def split: if_splits)
  have ents: "log_ents L E ?l = log_ents L E (rlog st) @ e # later" using assms(7) m(2) by simp
  have I: "log_inv L E (rlog st)" "unat (lg_last (rlog st)) + length [e] < 2 ^ 64 - 1"
    using assms(1,2) by (simp_all add: node_ok_def log_room_def)
  have "lg_start (rlog st1) = lg_start (rlog st)"
    using ldb.append_spec [OF I(1), of "[e]"] I(2) assms(4) by (auto simp: modify_append_def Let_def)
  moreover have "lg_last (rlog st) \<noteq> - 1" using I(2) unat_max_u64 by auto
  then have "unat i = Suc (unat (lg_last (rlog st)))" using m(1) by (simp add: unat_inc)
  ultimately have len: "unat i = unat (lg_start ?l) + length (log_ents L E (rlog st))"
    using ldb.last_eq [OF I(1)] assms(8) by simp
  have le: "i \<le> lg_last ?l"
    using ldb.last_eq [OF assms(6)] ents len by (simp add: idx_order)
  obtain sm l kv where r: "sm_run (Suc (unat i - unat ?a)) (LevelDBLog L E) (LevelDBStore D F P) P (machine st2) ?l (kv_store st2) =
      Some (Inr (sm, l, kv))" "sm_apply sm = i"
      "store_map D kv = replay P (take (unat i - unat ?a) (drop (unat (?a + 1) - unat (lg_start ?l)) (log_ents L E ?l))) (store_map D (kv_store st2))"
    using kan.sm_run_replay [where n = "Suc (unat i - unat ?a)" and F = F and P = P, OF assms(6,14,13)] assms(9-12) le by fastforce
  have "store_map D kv key = Some val"
    using r(3) applied_slice [OF assms(6) ents len assms(11,12)] replay_write [OF e(1)] assms(5) e(2) by simp
  then have v: "store_map D (kv_store (st2\<lparr>machine := sm, rlog := l, kv_store := kv\<rparr>)) key = Some val" by simp
  have ldr: "is_leader (st2\<lparr>machine := sm, rlog := l, kv_store := kv\<rparr>)" using assms(15) by (simp add: is_leader_def)
  have "reaches h (ref_world h)" for h by (simp add: reaches_def ref_world_def)
  from get_from_store [OF assms(16) ldr _ this assms(17,18)] r(2)
  have "clientOps T True (ref_world (leader_service proxy modify (LevelDBStore D F P) P i (st2\<lparr>machine := sm, rlog := l, kv_store := kv\<rparr>)))
      [prog, ''get'', key] = Inr (0, ''read return ok with content:'' @ val)"
    using v by simp
  with r(1) show ?thesis by blast
qed

definition ref_cmd :: string where
  "ref_cmd = CHR 0x01 # enc_str ''k'' @ enc_str ''v''"

theorem write_is_read_back_witness:
  "\<exists>e st1 sm l kv. modify_begin ref_cmd ref_old_leader = Some e \<and> modify_append refV e ref_old_leader = ((2, 4), st1) \<and>
     clientOps ref_tool_proto True (ref_world (leader_service (\<lambda>p sid op s. (-1, [])) (\<lambda>s. (-1, []))
         (LevelDBStore ref_leveldb ref_files ref_node_proto) ref_node_proto 4 (st1\<lparr>machine := sm, rlog := l, kv_store := kv\<rparr>)))
       [''clientOps'', ''get'', ''k''] = Inr (0, ''read return ok with content:v'')"
proof -
  obtain e where e: "modify_begin ref_cmd ref_old_leader = Some e" by (simp add: modify_begin_def ref_old_leader_facts ref_cmd_def)
  have et: "e_type e = kNormal" using e by (auto simp: modify_begin_def split: if_splits)
  obtain t i st1 where a: "modify_append refV e ref_old_leader = ((t, i), st1)" by (metis surj_pair)
  note M = modify_append_entry [OF ref_old_leader_facts(1,2) e a]
  have ti: "t = 2" "i = 4" using M by (simp_all add: ref_old_leader_facts ref_follower_log)
  define l2 where "l2 = snd (LevelDBLog_set_meta_commit_index ref_leveldb ref_codec (rlog st1) 4)"
  have I: "log_inv ref_leveldb ref_codec (rlog st1)" using M by (simp add: node_ok_def)
  have l2: "log_inv ref_leveldb ref_codec l2" "log_ents ref_leveldb ref_codec l2 = log_ents ref_leveldb ref_codec (rlog st1) @ []"
      "lg_start l2 = lg_start (rlog st1)" "LevelDBLog_meta_commit_index ref_leveldb ref_codec l2 = 4"
    using ldb.set_commit_spec [OF I, of 4] ldb.commit_of_meta [of ref_leveldb ref_codec l2] by (simp_all add: l2_def)
  have "log_inv ref_leveldb ref_codec (rlog ref_old_leader)" using ref_old_leader_facts(1) by (simp add: node_ok_def)
  from ldb.append_spec [OF this, of "[e]"] a have s1: "lg_start (rlog st1) = 1"
    by (auto simp: modify_append_def Let_def ref_old_leader_facts ref_follower_log)
  define st2 where "st2 = st1\<lparr>machine := StateMachine, rlog := l2, kv_store := ref_store0\<rparr>"
  have f2: "rlog st2 = l2" "machine st2 = StateMachine" "kv_store st2 = ref_store0" by (simp_all add: st2_def)
  have nc: "\<forall>x \<in> set (log_ents ref_leveldb ref_codec (rlog st2)). e_type x \<noteq> kConfigure"
    using M et by (auto simp: f2 l2 ref_old_leader_facts ref_follower_log ref_entry_def)
  have ldr: "is_leader st2" using M a ref_old_leader_facts(3) by (auto simp: st2_def is_leader_def modify_append_def Let_def)
  have m: "marshal_select_request ref_tool_proto \<lparr>sq_read = Some ''k'', sq_range = None, sq_search = None\<rparr> = Some [CHR 0x01, CHR ''k'']"
    by (simp add: ref_tool_proto_def ref_marshal_select_def)
  have u: "unmarshal_update_request ref_node_proto ref_cmd = Some \<lparr>uq_write = Some (''k'', ''v''), uq_remove = None\<rparr>"
    by (simp add: ref_node_proto_def ref_proto_def ref_cmd_def ref_write_parse)
  have "\<exists>sm l kv. sm_run (Suc (unat i - unat (sm_apply (machine st2)))) refV (LevelDBStore ref_leveldb ref_files ref_node_proto) ref_node_proto
      (machine st2) (rlog st2) (kv_store st2) = Some (Inr (sm, l, kv)) \<and>
    clientOps ref_tool_proto True (ref_world (leader_service (\<lambda>p sid op s. (-1, [])) (\<lambda>s. (-1, []))
        (LevelDBStore ref_leveldb ref_files ref_node_proto) ref_node_proto i (st2\<lparr>machine := sm, rlog := l, kv_store := kv\<rparr>)))
      [''clientOps'', ''get'', ''k''] = Inr (0, ''read return ok with content:'' @ ''v'')"
    by (rule write_is_read_back [OF ref_old_leader_facts(1,2) e a u _ _ _ nc _ _ _ _ _ ldr ref_tool_proto_ok m, where later = "[]"])
      (use l2 ti s1 in \<open>simp_all add: f2 StateMachine_def ref_store_inv\<close>)
  then show ?thesis using e a ti by (auto simp: st2_def)
qed

end
