(* ===== verification/Compact_Props.thy ===== *)
theory Compact_Props
  imports Client_Props
begin

text \<open>
  What compaction does to elections: why the properties of replication are stated for runs without it.
\<close>

text \<open>The last term and index of a log whose entries were all compacted.\<close>

lemma compacted_log:
  assumes "log_inv L E l" "lg_last l \<noteq> - 1"
  shows "fst (LevelDBLog_last_term_and_index L E (LevelDBLog_truncate_prefix L E l (lg_last l + 1))) = 0"
proof -
  let ?l = "LevelDBLog_truncate_prefix L E l (lg_last l + 1)"
  have p: "log_inv L E ?l" "log_ents L E ?l = drop (unat (lg_last l + 1) - unat (lg_start l)) (log_ents L E l)"
    using ldb.prefix_spec [OF assms(1), of "lg_last l + 1"] by simp_all
  have "unat (lg_last l + 1) = unat (lg_start l) + length (log_ents L E l)"
    using ldb.last_eq [OF assms(1)] assms(2) unat_inc [of "lg_last l"] by simp
  then have "log_ents L E ?l = []" using p(2) by simp
  then show ?thesis using ldb.last_term [OF p(1)] by simp
qed

text \<open>C37: A node that compacted its log forgets how far it was: with its entries it refuses a candidate whose last entry is of a smaller term than its own
  last entry; after a snapshot of the whole log it grants the same request its vote, whatever the index the candidate's log ends with, so that
  a candidate without the committed entries can be elected.\<close>

theorem compacted_voter_forgets:
  assumes "sound_node L E st" "lg_last (rlog st) \<noteq> - 1" "log_ents L E (rlog st) \<noteq> []"
    and "vq_last_log_term q < e_term (last (log_ents L E (rlog st)))" "0 < vq_last_log_term q" "c_term (context_of st) < vq_term q"
    and "\<not> fst (within now (o_withhold_votes_ms (opt st)) (withhold_votes_timer st))"
  shows "\<not> vr_vote_granted (fst (on_request_vote_request (LevelDBLog L E) now q st)) \<and>
    vr_vote_granted (fst (on_request_vote_request (LevelDBLog L E) now q (snapshot_trim (LevelDBLog L E) (lg_last (rlog st)) trm st)))"
proof
  have I: "log_inv L E (rlog st)" using assms(1) by (simp add: node_ok_def)
  have "\<not> log_is_ok (LevelDBLog L E) (rlog st) q"
    using ldb.last_term [OF I] assms(3,4) by (auto simp: log_is_ok_def split: prod.splits)
  then show "\<not> vr_vote_granted (fst (on_request_vote_request (LevelDBLog L E) now q st))"
    by (simp add: on_request_vote_request_def Let_def split_beta)
next
  have I: "log_inv L E (rlog st)" using assms(1) by (simp add: node_ok_def)
  let ?st = "snapshot_trim (LevelDBLog L E) (lg_last (rlog st)) trm st"
  have ok: "log_is_ok (LevelDBLog L E) (rlog ?st) q"
    using compacted_log [OF I assms(2)] assms(5) by (simp add: log_is_ok_def snapshot_trim_def split_beta)
  have "\<not> fst (within now (o_withhold_votes_ms (opt ?st)) (withhold_votes_timer ?st))" "c_term (context_of ?st) < vq_term q"
    using assms(6,7) by (simp_all add: snapshot_trim_def)
  with ok show "vr_vote_granted (fst (on_request_vote_request (LevelDBLog L E) now q ?st))"
    by (simp add: on_request_vote_request_def Let_def split_beta set_ctx_log_def become_follower_def)
qed

definition ref_behind :: vote_request where
  "ref_behind = \<lparr>vq_term = 5, vq_candidate_id = 3, vq_last_log_index = 1, vq_last_log_term = 1, vq_epoch = 0\<rparr>"

theorem compacted_voter_forgets_witness:
  "\<not> vr_vote_granted (fst (on_request_vote_request refV 0 ref_behind ref_follower)) \<and>
   vr_vote_granted (fst (on_request_vote_request refV 0 ref_behind (snapshot_trim refV 3 2 ref_follower)))"
proof -
  have w: "\<not> fst (within 0 (o_withhold_votes_ms (opt ref_follower)) (withhold_votes_timer ref_follower))"
    by (simp add: ref_follower_def Let_def within_def SimpleTimer_def ref_node_def)
  have "lg_last (rlog ref_follower) \<noteq> - 1" "log_ents ref_leveldb ref_codec (rlog ref_follower) \<noteq> []"
      "vq_last_log_term ref_behind < e_term (last (log_ents ref_leveldb ref_codec (rlog ref_follower)))"
      "0 < vq_last_log_term ref_behind" "c_term (context_of ref_follower) < vq_term ref_behind"
    by (simp_all add: ref_follower_log ref_behind_def ref_entry_def)
  from compacted_voter_forgets [OF ref_follower_ok this w] show ?thesis by (simp add: ref_follower_log)
qed

subsection \<open>Replication\<close>

text \<open>A leader that compacted its log sends its remaining entries to a peer with an empty log as if they were the first ones: the index before
  the peer's next index is 0, which \<^verbatim>\<open>send_append_entries\<close> takes for the start of the log, and \<^verbatim>\<open>entries\<close> starts at the first entry that is left. The
  peer accepts them, and has the leader's entry of index \<open>lg_start\<close> at index 1.\<close>

theorem compacted_leader_renumbers:
  assumes "sound_node L E st" "1 < lg_start (rlog st)" "log_ents L E (rlog st) \<noteq> []" "o_log_trans_count (opt st) = 0" "next_index p = 1"
    and "sound_node L E fo" "log_room (LevelDBLog L E) (length (log_ents L E (rlog st))) fo"
    and "lg_start (rlog fo) = 1" "log_ents L E (rlog fo) = []" "c_term (context_of fo) \<le> c_term (context_of st)"
  shows "\<exists>q r fo'. send_append_entries_to (LevelDBLog L E) S p st = Inr (0, send_raft_RPC (p_id p) (AppendEntries q) st) \<and>
    on_append_entries_request (LevelDBLog L E) now q fo = Inr (r, fo') \<and> ar_success r \<and>
    log_ents L E (rlog fo') = log_ents L E (rlog st) \<and> lg_start (rlog fo') = 1"
proof -
  let ?es = "log_ents L E (rlog st)"
  have I: "log_inv L E (rlog st)" "log_inv L E (rlog fo)" using assms(1,6) by (simp_all add: node_ok_def)
  have s: "1 \<le> unat (lg_start (rlog st))" using assms(2) by (simp add: word_less_nat_alt)
  let ?q = "\<lparr>aq_term = c_term (context_of st), aq_leader_id = c_id (context_of st), aq_prev_log_index = 0, aq_prev_log_term = 0,
      aq_entries = ?es, aq_leader_commit = min (commit_index (context_of st)) (of_nat (length ?es)), aq_epoch = epoch (context_of st)\<rparr>"
  have "LevelDBLog_entries L E (rlog st) 1 0 = Inr (True, ?es)"
    using ldb.entries_spec [OF I(1), of 1 0] s by simp
  then have snd: "send_append_entries_to (LevelDBLog L E) S p st = Inr (0, send_raft_RPC (p_id p) (AppendEntries ?q) st)"
    using assms(2,4,5) s by (auto simp: send_append_entries_to_def prev_log_term_def Let_def not_le)
  have "append_accepts (LevelDBLog L E) (log_ents L E) ?q fo"
    using assms(8,10) by (simp add: append_accepts_def)
  moreover have "append_merged (LevelDBLog L E) (log_ents L E) ?q (rlog fo) = ?es"
    using assms(8,9) by (simp add: append_merged_def)
  ultimately show ?thesis
    using ldb.append_request_result [OF assms(6), of ?q now] assms(7,8) snd by (intro exI [of _ ?q]) auto
qed

end
