(* ===== verification/Spec2Isabelle.thy ===== *)
theory Spec2Isabelle
  imports Replication_Props Vote_Props Machine_Props Client_Props Consensus_Props Store_Props Log_Props Ref_Cluster Majority
    Rpc_Props Server_Props Snapshot_Handshake Startup_Props Runtime_Props Write_Read Compact_Props
begin

text \<open>
  \<^bold>\<open>A verification development for kan\<close>, a replicated key/value service: a Raft implementation over
  LevelDB with its own RPC layer over TCP.

  \<^bold>\<open>The program.\<close> A process runs one Raft node. \<^verbatim>\<open>RaftConsensus\<close> owns a \<^verbatim>\<open>Context\<close> (role, term, vote,
  quorum, epoch), the \<^verbatim>\<open>Peer\<close>s of the cluster, two timers, the persistent log (\<^verbatim>\<open>LogIf\<close>, implemented by
  \<^verbatim>\<open>LevelDBLog\<close>) and a \<^verbatim>\<open>StateMachine\<close>, whose thread applies committed entries to the store (\<^verbatim>\<open>StoreIf\<close>,
  implemented by \<^verbatim>\<open>LevelDBStore\<close>). Requests arrive through \<^verbatim>\<open>NetServer\<close> and a \<^verbatim>\<open>TcpConnAsync\<close> per connection,
  which cuts the byte stream into messages; the \<^verbatim>\<open>Dispatcher\<close> hands each one, as an \<^verbatim>\<open>RpcInstance\<close>, to the
  \<^verbatim>\<open>Executor\<close> of its service, and \<^verbatim>\<open>RaftService\<close>, \<^verbatim>\<open>ClientService\<close> and \<^verbatim>\<open>ControlService\<close> call the consensus
  module. The node talks to its peers with the RPC client under \<^verbatim>\<open>source/Client\<close>; a response comes back
  through \<^verbatim>\<open>handle_rpc_callback\<close>. \<^verbatim>\<open>Captain::init\<close> creates all of this in order; the tools under \<^verbatim>\<open>tools\<close> are clients.

  \<^bold>\<open>Conventions.\<close> A class is a record of its fields and an operation a function from the old state to
  the new one; a class with virtual functions is a record of functions. Raft indices, terms and node
  ids are 64-bit words and wrap as \<^verbatim>\<open>uint64_t\<close> does. An operation that can dereference a null pointer or
  end the process returns a sum whose left side is the \<open>fault\<close>; errors the code returns
  are ordinary values. Code that blocks, or that releases a lock, is cut there into one definition per
  piece. Names are those of the sources; an operation that the sources have in several classes carries
  the name of its class.

  \<^bold>\<open>Parameters.\<close> The third-party code is a parameter, a record of the functions used, with a predicate
  for their documented behaviour: \<open>leveldb\<close> (an ordered map with atomic batches that may refuse a write),
  \<open>codec\<close> (the byte order of keys and the marshalling of entries), \<open>files\<close> (the snapshot file; \<^verbatim>\<open>rename\<close> is assumed to succeed, and the code ignores its result), and
  \<open>proto\<close> for the generated message classes (\<open>Deps\<close>). The theories \<open>Reference\<close> and \<open>Reference_Env\<close> give
  concrete instances that satisfy the predicates; the witnesses run on them. The configuration file, the
  status text, the outcome of a wait on a condition variable, the content of a receive buffer after a read
  and the success of a connect are arguments of the definitions that use them.

  \<^bold>\<open>Theories.\<close>
  \<^item> \<open>Prelude\<close>, \<open>Bytes\<close>: words, faults, results, the collections of simplification rules, bytes in network order.
  \<^item> \<open>Proto\<close>: the protobuf messages (\<^verbatim>\<open>Protocol/source/*.proto\<close>) as records.
  \<^item> \<open>Log_If\<close>, \<open>Level_Log\<close>, \<open>Log_Reopen\<close>, \<open>Log_Props\<close>: \<^verbatim>\<open>Raft/LogIf.h\<close> and \<^verbatim>\<open>Raft/LevelDBLog.{h,cpp}\<close>. The locale
    \<open>log_if\<close> is the contract of the log as a list of entries with a start index; the interpretation \<open>ldb\<close>
    discharges it for the code. The properties are the refinement of the list by append and the two
    truncations, reading, meta data, a refused write, and that construction on an old database gives the
    old log.
  \<^item> \<open>KV_Store\<close>, \<open>Store_Props\<close>: \<^verbatim>\<open>Raft/StoreIf.h\<close> and \<^verbatim>\<open>Raft/LevelDBStore.{h,cpp}\<close>. The locale \<open>store_if\<close> is the
    contract of a store as a finite map, interpreted as \<open>lst\<close>; range and search are compared with
    reference definitions on the sorted list of keys, and a snapshot is followed from one store through
    its file to another.
  \<^item> \<open>Raft_Context\<close>: \<^verbatim>\<open>Raft/Clock.h\<close>, \<^verbatim>\<open>Option.h\<close>, \<^verbatim>\<open>Context.{h,cpp}\<close>, \<^verbatim>\<open>Peer.{h,cpp}\<close>.
  \<^item> \<open>State_Machine\<close>, \<open>Machine_Props\<close>, \<open>Snapshot_Handshake\<close>: \<^verbatim>\<open>Raft/StateMachine.{h,cpp}\<close>. The locale \<open>node_env\<close>
    joins a log and a store; in it the apply loop is shown to replay the committed entries, and \<open>kan\<close> is its
    interpretation on the two LevelDB classes. The handshake theory has the threads at the grain of single
    reads and writes of the progress variable; exclusion is an invariant, and progress a measure that falls with each step of the apply thread
    along any interleaving.
  \<^item> \<open>Consensus\<close>, \<open>Consensus_Ops\<close>: \<^verbatim>\<open>Raft/RaftConsensus.{h,cpp}\<close>: the handlers of requests and responses,
    sending, the main loop, client operations and start-up.
  \<^item> \<open>Append_Props\<close>, \<open>Append_Results\<close>, \<open>Majority\<close>, \<open>Consensus_Props\<close>, \<open>Client_Props\<close>: replication, as a merge of lists;
    the order statistic behind the commit index; what a leader sends, and what an answer does to its commit index; client updates and
    queries; snapshots received from a leader, and what they do to a query under way.
  \<^item> \<open>Handler_Props\<close>, \<open>Node_Steps\<close>, \<open>Cluster\<close>, \<open>Cluster_LevelDB\<close>, \<open>Vote_Props\<close>: a cluster whose nodes take the steps of
    the code in any order, over a network that loses, repeats and reorders messages, with crashes and
    restarts. The locale \<open>cluster_env\<close> extends \<open>log_if\<close> by the contract of a restart; its invariant gives
    one vote per node and term, a majority behind every leader, and election safety. \<open>ldbc\<close> is its
    interpretation. \<open>Ref_Cluster\<close> runs an election on the reference libraries for the witnesses.
  \<^item> \<open>Coherent\<close>, \<open>Log_Steps\<close>, \<open>Log_Match\<close>: what each step does to the logs and to the AppendEntries requests under way, and
    the log matching property for \<open>led\<close> runs. In such a run a node acts as leader only while it is one: it sends heartbeats and
    handles AppendEntries responses in the role of leader of the current term, and appends a client's entry only while its
    term is the one it read; no log is compacted. The sources do not test this: \<open>Ref_Split\<close> is a run of theirs in which log matching
    breaks.
  \<^item> \<open>Commit_Core\<close>, \<open>Commit_Spec\<close>: an abstract machine of replication, with the terms, logs, votes and acknowledgements ever given as
    history, and the proof that what a majority acknowledged in its leader's term is in the log of every later leader.
    \<open>Commit_Steps\<close>, \<open>Commit_Sim\<close>, \<open>Commit_Follow\<close>, \<open>Commit_Lead\<close>, \<open>Commit_Safe\<close>: every step of a led run of the cluster simulates a step of this
    machine, so that a cluster that starts with empty logs (\<open>fresh\<close>) has state machine safety and leader completeness.
    \<open>Ref_Run\<close> is a run in which an entry is committed on two nodes; \<open>Replication_Props\<close> has the properties.
    \<open>Compact_Props\<close> shows why compaction is left out: a voter that compacted its log forgets how far it was, and a leader that compacted its log
    sends the entries that are left to an empty peer under wrong indices.
  \<^item> \<open>Wire\<close>, \<open>Net_Conn\<close>, \<open>Framing\<close>, \<open>Net_Props\<close>: \<^verbatim>\<open>Core/Message.h\<close>, \<^verbatim>\<open>Core/Buffer.h\<close>, the headers of \<^verbatim>\<open>RPC/Rpc*Message.h\<close> and
    \<^verbatim>\<open>Network/TcpConnAsync.cpp\<close>. The reader is compared with a reference definition that cuts the whole
    stream, whatever the blocks in which it arrives; the writer is shown to put the sent messages on the
    wire in order; together they carry messages from one end to the other.
  \<^item> \<open>Rpc\<close>, \<open>Service_Conf\<close>: \<^verbatim>\<open>RPC/RpcInstance.cpp\<close>, \<^verbatim>\<open>Dispatcher.cpp\<close>, \<^verbatim>\<open>Executor.cpp\<close> and
    \<^verbatim>\<open>Protocol/ServiceImpl/*.cpp\<close>. \<open>Rpc_Client\<close>, \<open>Client_Conn\<close>: \<^verbatim>\<open>source/Client\<close>. \<open>Rpc_Props\<close>: a call and its
    reply end to end, the way of an AppendEntries request to the other node's handler and back, rejected
    calls, and the call timer.
  \<^item> \<open>Net_Server\<close>, \<open>Server_Props\<close>, \<open>Runtime_Props\<close>: \<^verbatim>\<open>Network/NetServer.cpp\<close>: address list, rate and concurrency limits and how they act together, refill timer;
    the sizes of the thread pools; and the update of the services' configuration at run time.
  \<^item> \<open>Startup\<close>, \<open>Startup_Props\<close>: \<^verbatim>\<open>Captain.cpp\<close>, \<^verbatim>\<open>main.cpp\<close> and the signal handler of \<^verbatim>\<open>setup.cpp\<close>. The start is a list of twelve steps over
    the state of the process; the properties say which components are up after each of them, what a successful start
    leaves, and what a signal finds.
  \<^item> \<open>Client_Setup\<close>, \<open>Client_Tools\<close>, \<open>Tools_Props\<close>: the constructors of \<^verbatim>\<open>RpcClient\<close> and the programs under \<^verbatim>\<open>tools\<close>; a query from the command
    line is followed through the RPC layer and the client service to the store of the leader and back. \<open>Write_Read\<close>: a write, from the
    leader's log through the apply loop, and the read that finds it.

  \<^bold>\<open>Bounds and fuel.\<close> The log properties assume that the last index stays below the largest 64-bit value;
  the code does not check for it. The apply loop \<open>sm_run\<close> takes fuel: one unit per pass, and
  the property shows that as many units as there are committed entries, plus one, bring it back to waiting.
  Byte counts of a connection are assumed below the 32-bit limit of the length field, and the configured
  receive limit below half of it, since the code compares signed numbers there. All other loops are total
  functions with their termination proofs.

  \<^bold>\<open>Not modelled.\<close> Functions that only print (\<^verbatim>\<open>cluster_stat\<close>, \<^verbatim>\<open>str\<close>, \<^verbatim>\<open>dump\<close>, \<^verbatim>\<open>module_status\<close>, \<^verbatim>\<open>usage\<close>, \<^verbatim>\<open>show_vcs_info\<close>), the pid file,
  the creation of the threads of \<^verbatim>\<open>clientPerf\<close>, the smoke test, socket options, and exhausted memory. The assertion macro of the library
  is taken as a no-op: each definition says what happens after it. The thread scheduler appears only through the order of
  steps: each definition runs under the lock the code holds there, and where the code
  holds none (\<^verbatim>\<open>do_write\<close>, \<^verbatim>\<open>snapshot_progress_\<close>) the steps are the single accesses.

  \<^bold>\<open>Open.\<close> The safety of replication is shown for led runs without compaction: the snapshot steps are part of the cluster and
  keep election safety, but leader completeness cannot be carried over to them, because of the comparison of logs shown in
  \<open>Compact_Props\<close>. The handshake of the
  snapshot threads is proved on its own, apart from the apply loop.
\<close>

end
